(* ===== verification/Prelude.thy ===== *)
theory Prelude
  imports Main "HOL-Library.Word" "HOL-Library.AList" "HOL-Library.Sublist"
begin

text \<open>
  What every component shares: the result type of fallible code, machine arithmetic with the
  overflow behaviour of the two build profiles, Rust strings, and the decimal printing and
  parsing of the standard library.
\<close>

named_theorems nom_simps \<open>what the parser combinators do, under their documented laws\<close>

section \<open>Results: values, errors and panics\<close>

text \<open>
  A Rust function that can fail returns \<open>Ok\<close> or \<open>Err\<close>; a function that panics returns nothing
  and unwinds through its callers, which is \<open>Panic\<close>. \<open>obind\<close> is the \<open>?\<close> operator.
\<close>

datatype ('e, 'a) outcome = Ok 'a | Err 'e | Panic

fun obind :: "('e, 'a) outcome \<Rightarrow> ('a \<Rightarrow> ('e, 'b) outcome) \<Rightarrow> ('e, 'b) outcome" where
  "obind (Ok x) f = f x"
| "obind (Err e) f = Err e"
| "obind Panic f = Panic"

lemma obind_eq_Ok [simp]: "obind m f = Ok y \<longleftrightarrow> (\<exists>x. m = Ok x \<and> f x = Ok y)"
  by (cases m) auto

lemma obind_eq_Panic [simp]:
  "obind m f = Panic \<longleftrightarrow> m = Panic \<or> (\<exists>x. m = Ok x \<and> f x = Panic)"
  by (cases m) auto

lemma obind_eq_Err:
  "obind m f = Err e \<longleftrightarrow> m = Err e \<or> (\<exists>x. m = Ok x \<and> f x = Err e)"
  by (cases m) auto

lemma obind_assoc [simp]: "obind (obind m f) g = obind m (\<lambda>x. obind (f x) g)"
  by (cases m) simp_all

lemma obind_Ok_right [simp]: "obind m Ok = m"
  by (cases m) auto

lemma obind_Ok_pair [simp]: "obind m (\<lambda>(i, p). Ok (i, p)) = m"
  by (cases m) auto

lemma obind_cong [fundef_cong]:
  "m = m' \<Longrightarrow> (\<And>x. m' = Ok x \<Longrightarrow> f x = f' x) \<Longrightarrow> obind m f = obind m' f'"
  by (cases m') simp_all

fun is_err :: "('e, 'a) outcome \<Rightarrow> bool" where
  "is_err (Err _) = True"
| "is_err _ = False"

lemma is_err_iff: "is_err m \<longleftrightarrow> (\<exists>e. m = Err e)"
  by (cases m) auto

lemma outcome_not_Ok_Panic: "(\<forall>x. m \<noteq> Ok x) \<Longrightarrow> m \<noteq> Panic \<Longrightarrow> is_err m"
  by (cases m) auto

text \<open>\<open>Result::map_err\<close> and \<open>Option::ok_or\<close>; \<open>unwrap_opt\<close> is \<open>Option::unwrap\<close> or \<open>expect\<close>.\<close>

fun map_err :: "('e \<Rightarrow> 'f) \<Rightarrow> ('e, 'a) outcome \<Rightarrow> ('f, 'a) outcome" where
  "map_err h (Ok x) = Ok x"
| "map_err h (Err e) = Err (h e)"
| "map_err h Panic = Panic"

lemma map_err_eq [simp]:
  "map_err h m = Ok x \<longleftrightarrow> m = Ok x"
  "map_err h m = Panic \<longleftrightarrow> m = Panic"
  by (cases m; auto)+

fun ok_or :: "'e \<Rightarrow> 'a option \<Rightarrow> ('e, 'a) outcome" where
  "ok_or e (Some x) = Ok x"
| "ok_or e None = Err e"

fun unwrap_opt :: "'a option \<Rightarrow> ('e, 'a) outcome" where
  "unwrap_opt (Some x) = Ok x"
| "unwrap_opt None = Panic"

section \<open>Machine arithmetic\<close>

text \<open>
  The exact result \<open>v\<close> of an operation on \<open>w\<close>-bit unsigned integers. Rust's \<open>+\<close>, \<open>-\<close>, \<open>*\<close> and
  \<open>pow\<close> panic on overflow when overflow checks are on (\<open>oc\<close>, the dev and test profiles) and wrap
  modulo \<open>2 ^ w\<close> when they are off (the release profile). Every definition that does arithmetic
  takes \<open>oc\<close>, so a theorem says which profile it speaks of. \<open>usize\<close> is 64 bits wide.
\<close>

definition chk :: "bool \<Rightarrow> nat \<Rightarrow> int \<Rightarrow> ('e, nat) outcome" where
  "chk oc w v =
     (if 0 \<le> v \<and> v < 2 ^ w then Ok (nat v)
      else if oc then Panic
      else Ok (nat (v mod 2 ^ w)))"

lemma chk_fits: "0 \<le> v \<Longrightarrow> v < 2 ^ w \<Longrightarrow> chk oc w v = Ok (nat v)"
  by (simp add: chk_def)

lemma chk_nat: "n < 2 ^ w \<Longrightarrow> chk oc w (int n) = Ok n"
  by (simp add: chk_def)

lemma chk_release: "chk False w v = Ok (nat (v mod 2 ^ w))"
  by (simp add: chk_def)

lemma chk_not_Err [simp]: "chk oc w v \<noteq> Err e"
  by (simp add: chk_def)

lemma chk_bound: "chk oc w v = Ok n \<Longrightarrow> n < 2 ^ w"
  by (auto simp: chk_def nat_less_iff split: if_splits)

lemma chk_Panic: "chk oc w v = Panic \<longleftrightarrow> oc \<and> \<not> (0 \<le> v \<and> v < 2 ^ w)"
  by (simp add: chk_def)

text \<open>\<open>chk\<close> where the exact result is not negative.\<close>

definition chk_up :: "bool \<Rightarrow> nat \<Rightarrow> nat \<Rightarrow> ('e, nat) outcome" where
  "chk_up oc w n = chk oc w (int n)"

lemma chk_up_eq:
  "chk_up oc w n = (if n < 2 ^ w then Ok n else if oc then Panic else Ok (n mod 2 ^ w))"
  by (simp add: chk_up_def chk_def nat_mod_as_int)

lemma chk_up_release [simp]: "chk_up False w n = Ok (n mod 2 ^ w)"
  by (simp add: chk_up_eq)

lemma chk_up_debug: "chk_up True w n = (if n < 2 ^ w then Ok n else Panic)"
  by (simp add: chk_up_eq)

lemma nat_Suc_int [simp]: "nat (1 + int n) = Suc n"
  by simp

type_synonym u8 = "8 word"
type_synonym bytes = "u8 list"

section \<open>Strings\<close>

text \<open>
  A Rust \<open>char\<close> is a Unicode scalar value and a \<open>str\<close> a sequence of them; \<open>chars().count()\<close> is
  the length of the list. \<open>str_ok\<close> is the invariant of the type \<open>str\<close>: no surrogates, nothing
  above \<open>0x10FFFF\<close>. \<open>lit\<close> turns an ASCII literal into a string.
\<close>

type_synonym uchar = nat
type_synonym rstring = "uchar list"

definition scalar :: "uchar \<Rightarrow> bool" where
  "scalar c \<longleftrightarrow> c < 0xD800 \<or> (0xE000 \<le> c \<and> c < 0x110000)"

definition str_ok :: "rstring \<Rightarrow> bool" where
  "str_ok s = list_all scalar s"

lemma str_ok_simps [simp]:
  "str_ok []"
  "str_ok (c # s) \<longleftrightarrow> scalar c \<and> str_ok s"
  "str_ok (s @ t) \<longleftrightarrow> str_ok s \<and> str_ok t"
  by (simp_all add: str_ok_def)

definition lit :: "string \<Rightarrow> rstring" where
  "lit s = map of_char s"

definition is_digit :: "uchar \<Rightarrow> bool" where
  "is_digit c \<longleftrightarrow> 48 \<le> c \<and> c \<le> 57"

lemma is_digit_code [simp]: "is_digit (48 + n) \<longleftrightarrow> n < 10"
  by (auto simp: is_digit_def)

abbreviation leading_digit :: "rstring \<Rightarrow> bool" where
  "leading_digit s \<equiv> s \<noteq> [] \<and> is_digit (hd s)"

section \<open>Decimal numbers\<close>

text \<open>\<open>to_string\<close> of an unsigned integer.\<close>

fun dec :: "nat \<Rightarrow> rstring" where
  "dec n = (if n < 10 then [48 + n] else dec (n div 10) @ [48 + n mod 10])"

declare dec.simps [simp del]

definition digit_val :: "uchar \<Rightarrow> nat" where
  "digit_val c = c - 48"

definition dec_val :: "rstring \<Rightarrow> nat" where
  "dec_val ds = foldl (\<lambda>v d. 10 * v + digit_val d) 0 ds"

lemma dec_small: "n < 10 \<Longrightarrow> dec n = [48 + n]"
  by (simp add: dec.simps)

lemma dec_nonempty [simp]: "dec n \<noteq> []"
  by (subst dec.simps) simp

lemma dec_digits: "list_all is_digit (dec n)"
proof (induction n rule: dec.induct)
  case (1 n)
  then show ?case
    by (subst dec.simps) auto
qed

lemma dec_set_digits: "c \<in> set (dec n) \<Longrightarrow> is_digit c"
  using dec_digits by (auto simp: list_all_iff)

lemma dec_val_snoc: "dec_val (ds @ [d]) = 10 * dec_val ds + digit_val d"
  by (simp add: dec_val_def)

lemma dec_val_dec [simp]: "dec_val (dec n) = n"
proof (induction n rule: dec.induct)
  case (1 n)
  show ?case
  proof (cases "n < 10")
    case True
    then show ?thesis by (simp add: dec_small dec_val_def digit_val_def)
  next
    case False
    with 1 show ?thesis
      by (subst dec.simps) (simp add: dec_val_snoc digit_val_def)
  qed
qed

lemma dec_val_Cons: "dec_val (d # ds) = digit_val d * 10 ^ length ds + dec_val ds"
proof (induction ds rule: rev_induct)
  case (snoc x xs)
  have "dec_val (d # xs @ [x]) = 10 * dec_val (d # xs) + digit_val x"
    using dec_val_snoc [of "d # xs"] by simp
  with snoc show ?case by (simp add: dec_val_snoc)
qed (simp add: dec_val_def)

lemma length_dec: "n < 10 ^ Suc k \<Longrightarrow> length (dec n) \<le> Suc k"
proof (induction n arbitrary: k rule: dec.induct)
  case (1 n)
  show ?case
  proof (cases "n < 10")
    case False
    with "1.prems" obtain k' where k: "k = Suc k'" by (cases k) auto
    from "1.prems" have "n div 10 < 10 ^ Suc k'" by (simp add: k div_less_iff_less_mult)
    with "1.IH" [of k'] False show ?thesis by (subst dec.simps) (simp add: k)
  qed (simp add: dec_small)
qed

lemma dec_val_lower: "list_all is_digit ds \<Longrightarrow> d \<noteq> 48 \<Longrightarrow> is_digit d \<Longrightarrow>
    10 ^ length ds \<le> dec_val (d # ds)"
proof (induction ds rule: rev_induct)
  case Nil
  then show ?case by (auto simp: dec_val_def digit_val_def is_digit_def)
next
  case (snoc x xs)
  then have "10 ^ length xs \<le> dec_val (d # xs)"
    by simp
  then show ?case
    using dec_val_snoc [of "d # xs" x] by simp
qed

text \<open>
  \<open>str::parse\<close> at an unsigned type of \<open>w\<close> bits: an optional leading plus sign, then at least one
  digit and nothing else, and the value has to fit.
\<close>

definition parse_uint :: "nat \<Rightarrow> rstring \<Rightarrow> nat option" where
  "parse_uint w s =
     (let ds = (case s of [] \<Rightarrow> [] | c # cs \<Rightarrow> if c = 43 \<and> cs \<noteq> [] then cs else s)
      in if ds = [] \<or> \<not> list_all is_digit ds then None
         else if dec_val ds < 2 ^ w then Some (dec_val ds)
         else None)"

lemma parse_uint_digits:
  "ds \<noteq> [] \<Longrightarrow> list_all is_digit ds \<Longrightarrow>
   parse_uint w ds = (if dec_val ds < 2 ^ w then Some (dec_val ds) else None)"
  by (cases ds) (auto simp: parse_uint_def Let_def is_digit_def)

lemma parse_uint_dec [simp]: "n < 2 ^ w \<Longrightarrow> parse_uint w (dec n) = Some n"
  by (simp add: parse_uint_digits dec_digits)

lemma parse_uint_bound: "parse_uint w s = Some n \<Longrightarrow> n < 2 ^ w"
  by (auto simp: parse_uint_def Let_def split: if_splits)

section \<open>Splitting a list at its first element that fails a test\<close>

lemma takeWhile_all_append:
  "list_all P xs \<Longrightarrow> \<not> (ys \<noteq> [] \<and> P (hd ys)) \<Longrightarrow> takeWhile P (xs @ ys) = xs"
  by (cases ys) (auto simp: list_all_iff takeWhile_append)

lemma dropWhile_all_append:
  "list_all P xs \<Longrightarrow> \<not> (ys \<noteq> [] \<and> P (hd ys)) \<Longrightarrow> dropWhile P (xs @ ys) = ys"
  by (cases ys) (auto simp: list_all_iff dropWhile_append)

lemma takeWhile_eq_Nil: "takeWhile P xs = [] \<longleftrightarrow> \<not> (xs \<noteq> [] \<and> P (hd xs))"
  by (cases xs) auto

lemma suffix_dropWhile': "suffix (dropWhile P xs) xs"
  by (metis suffix_def takeWhile_dropWhile_id)

lemma list_all_takeWhile: "list_all P (takeWhile P xs)"
  by (auto simp: list_all_iff dest: set_takeWhileD)

lemma suffix_shorter: "suffix s t \<Longrightarrow> s \<noteq> t \<Longrightarrow> length s < length t"
  by (auto simp: suffix_def)

lemma case_Ok:
  "(case xs of [] \<Rightarrow> Panic | y # ys \<Rightarrow> f y ys) = Ok z \<longleftrightarrow> (\<exists>y ys. xs = y # ys \<and> f y ys = Ok z)"
  "(case xs of [] \<Rightarrow> Err e | y # ys \<Rightarrow> f y ys) = Ok z \<longleftrightarrow> (\<exists>y ys. xs = y # ys \<and> f y ys = Ok z)"
  "(case m of None \<Rightarrow> Err e | Some x \<Rightarrow> g x) = Ok z \<longleftrightarrow> (\<exists>x. m = Some x \<and> g x = Ok z)"
  by (cases xs; cases m; simp)+

end
