(* ===== verification/Utf8.thy ===== *)
theory Utf8
  imports Prelude
begin

text \<open>
  UTF-8, as the standard library encodes (\<open>str::as_bytes\<close>, \<open>str::len\<close>) and validates it
  (\<open>str::from_utf8\<close>). The decoder reads one scalar value at a time and refuses continuation bytes
  out of place, overlong forms, surrogates and values above \<open>0x10FFFF\<close>. The two functions are
  inverse to each other on valid strings and on accepted byte sequences.
\<close>

section \<open>One scalar value\<close>

definition utf8_char :: "uchar \<Rightarrow> nat list" where
  "utf8_char c =
     (if c < 0x80 then [c]
      else if c < 0x800 then [0xC0 + c div 64, 0x80 + c mod 64]
      else if c < 0x10000 then [0xE0 + c div 4096, 0x80 + c div 64 mod 64, 0x80 + c mod 64]
      else [0xF0 + c div 262144, 0x80 + c div 4096 mod 64, 0x80 + c div 64 mod 64, 0x80 + c mod 64])"

definition cont :: "nat \<Rightarrow> bool" where
  "cont b \<longleftrightarrow> 0x80 \<le> b \<and> b < 0xC0"

fun utf8_next :: "nat list \<Rightarrow> (uchar \<times> nat list) option" where
  "utf8_next [] = None"
| "utf8_next (a # s) =
     (if a < 0x80 then Some (a, s)
      else if a < 0xC0 then None
      else if a < 0xE0 then
        (case s of
          b # s' \<Rightarrow> (let c = (a - 0xC0) * 64 + (b - 0x80)
                     in if cont b \<and> 0x80 \<le> c then Some (c, s') else None)
        | _ \<Rightarrow> None)
      else if a < 0xF0 then
        (case s of
          b # b' # s' \<Rightarrow> (let c = (a - 0xE0) * 4096 + (b - 0x80) * 64 + (b' - 0x80)
                          in if cont b \<and> cont b' \<and> 0x800 \<le> c \<and> scalar c
                             then Some (c, s') else None)
        | _ \<Rightarrow> None)
      else if a < 0xF8 then
        (case s of
          b # b' # b'' # s' \<Rightarrow>
            (let c = (a - 0xF0) * 262144 + (b - 0x80) * 4096 + (b' - 0x80) * 64 + (b'' - 0x80)
             in if cont b \<and> cont b' \<and> cont b'' \<and> 0x10000 \<le> c \<and> scalar c
                then Some (c, s') else None)
        | _ \<Rightarrow> None)
      else None)"

lemma utf8_next_shorter: "utf8_next s = Some (c, s') \<Longrightarrow> length s' < length s"
  by (cases s) (auto simp: Let_def split: if_splits list.splits)

lemma utf8_char_bytes: "c < 0x110000 \<Longrightarrow> list_all (\<lambda>b. b < 256) (utf8_char c)"
  by (auto simp: utf8_char_def)

lemma utf8_char_nonempty [simp]: "utf8_char c \<noteq> []"
  by (simp add: utf8_char_def)

text \<open>The digits of a number in base 64 put together again.\<close>

lemma base64_digits2: "(c::nat) div 64 * 64 + c mod 64 = c"
  by simp

lemma base64_digits3: "(c::nat) div 4096 * 4096 + c div 64 mod 64 * 64 + c mod 64 = c"
proof -
  have "c div 4096 = c div 64 div 64"
    by (simp add: div_mult2_eq [symmetric])
  then show ?thesis
    using div_mult_mod_eq [of "c div 64" 64] div_mult_mod_eq [of c 64] by linarith
qed

lemma base64_digits4:
  "(c::nat) div 262144 * 262144 + c div 4096 mod 64 * 4096 + c div 64 mod 64 * 64 + c mod 64 = c"
proof -
  have "c div 262144 = c div 4096 div 64"
    by (simp add: div_mult2_eq [symmetric])
  then show ?thesis
    using div_mult_mod_eq [of "c div 4096" 64] base64_digits3 [of c] by linarith
qed

lemma split64: "c = q * 64 + z \<Longrightarrow> z < 64 \<Longrightarrow> c div 64 = q \<and> c mod 64 = (z::nat)"
  by simp

lemma utf8_next_char:
  assumes "scalar c"
  shows "utf8_next (utf8_char c @ r) = Some (c, r)"
proof -
  consider "c < 0x80" | "0x80 \<le> c" "c < 0x800" | "0x800 \<le> c" "c < 0x10000"
    | "0x10000 \<le> c" "c < 0x110000"
    using assms by (force simp: scalar_def)
  then show ?thesis
  proof cases
    case 1
    then show ?thesis by (simp add: utf8_char_def)
  next
    case 2
    then have "c div 64 < 32" by (simp add: less_mult_imp_div_less)
    with 2 show ?thesis
      by (simp add: utf8_char_def cont_def Let_def)
  next
    case 3
    then have "c div 4096 < 16" by (simp add: less_mult_imp_div_less)
    with 3 assms show ?thesis
      by (simp add: utf8_char_def cont_def Let_def base64_digits3)
  next
    case 4
    then have "c div 262144 < 8" by (simp add: less_mult_imp_div_less)
    with 4 assms show ?thesis
      by (simp add: utf8_char_def cont_def Let_def base64_digits4)
  qed
qed

text \<open>The bytes of a character of three and of four bytes.\<close>

lemma utf8_char_3:
  assumes "0xE0 \<le> a" and "a < 0xF0" and b: "cont b" "cont b'" and "0x800 \<le> c"
    and c: "c = (a - 0xE0) * 4096 + (b - 0x80) * 64 + (b' - 0x80)"
  shows "utf8_char c = [a, b, b']"
proof -
  define x y z where "x = a - 0xE0" and "y = b - 0x80" and "z = b' - 0x80"
  have "c = x * 4096 + y * 64 + z"
    using c by (simp add: x_def y_def z_def)
  then have "c = (x * 64 + y) * 64 + z" by simp
  moreover have "y < 64" "z < 64" "x < 16" "a = 0xE0 + x" "b = 0x80 + y" "b' = 0x80 + z"
    using assms(1,2) b by (auto simp: x_def y_def z_def cont_def)
  ultimately have e: "y < 64" "z < 64" "x < 16" "c = (x * 64 + y) * 64 + z" "a = 0xE0 + x"
      "b = 0x80 + y" "b' = 0x80 + z" by blast+
  have "c div 64 = x * 64 + y" "c mod 64 = z"
    using split64 [OF e(4) e(2)] by blast+
  moreover have "c div 4096 = c div 64 div 64"
    by (simp add: div_mult2_eq [symmetric])
  ultimately show ?thesis using e assms(5) by (auto simp: utf8_char_def)
qed

lemma utf8_char_4:
  assumes "0xF0 \<le> a" and "a < 0xF8" and b: "cont b" "cont b'" "cont b''" and "0x10000 \<le> c"
    and c: "c = (a - 0xF0) * 262144 + (b - 0x80) * 4096 + (b' - 0x80) * 64 + (b'' - 0x80)"
  shows "utf8_char c = [a, b, b', b'']"
proof -
  define x y z u where "x = a - 0xF0" and "y = b - 0x80" and "z = b' - 0x80" and "u = b'' - 0x80"
  have "c = x * 262144 + y * 4096 + z * 64 + u"
    using c by (simp add: x_def y_def z_def u_def)
  then have "c = ((x * 64 + y) * 64 + z) * 64 + u" by simp
  moreover have "y < 64" "z < 64" "u < 64" "a = 0xF0 + x" "b = 0x80 + y" "b' = 0x80 + z"
      "b'' = 0x80 + u"
    using assms(1,2) b by (auto simp: x_def y_def z_def u_def cont_def)
  ultimately have e: "y < 64" "z < 64" "u < 64" "c = ((x * 64 + y) * 64 + z) * 64 + u"
      "a = 0xF0 + x" "b = 0x80 + y" "b' = 0x80 + z" "b'' = 0x80 + u" by blast+
  have "c div 64 = (x * 64 + y) * 64 + z" "c mod 64 = u"
    using split64 [OF e(4) e(3)] by blast+
  moreover from this have "c div 64 div 64 = x * 64 + y" "c div 64 mod 64 = z"
    using split64 [OF _ e(2)] by blast+
  moreover from this have "c div 64 div 64 div 64 = x" "c div 64 div 64 mod 64 = y"
    using split64 [OF _ e(1)] by blast+
  moreover have "c div 4096 = c div 64 div 64" "c div 262144 = c div 64 div 64 div 64"
    by (simp_all add: div_mult2_eq [symmetric])
  ultimately show ?thesis using e(5-8) assms(6) by (simp add: utf8_char_def)
qed

lemma utf8_next_sound:
  assumes "utf8_next s = Some (c, r)"
  shows "scalar c \<and> s = utf8_char c @ r"
proof (cases s)
  case Nil
  with assms show ?thesis by simp
next
  case (Cons a t)
  consider "a < 0x80" | "0xC0 \<le> a" "a < 0xE0" | "0xE0 \<le> a" "a < 0xF0" | "0xF0 \<le> a" "a < 0xF8"
    using assms Cons by (force split: if_splits)
  then show ?thesis
  proof cases
    case 1
    with assms Cons show ?thesis by (auto simp: utf8_char_def scalar_def)
  next
    case 2
    with assms Cons obtain b where t: "t = b # r" and b: "cont b" "0x80 \<le> c"
      and c: "c = (a - 0xC0) * 64 + (b - 0x80)"
      by (auto simp: Let_def split: if_splits list.splits)
    define x y where "x = a - 0xC0" and "y = b - 0x80"
    have "y < 64" "x < 32" "c = x * 64 + y" "a = 0xC0 + x" "b = 0x80 + y"
      using 2 b c by (auto simp: x_def y_def cont_def)
    with b t Cons show ?thesis by (auto simp: utf8_char_def scalar_def)
  next
    case 3
    with assms Cons obtain b b' where t: "t = b # b' # r" and b: "cont b" "cont b'" "0x800 \<le> c"
      and sc: "scalar c" and c: "c = (a - 0xE0) * 4096 + (b - 0x80) * 64 + (b' - 0x80)"
      by (auto simp: Let_def split: if_splits list.splits)
    from utf8_char_3 [OF 3 b c] sc t Cons show ?thesis by simp
  next
    case 4
    with assms Cons obtain b b' b'' where t: "t = b # b' # b'' # r"
      and b: "cont b" "cont b'" "cont b''" "0x10000 \<le> c" and sc: "scalar c"
      and c: "c = (a - 0xF0) * 262144 + (b - 0x80) * 4096 + (b' - 0x80) * 64 + (b'' - 0x80)"
      by (auto simp: Let_def split: if_splits list.splits)
    from utf8_char_4 [OF 4 b c] sc t Cons show ?thesis by simp
  qed
qed

section \<open>Strings\<close>

function utf8_scan :: "nat list \<Rightarrow> rstring option" where
  "utf8_scan s =
     (if s = [] then Some []
      else (case utf8_next s of
              None \<Rightarrow> None
            | Some (c, s') \<Rightarrow> map_option ((#) c) (utf8_scan s')))"
  by pat_completeness auto
termination
  by (relation "measure length") (auto dest: utf8_next_shorter)

declare utf8_scan.simps [simp del]

definition as_bytes :: "rstring \<Rightarrow> bytes" where
  "as_bytes s = map word_of_nat (concat (map utf8_char s))"

definition from_utf8 :: "bytes \<Rightarrow> rstring option" where
  "from_utf8 bs = utf8_scan (map unat bs)"

lemma utf8_scan_encode: "str_ok s \<Longrightarrow> utf8_scan (concat (map utf8_char s)) = Some s"
proof (induction s)
  case Nil
  show ?case by (simp add: utf8_scan.simps)
next
  case (Cons c s)
  then show ?case
    by (subst utf8_scan.simps) (simp add: utf8_next_char)
qed

lemma utf8_scan_sound: "utf8_scan bs = Some s \<Longrightarrow> str_ok s \<and> concat (map utf8_char s) = bs"
proof (induction bs arbitrary: s rule: utf8_scan.induct)
  case (1 bs)
  show ?case
  proof (cases "bs = []")
    case True
    with "1.prems" show ?thesis by (simp add: utf8_scan.simps)
  next
    case False
    with "1.prems" obtain c r t where n: "utf8_next bs = Some (c, r)"
      and t: "utf8_scan r = Some t" "s = c # t"
      by (subst (asm) (2) utf8_scan.simps) (auto split: option.splits)
    from "1.IH" [OF False n refl t(1)] utf8_next_sound [OF n] t(2) show ?thesis
      by simp
  qed
qed

lemma unat_bytes: "list_all (\<lambda>b. b < 256) ns \<Longrightarrow> map (unat \<circ> (word_of_nat :: nat \<Rightarrow> u8)) ns = ns"
  by (induction ns) (auto simp: unat_of_nat)

lemma utf8_bytes: "str_ok s \<Longrightarrow> list_all (\<lambda>b. b < 256) (concat (map utf8_char s))"
  by (induction s) (auto simp: scalar_def utf8_char_bytes)

lemma from_utf8_as_bytes [simp]: "str_ok s \<Longrightarrow> from_utf8 (as_bytes s) = Some s"
  by (simp add: from_utf8_def as_bytes_def unat_bytes utf8_bytes utf8_scan_encode)

lemma from_utf8_sound: "from_utf8 bs = Some s \<Longrightarrow> str_ok s \<and> as_bytes s = bs"
  by (auto simp: from_utf8_def as_bytes_def intro!: map_idI dest!: utf8_scan_sound)

lemma as_bytes_simps [simp]:
  "as_bytes [] = []"
  "as_bytes (s @ t) = as_bytes s @ as_bytes t"
  by (simp_all add: as_bytes_def)

lemma as_bytes_eq_Nil [simp]: "as_bytes s = [] \<longleftrightarrow> s = []"
  by (cases s) (simp_all add: as_bytes_def)

section \<open>ASCII digits in bytes\<close>

definition is_digit_u8 :: "u8 \<Rightarrow> bool" where
  "is_digit_u8 b \<longleftrightarrow> 48 \<le> b \<and> b \<le> 57"

lemma is_digit_u8_nat: "is_digit_u8 b \<longleftrightarrow> is_digit (unat b)"
  by (simp add: is_digit_u8_def is_digit_def word_le_nat_alt)

lemma utf8_char_hd: "scalar c \<Longrightarrow> is_digit_u8 (word_of_nat (hd (utf8_char c))) \<longleftrightarrow> is_digit c"
  by (auto simp: is_digit_u8_nat utf8_char_def is_digit_def unat_of_nat scalar_def)

lemma as_bytes_leading_digit:
  "str_ok s \<Longrightarrow> as_bytes s \<noteq> [] \<and> is_digit_u8 (hd (as_bytes s)) \<longleftrightarrow> leading_digit s"
  by (cases s) (auto simp: as_bytes_def hd_append hd_map utf8_char_hd)

end
