(* ===== verification/Nom.thy ===== *)
theory Nom
  imports Prelude
begin

text \<open>
  The parser combinators of the crate \<open>nom\<close> are not part of the repository. The parsers that use
  them take them as an argument, the record \<open>nom\<close>; what the code relies on is the predicate
  \<open>nom_laws\<close>, which states the documented behaviour of the \<open>complete\<close> variants the code imports.
  \<open>nom_ref\<close> is a concrete record that satisfies the laws, so they can hold; it appears in witnesses
  only. The locale \<open>packet_framing\<close> is the contract between a packet encoder and the parser of one
  packet under which a whole payload decodes.
\<close>

section \<open>Results and errors of a parser\<close>

datatype error_kind =
  KDigit | KTakeWhile1 | KTakeTill1 | KAlphaNumeric | KMany0 | KEof | KChar | KSatisfy

text \<open>
  \<open>nom::Err\<close>: an \<open>Error\<close> lets an alternative or a repetition go on, a \<open>Failure\<close> stops the parse.
  (\<open>Incomplete\<close> belongs to the streaming parsers, which the code does not use.)
\<close>

datatype 'i nom_err = NIncomplete | NError 'i error_kind | NFailure 'i error_kind

type_synonym ('a, 'x) iresult = "('a list nom_err, 'a list \<times> 'x) outcome"

record ('a, 'o) nom =
  digit1 :: "'a list \<Rightarrow> ('a, 'a list) iresult"
  take_n :: "nat \<Rightarrow> 'a list \<Rightarrow> ('a, 'a list) iresult"
  take_till1 :: "('a \<Rightarrow> bool) \<Rightarrow> 'a list \<Rightarrow> ('a, 'a list) iresult"
  nom_char :: "'a \<Rightarrow> 'a list \<Rightarrow> ('a, 'a) iresult"
  le_u8 :: "'a list \<Rightarrow> ('a, 'a) iresult"
  alt2 :: "('a list \<Rightarrow> ('a, 'o) iresult) \<Rightarrow> ('a list \<Rightarrow> ('a, 'o) iresult) \<Rightarrow> 'a list \<Rightarrow> ('a, 'o) iresult"
  fold_many0 :: "('a list \<Rightarrow> ('a, 'o) iresult) \<Rightarrow> 'o list \<Rightarrow> ('o list \<Rightarrow> 'o \<Rightarrow> 'o list) \<Rightarrow>
    'a list \<Rightarrow> ('a, 'o list) iresult"

text \<open>A parser that returns a rest of its input.\<close>

definition consuming :: "('a list \<Rightarrow> ('a, 'x) iresult) \<Rightarrow> bool" where
  "consuming p \<longleftrightarrow> (\<forall>s s' x. p s = Ok (s', x) \<longrightarrow> suffix s' s)"

lemma consumingI [intro?]: "(\<And>s s' x. p s = Ok (s', x) \<Longrightarrow> suffix s' s) \<Longrightarrow> consuming p"
  by (simp add: consuming_def)

lemma consumingD: "consuming p \<Longrightarrow> p s = Ok (s', x) \<Longrightarrow> suffix s' s"
  by (simp add: consuming_def)

section \<open>The documented laws\<close>

definition nom_laws :: "('a \<Rightarrow> bool) \<Rightarrow> ('a, 'o) nom \<Rightarrow> bool" where
  "nom_laws isd N \<longleftrightarrow>
     (\<forall>s. digit1 N s =
        (if takeWhile isd s = [] then Err (NError s KDigit)
         else Ok (dropWhile isd s, takeWhile isd s))) \<and>
     (\<forall>n s. take_n N n s =
        (if n \<le> length s then Ok (drop n s, take n s) else Err (NError s KEof))) \<and>
     (\<forall>P s. take_till1 N P s =
        (if takeWhile (\<lambda>c. \<not> P c) s = [] then Err (NError s KTakeTill1)
         else Ok (dropWhile (\<lambda>c. \<not> P c) s, takeWhile (\<lambda>c. \<not> P c) s))) \<and>
     (\<forall>c s. nom_char N c s =
        (case s of [] \<Rightarrow> Err (NError s KChar)
         | d # r \<Rightarrow> if d = c then Ok (r, c) else Err (NError s KChar))) \<and>
     (\<forall>s. le_u8 N s =
        (case s of [] \<Rightarrow> Err (NError s KEof) | d # r \<Rightarrow> Ok (r, d))) \<and>
     (\<forall>p q s. alt2 N p q s = (case p s of Err (NError i k) \<Rightarrow> q s | r \<Rightarrow> r)) \<and>
     (\<forall>p acc g s. consuming p \<longrightarrow>
        fold_many0 N p acc g s =
          (case p s of
             Ok (s', x) \<Rightarrow>
               if s' = s then Err (NError s KMany0) else fold_many0 N p (g acc x) g s'
           | Err (NError i k) \<Rightarrow> Ok (s, acc)
           | Err e \<Rightarrow> Err e
           | Panic \<Rightarrow> Panic))"

lemma nom_digit1 [nom_simps]: "nom_laws isd N \<Longrightarrow> digit1 N s =
    (if takeWhile isd s = [] then Err (NError s KDigit)
     else Ok (dropWhile isd s, takeWhile isd s))"
  and nom_take [nom_simps]: "nom_laws isd N \<Longrightarrow> take_n N n s =
    (if n \<le> length s then Ok (drop n s, take n s) else Err (NError s KEof))"
  and nom_take_till1 [nom_simps]: "nom_laws isd N \<Longrightarrow> take_till1 N P s =
    (if takeWhile (\<lambda>c. \<not> P c) s = [] then Err (NError s KTakeTill1)
     else Ok (dropWhile (\<lambda>c. \<not> P c) s, takeWhile (\<lambda>c. \<not> P c) s))"
  and nom_char_law [nom_simps]: "nom_laws isd N \<Longrightarrow> nom_char N c s =
    (case s of [] \<Rightarrow> Err (NError s KChar)
     | d # r \<Rightarrow> if d = c then Ok (r, c) else Err (NError s KChar))"
  and nom_le_u8 [nom_simps]: "nom_laws isd N \<Longrightarrow> le_u8 N s =
    (case s of [] \<Rightarrow> Err (NError s KEof) | d # r \<Rightarrow> Ok (r, d))"
  and nom_alt2 [nom_simps]: "nom_laws isd N \<Longrightarrow> alt2 N p q s =
    (case p s of Err (NError i k) \<Rightarrow> q s | r \<Rightarrow> r)"
  by (simp_all add: nom_laws_def)

lemma nom_fold_many0:
  assumes "nom_laws isd N" and "consuming p"
  shows "fold_many0 N p acc g s =
    (case p s of
       Ok (s', x) \<Rightarrow> if s' = s then Err (NError s KMany0) else fold_many0 N p (g acc x) g s'
     | Err (NError i k) \<Rightarrow> Ok (s, acc)
     | Err e \<Rightarrow> Err e
     | Panic \<Rightarrow> Panic)"
  using assms by (simp add: nom_laws_def)

text \<open>Two facts every use of \<open>digit1\<close> needs: digits followed by something else, and no digit.\<close>

lemma nom_digit1_append:
  assumes "nom_laws isd N" and "list_all isd ds" and "ds \<noteq> []" and "\<not> (r \<noteq> [] \<and> isd (hd r))"
  shows "digit1 N (ds @ r) = Ok (r, ds)"
  using assms by (simp add: nom_simps takeWhile_all_append dropWhile_all_append)

lemma nom_digit1_none:
  assumes "nom_laws isd N" and "\<not> (s \<noteq> [] \<and> isd (hd s))"
  shows "digit1 N s = Err (NError s KDigit)"
  using assms by (simp add: nom_simps takeWhile_eq_Nil)

lemma nom_no_Panic:
  assumes "nom_laws isd N"
  shows "digit1 N s \<noteq> Panic" and "take_n N n s \<noteq> Panic" and "take_till1 N P s \<noteq> Panic"
    and "nom_char N c s \<noteq> Panic" and "le_u8 N s \<noteq> Panic"
  using assms by (simp_all add: nom_simps split: list.splits)

lemma nom_suffix:
  assumes "nom_laws isd N"
  shows "digit1 N s = Ok (r, ds) \<Longrightarrow> suffix r s"
    and "take_n N n s = Ok (r, x) \<Longrightarrow> suffix r s"
    and "take_till1 N P s = Ok (r, x) \<Longrightarrow> suffix r s"
    and "nom_char N c s = Ok (r, y) \<Longrightarrow> suffix r s"
    and "le_u8 N s = Ok (r, y) \<Longrightarrow> suffix r s"
  using assms
  by (auto simp: nom_simps suffix_dropWhile suffix_drop suffix_ConsI split: if_splits list.splits)

text \<open>A parser built from consuming parsers with \<open>?\<close> is consuming.\<close>

named_theorems consuming_intros \<open>a parser returns a rest of its input\<close>

lemma consuming_bind [consuming_intros]:
  "consuming p \<Longrightarrow> (\<And>x. consuming (f x)) \<Longrightarrow> consuming (\<lambda>s. obind (p s) (\<lambda>(s', x). f x s'))"
  by (fastforce simp: consuming_def intro: suffix_order.trans)

lemma consuming_obind: "(\<And>x. consuming (f x)) \<Longrightarrow> consuming (\<lambda>s. obind (m s) (\<lambda>x. f x s))"
  by (fastforce simp: consuming_def)

lemma consuming_Ok [consuming_intros]: "consuming (\<lambda>s. Ok (s, x))"
  by (simp add: consuming_def)

lemma consuming_Err [consuming_intros]: "consuming (\<lambda>s. Err (e s))"
  by (simp add: consuming_def)

lemma consuming_option [consuming_intros]:
  "consuming p \<Longrightarrow> (\<And>x. consuming (f x)) \<Longrightarrow>
   consuming (\<lambda>s. case m of None \<Rightarrow> p s | Some x \<Rightarrow> f x s)"
  by (cases m) simp_all

lemmas consuming_const [consuming_intros] = consuming_obind [where m = "\<lambda>_. m" for m]

lemma consuming_Panic [consuming_intros]: "consuming (\<lambda>s. Panic)"
  by (simp add: consuming_def)

lemma consuming_if [consuming_intros]:
  "consuming p \<Longrightarrow> consuming q \<Longrightarrow> consuming (\<lambda>s. if b then p s else q s)"
  by (cases b) simp_all

lemma consuming_list [consuming_intros]:
  "consuming p \<Longrightarrow> (\<And>x xs. consuming (f x xs)) \<Longrightarrow>
   consuming (\<lambda>s. case m of [] \<Rightarrow> p s | x # xs \<Rightarrow> f x xs s)"
  by (cases m) simp_all

lemma consuming_prims [consuming_intros]:
  assumes "nom_laws isd N"
  shows "consuming (digit1 N)" and "consuming (take_n N n)" and "consuming (take_till1 N P)"
    and "consuming (nom_char N c)" and "consuming (le_u8 N)"
  using nom_suffix [OF assms] by (auto simp: consuming_def)

lemma consuming_alt2 [consuming_intros]:
  "nom_laws isd N \<Longrightarrow> consuming p \<Longrightarrow> consuming q \<Longrightarrow> consuming (alt2 N p q)"
  by (fastforce simp: consuming_def nom_alt2 split: outcome.splits nom_err.splits)

section \<open>A record that satisfies the laws\<close>

function fold_ref :: "('a list \<Rightarrow> ('a, 'o) iresult) \<Rightarrow> 'o list \<Rightarrow> ('o list \<Rightarrow> 'o \<Rightarrow> 'o list) \<Rightarrow>
    'a list \<Rightarrow> ('a, 'o list) iresult" where
  "fold_ref p acc g s =
     (case p s of
        Ok (s', x) \<Rightarrow>
          if length s' < length s then fold_ref p (g acc x) g s' else Err (NError s KMany0)
      | Err (NError i k) \<Rightarrow> Ok (s, acc)
      | Err e \<Rightarrow> Err e
      | Panic \<Rightarrow> Panic)"
  by pat_completeness auto
termination
  by (relation "measure (\<lambda>(p, acc, g, s). length s)") auto

declare fold_ref.simps [simp del]

definition nom_ref :: "('a \<Rightarrow> bool) \<Rightarrow> ('a, 'o) nom" where
  "nom_ref isd =
     \<lparr>digit1 = (\<lambda>s. if takeWhile isd s = [] then Err (NError s KDigit)
                   else Ok (dropWhile isd s, takeWhile isd s)),
      take_n = (\<lambda>n s. if n \<le> length s then Ok (drop n s, take n s) else Err (NError s KEof)),
      take_till1 = (\<lambda>P s. if takeWhile (\<lambda>c. \<not> P c) s = [] then Err (NError s KTakeTill1)
                   else Ok (dropWhile (\<lambda>c. \<not> P c) s, takeWhile (\<lambda>c. \<not> P c) s)),
      nom_char = (\<lambda>c s. case s of [] \<Rightarrow> Err (NError s KChar)
                   | d # r \<Rightarrow> if d = c then Ok (r, c) else Err (NError s KChar)),
      le_u8 = (\<lambda>s. case s of [] \<Rightarrow> Err (NError s KEof) | d # r \<Rightarrow> Ok (r, d)),
      alt2 = (\<lambda>p q s. case p s of Err (NError i k) \<Rightarrow> q s | r \<Rightarrow> r),
      fold_many0 = fold_ref\<rparr>"

lemma nom_ref_laws: "nom_laws isd (nom_ref isd)"
proof -
  have "fold_ref p acc g s =
      (case p s of
         Ok (s', x) \<Rightarrow> if s' = s then Err (NError s KMany0) else fold_ref p (g acc x) g s'
       | Err (NError i k) \<Rightarrow> Ok (s, acc)
       | Err e \<Rightarrow> Err e
       | Panic \<Rightarrow> Panic)" if "consuming p"
    for p :: "'a list \<Rightarrow> ('a, 'b) iresult" and acc g s
    using consumingD [OF that, of s]
    by (subst fold_ref.simps)
      (auto dest: suffix_shorter split: outcome.splits nom_err.splits prod.splits)
  then show ?thesis
    unfolding nom_laws_def nom_ref_def nom.simps by simp
qed

section \<open>The framing contract\<close>

text \<open>
  \<open>enc\<close> writes one packet of a payload and \<open>dec\<close> reads one. For a \<open>good\<close> packet \<open>dec\<close> gives back
  its image \<open>img\<close> and leaves the rest, provided the rest is one that may follow a packet (\<open>start\<close>):
  nothing, or another good packet. Then a repetition of \<open>dec\<close> reads a whole payload.
\<close>

locale packet_framing =
  fixes isd :: "'a \<Rightarrow> bool"
    and N :: "('a, 'o) nom"
    and enc :: "'p \<Rightarrow> 'a list"
    and dec :: "'a list \<Rightarrow> ('a, 'o) iresult"
    and img :: "'p \<Rightarrow> 'o"
    and good :: "'p \<Rightarrow> bool"
    and start :: "'a list \<Rightarrow> bool"
  assumes enc_nonempty: "good p \<Longrightarrow> enc p \<noteq> []"
    and start_Nil: "start []"
    and start_enc: "good p \<Longrightarrow> start (enc p @ r)"
    and dec_consuming: "nom_laws isd N \<Longrightarrow> consuming dec"
    and dec_enc: "nom_laws isd N \<Longrightarrow> good p \<Longrightarrow> start r \<Longrightarrow> dec (enc p @ r) = Ok (r, img p)"
    and dec_Nil: "nom_laws isd N \<Longrightarrow> dec [] = Err (NError [] KDigit) \<or> dec [] = Err (NError [] KEof)"
begin

lemma start_payload: "list_all good ps \<Longrightarrow> start r \<Longrightarrow> start (concat (map enc ps) @ r)"
  by (cases ps) (simp_all add: start_enc)

text \<open>The packets of a prefix are decoded and the repetition goes on with what follows them.\<close>

lemma decode_prefix:
  assumes "nom_laws isd N" and "list_all good ps" and "start r"
  shows "fold_many0 N dec acc (\<lambda>acc x. acc @ [x]) (concat (map enc ps) @ r) =
    fold_many0 N dec (acc @ map img ps) (\<lambda>acc x. acc @ [x]) r"
  using assms(2)
proof (induction ps arbitrary: acc)
  case Nil
  show ?case by simp
next
  case (Cons p ps)
  let ?rest = "concat (map enc ps) @ r"
  have "dec (enc p @ ?rest) = Ok (?rest, img p)"
    using Cons.prems assms by (intro dec_enc start_payload) simp_all
  moreover have "?rest \<noteq> enc p @ ?rest"
    using Cons.prems enc_nonempty [of p] by simp
  ultimately have "fold_many0 N dec acc (\<lambda>acc x. acc @ [x]) (enc p @ ?rest) =
      fold_many0 N dec (acc @ [img p]) (\<lambda>acc x. acc @ [x]) ?rest"
    using assms by (subst nom_fold_many0 [OF assms(1) dec_consuming]) auto
  with Cons show ?case by simp
qed

lemma decode_payload:
  assumes "nom_laws isd N" and "list_all good ps"
  shows "fold_many0 N dec [] (\<lambda>acc x. acc @ [x]) (concat (map enc ps)) = Ok ([], map img ps)"
  using decode_prefix [OF assms start_Nil, of "[]"] dec_Nil [OF assms(1)]
    nom_fold_many0 [OF assms(1) dec_consuming [OF assms(1)], of "map img ps" _ "[]"]
  by auto

text \<open>
  A rest that \<open>dec\<close> refuses with an \<open>Error\<close> ends the repetition without an error: the packets
  before it are returned and everything from it on is dropped.
\<close>

lemma decode_stops:
  assumes "nom_laws isd N" and "list_all good ps" and "start r" and "dec r = Err (NError i k)"
  shows "fold_many0 N dec [] (\<lambda>acc x. acc @ [x]) (concat (map enc ps) @ r) = Ok (r, map img ps)"
  using decode_prefix [OF assms(1-3), of "[]"] assms(4)
    nom_fold_many0 [OF assms(1) dec_consuming [OF assms(1)], of "map img ps" _ r]
  by simp

lemma decode_panics:
  assumes "nom_laws isd N" and "list_all good ps" and "start r" and "dec r = Panic"
  shows "fold_many0 N dec [] (\<lambda>acc x. acc @ [x]) (concat (map enc ps) @ r) = Panic"
  using decode_prefix [OF assms(1-3), of "[]"] assms(4)
    nom_fold_many0 [OF assms(1) dec_consuming [OF assms(1)], of "map img ps" _ r]
  by simp

end

text \<open>A repetition panics only where the parser of one item does.\<close>

lemma fold_many0_no_Panic:
  assumes "nom_laws isd N" and "consuming p" and "\<And>s. p s \<noteq> Panic"
  shows "fold_many0 N p acc g s \<noteq> Panic"
proof (induction s arbitrary: acc rule: measure_induct_rule [of length])
  case (less s)
  show ?case
    using less [OF suffix_shorter] consumingD [OF assms(2), of s] assms(3) [of s]
    by (subst nom_fold_many0 [OF assms(1,2)])
      (auto split: outcome.splits nom_err.splits)
qed

section \<open>The size of what is read\<close>

text \<open>If what a parser gives is no larger than what it reads, the same is true of a repetition of it.\<close>

lemma fold_many0_size:
  fixes size_of :: "'x \<Rightarrow> nat"
  assumes "nom_laws isd N" and "consuming p" and "\<And>s s' x. p s = Ok (s', x) \<Longrightarrow> size_of x + length s' \<le> length s"
    and "fold_many0 N p acc (\<lambda>acc x. acc @ [x]) s = Ok (s', xs)"
  shows "sum_list (map size_of xs) + length s' \<le> sum_list (map size_of acc) + length s"
  using assms(4)
proof (induction s arbitrary: acc rule: measure_induct_rule [of length])
  case (less s)
  note step = less.prems [unfolded nom_fold_many0 [OF assms(1,2), of acc _ s]]
  show ?case
  proof (cases "p s")
    case (Ok r)
    obtain s1 x where r: "r = (s1, x)" by force
    with Ok step have more: "s1 \<noteq> s" "fold_many0 N p (acc @ [x]) (\<lambda>acc x. acc @ [x]) s1 = Ok (s', xs)"
      by (auto split: if_splits)
    have "length s1 < length s" using consumingD [OF assms(2)] Ok r more(1) suffix_shorter by blast
    from less.IH [OF this more(2)] assms(3) Ok r show ?thesis by fastforce
  next
    case (Err e)
    with step show ?thesis by (cases e) auto
  qed (use step in auto)
qed

lemma span_rest: "takeWhile P xs \<noteq> [] \<Longrightarrow> Suc (length (dropWhile P xs)) \<le> length xs"
  by (cases xs) (auto simp: length_dropWhile_le split: if_splits)

lemma digit1_size: "nom_laws isd N \<Longrightarrow> digit1 N s = Ok (s', ds) \<Longrightarrow> Suc (length s') \<le> length s"
  by (auto simp: nom_digit1 span_rest split: if_split_asm)

lemma take_n_size: "nom_laws isd N \<Longrightarrow> take_n N n s = Ok (s', d) \<Longrightarrow> length d + length s' = length s \<and> length d = n"
  by (auto simp: nom_take split: if_splits)

lemma nom_char_size: "nom_laws isd N \<Longrightarrow> nom_char N c s = Ok (s', d) \<Longrightarrow> length s = Suc (length s')"
  by (auto simp: nom_char_law split: list.splits if_splits)

end
