(* ===== verification/Enum_Code.thy ===== *)
theory Enum_Code
  imports Prelude
begin

text \<open>
  Both parsers number their packet types: \<open>as u8\<close> gives the code of a type and \<open>TryFrom<u8>\<close> reads
  it back. The locale states what the parsers and serializers rely on; the two packet theories
  interpret it on their own enumerations.
\<close>

locale enum_code =
  fixes as_u8 :: "'t \<Rightarrow> u8"
    and try_from :: "u8 \<Rightarrow> ('e, 't) outcome"
  assumes try_as: "try_from (as_u8 t) = Ok t"
    and try_sound: "try_from v = Ok t \<Longrightarrow> as_u8 t = v"
    and try_no_Panic: "try_from v \<noteq> Panic"
    and small: "unat (as_u8 t) < 10"
begin

lemma as_u8_inject: "as_u8 s = as_u8 t \<longleftrightarrow> s = t"
  by (metis try_as outcome.inject(1))

lemma try_from_iff: "try_from v = Ok t \<longleftrightarrow> v = as_u8 t"
  by (metis try_as try_sound)

lemma try_from_large: "10 \<le> unat v \<Longrightarrow> is_err (try_from v)"
  by (rule outcome_not_Ok_Panic) (auto simp: try_from_iff try_no_Panic not_le [symmetric] dest: leD intro: small)

lemma dec_code: "dec (unat (as_u8 t)) = [48 + unat (as_u8 t)]"
  by (rule dec_small [OF small])

lemma code_is_digit: "is_digit (48 + unat (as_u8 t))"
  by (simp add: small)

text \<open>The code as an ASCII digit, the form it takes in binary payloads.\<close>

lemma unat_ascii: "unat (as_u8 t + 48) = unat (as_u8 t) + 48"
  using small [of t] by (simp add: unat_word_ariths)

lemma ascii_back: "(as_u8 t + 48) - 48 = as_u8 t"
  by simp

lemma ascii_not_code: "is_err (try_from (as_u8 t + 48))"
  by (rule try_from_large) (simp add: unat_ascii)

end

end
