(* ===== verification/Effects.thy ===== *)
theory Effects
  imports Prelude
begin

text \<open>
  Code with state: a program takes the state and returns its result and the new state. The state is
  kept when the program fails and when it panics, because what was changed before stays changed.
  Asynchronous functions run to completion here, one after the other.
\<close>

type_synonym ('s, 'e, 'a) prog = "'s \<Rightarrow> ('e, 'a) outcome \<times> 's"

named_theorems prog_defs \<open>the operations of programs with state\<close>

definition ret :: "'a \<Rightarrow> ('s, 'e, 'a) prog" where
  [prog_defs]: "ret x = (\<lambda>s. (Ok x, s))"

definition fail :: "'e \<Rightarrow> ('s, 'e, 'a) prog" where
  [prog_defs]: "fail e = (\<lambda>s. (Err e, s))"

definition panic :: "('s, 'e, 'a) prog" where
  [prog_defs]: "panic = (\<lambda>s. (Panic, s))"

definition lift :: "('e, 'a) outcome \<Rightarrow> ('s, 'e, 'a) prog" where
  [prog_defs]: "lift r = (\<lambda>s. (r, s))"

definition gets :: "('s \<Rightarrow> 'a) \<Rightarrow> ('s, 'e, 'a) prog" where
  [prog_defs]: "gets f = (\<lambda>s. (Ok (f s), s))"

definition modify :: "('s \<Rightarrow> 's) \<Rightarrow> ('s, 'e, unit) prog" where
  [prog_defs]: "modify f = (\<lambda>s. (Ok (), f s))"

definition andthen :: "('s, 'e, 'a) prog \<Rightarrow> ('a \<Rightarrow> ('s, 'e, 'b) prog) \<Rightarrow> ('s, 'e, 'b) prog" where
  "andthen m f = (\<lambda>s. case m s of
     (Ok x, s) \<Rightarrow> f x s
   | (Err e, s) \<Rightarrow> (Err e, s)
   | (Panic, s) \<Rightarrow> (Panic, s))"

definition whenp :: "bool \<Rightarrow> ('s, 'e, unit) prog \<Rightarrow> ('s, 'e, unit) prog" where
  [prog_defs]: "whenp b m = (if b then m else ret ())"

lemma prog_apply [simp]:
  "ret x s = (Ok x, s)" "fail e s = (Err e, s)" "panic s = (Panic, s)" "lift r s = (r, s)"
  "gets f s = (Ok (f s), s)" "modify u s = (Ok (), u s)" "whenp True m = m" "whenp False m = ret ()"
  by (simp_all add: prog_defs)

lemma andthen_simps [simp]:
  "m s = (Ok x, s') \<Longrightarrow> andthen m f s = f x s'"
  "m s = (Err e, s') \<Longrightarrow> andthen m f s = (Err e, s')"
  "m s = (Panic, s') \<Longrightarrow> andthen m f s = (Panic, s')"
  by (simp_all add: andthen_def)

lemma andthen_prims [simp]:
  "andthen (ret x) f = f x"
  "andthen (fail e) g = fail e"
  "andthen panic h = panic"
  "andthen (gets k) f s = f (k s) s"
  "andthen (lift r) g s = (case r of Ok x \<Rightarrow> g x s | Err e \<Rightarrow> (Err e, s) | Panic \<Rightarrow> (Panic, s))"
  "andthen (modify u) l s = l () (u s)"
  by (simp_all add: prog_defs andthen_def fun_eq_iff split: outcome.splits)

lemma andthen_ret [simp]: "andthen m ret = m"
  by (auto simp: andthen_def ret_def fun_eq_iff split: prod.splits outcome.splits)

lemma andthen_assoc: "andthen (andthen m f) g = andthen m (\<lambda>x. andthen (f x) g)"
  by (auto simp: andthen_def fun_eq_iff split: prod.splits outcome.splits)

lemma andthen_eq_Ok:
  "andthen m f s = (Ok y, s') \<longleftrightarrow> (\<exists>x t. m s = (Ok x, t) \<and> f x t = (Ok y, s'))"
  by (auto simp: andthen_def split: prod.splits outcome.splits)

text \<open>A result that is dropped: an error is ignored, a panic is not.\<close>

definition ignore_err :: "('s, 'e, 'a) prog \<Rightarrow> ('s, 'f, unit) prog" where
  "ignore_err m = (\<lambda>s. case m s of (Panic, s) \<Rightarrow> (Panic, s) | (_, s) \<Rightarrow> (Ok (), s))"

text \<open>\<open>expect\<close> on the result of a program, and the errors of a program seen as others.\<close>

definition expect_ok :: "('s, 'e, 'a) prog \<Rightarrow> ('s, 'f, 'a) prog" where
  "expect_ok m = (\<lambda>s. case m s of (Ok x, s) \<Rightarrow> (Ok x, s) | (_, s) \<Rightarrow> (Panic, s))"

definition prog_err :: "('e \<Rightarrow> 'f) \<Rightarrow> ('s, 'e, 'a) prog \<Rightarrow> ('s, 'f, 'a) prog" where
  "prog_err h m = (\<lambda>s. case m s of (r, s) \<Rightarrow> (map_err h r, s))"

text \<open>
  A relation between states that every step of a program respects is respected by the program: the
  rule for what a program may change, whatever it returns.
\<close>

definition keeps :: "('s \<Rightarrow> 's \<Rightarrow> bool) \<Rightarrow> ('s, 'e, 'a) prog \<Rightarrow> bool" where
  "keeps R m \<longleftrightarrow> (\<forall>s. R s (snd (m s)))"

lemma keepsD: "keeps R m \<Longrightarrow> R s (snd (m s))"
  by (simp add: keeps_def)

locale step_relation =
  fixes R :: "'s \<Rightarrow> 's \<Rightarrow> bool"
  assumes same: "R s s" and steps: "R s t \<Longrightarrow> R t u \<Longrightarrow> R s u"
begin

lemma keeps_prims:
  "keeps R (ret x)" "keeps R (fail e)" "keeps R panic" "keeps R (gets k)" "keeps R (lift r)"
  by (simp_all add: keeps_def same)

lemma keeps_modify: "(\<And>s. R s (u s)) \<Longrightarrow> keeps R (modify u)"
  by (simp add: keeps_def)

lemma keeps_andthen:
  assumes "keeps R m" and "\<And>x. keeps R (f x)"
  shows "keeps R (andthen m f)"
  unfolding keeps_def
proof
  fix s
  have "R s (snd (m s))" "\<And>x s. R s (snd (f x s))" using assms by (simp_all add: keeps_def)
  then show "R s (snd (andthen m f s))"
    by (auto simp: andthen_def split: prod.splits outcome.splits) (meson steps)
qed

lemma keeps_whenp: "keeps R m \<Longrightarrow> keeps R (whenp b m)"
  by (simp add: keeps_def whenp_def same)

lemma keeps_if: "keeps R m \<Longrightarrow> keeps R n \<Longrightarrow> keeps R (if b then m else n)"
  by simp

lemmas keeps_rules = keeps_prims keeps_modify keeps_andthen keeps_whenp keeps_if

end

end
