(* ===== verification/Turns.thy ===== *)
theory Turns
  imports Prelude
begin

text \<open>
  Tasks that take turns on a shared state, as the runtime of \<open>tokio\<close> lets them: a step of a task reads and
  changes the state, and which task is next is up to a schedule. Tasks that get closer to their end
  with every step end under every schedule.
\<close>

section \<open>Schedules\<close>

definition take_turn :: "('t \<Rightarrow> 's \<Rightarrow> 't \<times> 's) \<Rightarrow> nat \<Rightarrow> 's \<times> 't list \<Rightarrow> 's \<times> 't list" where
  "take_turn step i = (\<lambda>(s, ts).
     if i < length ts then (case step (ts ! i) s of (t, s) \<Rightarrow> (s, ts[i := t])) else (s, ts))"

definition take_turns :: "('t \<Rightarrow> 's \<Rightarrow> 't \<times> 's) \<Rightarrow> nat list \<Rightarrow> 's \<times> 't list \<Rightarrow> 's \<times> 't list" where
  "take_turns step order = fold (take_turn step) order"

lemma take_turns_simps [simp]:
  "take_turns step [] c = c" "take_turns step (i # is) c = take_turns step is (take_turn step i c)"
  "take_turns step (is @ js) c = take_turns step js (take_turns step is c)"
  by (simp_all add: take_turns_def)

lemma take_turn_2:
  "take_turn step 0 (s, [t, u]) = (case step t s of (t, s) \<Rightarrow> (s, [t, u]))"
  "take_turn step (Suc 0) (s, [t, u]) = (case step u s of (u, s) \<Rightarrow> (s, [t, u]))"
  by (simp_all add: take_turn_def split: prod.split)

text \<open>A task that takes all the turns.\<close>

fun run_alone :: "('t \<Rightarrow> 's \<Rightarrow> 't \<times> 's) \<Rightarrow> nat \<Rightarrow> 't \<times> 's \<Rightarrow> 't \<times> 's" where
  "run_alone step 0 (t, s) = (t, s)"
| "run_alone step (Suc n) (t, s) = run_alone step n (step t s)"

lemma take_turns_alone:
  "i < length ts \<Longrightarrow> take_turns step (replicate n i) (s, ts) =
    (case run_alone step n (ts ! i, s) of (t, s) \<Rightarrow> (s, ts[i := t]))"
proof (induction n arbitrary: s ts)
  case (Suc n)
  then show ?case by (simp add: take_turn_def split: prod.split)
qed (simp add: list_update_id)

lemma take_turns_stuck: "(\<And>i. take_turn step i c = c) \<Longrightarrow> take_turns step order c = c"
  by (induction order) simp_all

text \<open>An invariant of the state and the tasks that every turn keeps holds after every schedule.\<close>

lemma take_turns_invariant:
  assumes "\<And>s ts i. P s ts \<Longrightarrow> i < length ts \<Longrightarrow> P (snd (step (ts ! i) s)) (ts[i := fst (step (ts ! i) s)])"
    and "P s ts" and "take_turns step order (s, ts) = (s', ts')"
  shows "P s' ts'"
  using assms(2,3)
proof (induction order arbitrary: s ts)
  case (Cons i order)
  show ?case
  proof (cases "i < length ts")
    case True
    with assms(1) [OF Cons.prems(1) True] Cons.IH [of "snd (step (ts ! i) s)" "ts[i := fst (step (ts ! i) s)]"] Cons.prems(2)
    show ?thesis by (simp add: take_turn_def split: prod.splits)
  next
    case False
    with Cons show ?thesis by (simp add: take_turn_def)
  qed
qed simp

section \<open>Tasks that end\<close>

lemma sum_list_replace:
  fixes f :: "'t \<Rightarrow> 'b :: comm_monoid_add"
  shows "i < length xs \<Longrightarrow> sum_list (map f (xs[i := x])) + f (xs ! i) = sum_list (map f xs) + f x"
proof (induction xs arbitrary: i)
  case (Cons y ys)
  then show ?case by (cases i) (auto simp: ac_simps)
qed simp

text \<open>
  Under an invariant of the state and the tasks, every step of a task that has not ended brings it closer
  to its end.
\<close>

locale progressing =
  fixes step :: "'t \<Rightarrow> 's \<Rightarrow> 't \<times> 's" and left :: "'t \<Rightarrow> nat" and I :: "'s \<Rightarrow> 't list \<Rightarrow> bool"
  assumes kept: "I s ts \<Longrightarrow> i < length ts \<Longrightarrow> I (snd (step (ts ! i) s)) (ts[i := fst (step (ts ! i) s)])"
    and progress: "I s ts \<Longrightarrow> i < length ts \<Longrightarrow> left (fst (step (ts ! i) s)) \<le> left (ts ! i) - 1"
begin

lemma turns_left:
  assumes "I s ts" and "take_turns step order (s, ts) = (s', ts')"
  shows "I s' ts' \<and> length ts' = length ts \<and>
    (i < length ts \<longrightarrow> left (ts' ! i) \<le> left (ts ! i) - count_list order i)"
  using assms
proof (induction order arbitrary: s ts)
  case (Cons j order)
  obtain s1 ts1 where t: "take_turn step j (s, ts) = (s1, ts1)" by force
  have "I s1 ts1" "length ts1 = length ts"
    "i < length ts \<longrightarrow> left (ts1 ! i) \<le> left (ts ! i) - (if i = j then 1 else 0)"
    using t Cons.prems(1) kept [of s ts j] progress [of s ts i]
    by (auto simp: take_turn_def split: if_splits prod.splits)
  with Cons.IH [of s1 ts1] Cons.prems(2) t show ?case by auto
qed simp

lemma fair_end:
  assumes "I s ts" and "take_turns step order (s, ts) = (s', ts')" and "\<And>t. left t \<le> n"
    and "\<And>i. i < length ts \<Longrightarrow> n \<le> count_list order i"
  shows "I s' ts' \<and> length ts' = length ts \<and> list_all (\<lambda>t. left t = 0) ts'"
proof -
  have len: "I s' ts' \<and> length ts' = length ts" using turns_left [OF assms(1,2)] by blast
  moreover have "left (ts' ! i) = 0" if "i < length ts" for i
    using turns_left [OF assms(1,2), of i] assms(3) [of "ts ! i"] assms(4) [OF that] that by simp
  ultimately show ?thesis by (simp add: list_all_length)
qed

end

text \<open>Tasks that do so in every state, and that change nothing once they have ended.\<close>

locale ending_tasks =
  fixes step :: "'t \<Rightarrow> 's \<Rightarrow> 't \<times> 's" and left :: "'t \<Rightarrow> nat"
  assumes ends: "left (fst (step t s)) \<le> left t - 1"
    and ended: "left t = 0 \<Longrightarrow> step t s = (t, s)"

sublocale ending_tasks \<subseteq> progressing step left "\<lambda>_ _. True"
  by unfold_locales (rule TrueI, rule ends)

context ending_tasks
begin

lemma ended_stay: "list_all (\<lambda>t. left t = 0) ts \<Longrightarrow> take_turns step order (s, ts) = (s, ts)"
  by (rule take_turns_stuck) (auto simp: take_turn_def ended list_all_length)

end

end
