(* ===== verification/Sio_Packet.thy ===== *)
theory Sio_Packet
  imports Enum_Code Nom
begin

text \<open>
  \<open>socket_io_parser/src/packet.rs\<close>: the types of Socket.IO packets, their data, the placeholders that
  stand for attachments, and the two shapes a decoded text frame can have.

  \<open>serde_json\<close> and \<open>indexmap\<close> are not part of the repository. The JSON value is the enum the code
  matches on, with the number type \<open>'n\<close> left open; what the code calls of \<open>serde_json\<close> is the record
  \<open>serde\<close>, and what it relies on is \<open>serde_laws\<close>. An object (an \<open>IndexMap\<close>, which keeps insertion
  order) is an association list, and \<open>insert\<close> is the library's \<open>AList.update\<close>: it replaces the value
  of a present key in place and adds a new key at the end.
\<close>

section \<open>Packet types\<close>

datatype sio_type =
  TConnect | TDisconnect | TEvent | TAck | TConnectError | TBinaryEvent | TBinaryAck

datatype binary_type = BBinaryEvent | BBinaryAck

fun sio_type_u8 :: "sio_type \<Rightarrow> u8" where
  "sio_type_u8 TConnect = 0"
| "sio_type_u8 TDisconnect = 1"
| "sio_type_u8 TEvent = 2"
| "sio_type_u8 TAck = 3"
| "sio_type_u8 TConnectError = 4"
| "sio_type_u8 TBinaryEvent = 5"
| "sio_type_u8 TBinaryAck = 6"

definition sio_type_try_from :: "u8 \<Rightarrow> (unit, sio_type) outcome" where
  "sio_type_try_from value =
     (if value = 0 then Ok TConnect
      else if value = 1 then Ok TDisconnect
      else if value = 2 then Ok TEvent
      else if value = 3 then Ok TAck
      else if value = 4 then Ok TConnectError
      else if value = 5 then Ok TBinaryEvent
      else if value = 6 then Ok TBinaryAck
      else Err ())"

definition sio_parse_from_u8 :: "u8 \<Rightarrow> 'a list \<Rightarrow> ('a list nom_err, sio_type) outcome" where
  "sio_parse_from_u8 value original_input =
     (case sio_type_try_from value of
        Ok pt \<Rightarrow> Ok pt
      | Err _ \<Rightarrow> Err (NFailure original_input KDigit)
      | Panic \<Rightarrow> Panic)"

fun from_binary_type :: "binary_type \<Rightarrow> sio_type" where
  "from_binary_type BBinaryAck = TBinaryAck"
| "from_binary_type BBinaryEvent = TBinaryEvent"

fun try_into_binary :: "sio_type \<Rightarrow> (unit, binary_type) outcome" where
  "try_into_binary TBinaryAck = Ok BBinaryAck"
| "try_into_binary TBinaryEvent = Ok BBinaryEvent"
| "try_into_binary _ = Err ()"

interpretation sio_code: enum_code sio_type_u8 sio_type_try_from
proof
  fix t v
  show "sio_type_try_from (sio_type_u8 t) = Ok t"
    by (cases t) (simp_all add: sio_type_try_from_def)
  show "sio_type_try_from v = Ok t \<Longrightarrow> sio_type_u8 t = v"
    by (auto simp: sio_type_try_from_def split: if_splits)
  show "sio_type_try_from v \<noteq> Panic"
    by (simp add: sio_type_try_from_def)
  show "unat (sio_type_u8 t) < 10"
    by (cases t) simp_all
qed

lemma sio_parse_from_u8_code [simp]: "sio_parse_from_u8 (sio_type_u8 t) s = Ok t"
  by (simp add: sio_parse_from_u8_def sio_code.try_as)

lemma sio_parse_from_u8_iff [simp]: "sio_parse_from_u8 v s = Ok t \<longleftrightarrow> v = sio_type_u8 t"
  by (auto simp: sio_parse_from_u8_def sio_code.try_from_iff sio_code.as_u8_inject
      sio_code.try_as split: outcome.splits)

lemma sio_parse_from_u8_not_Panic [simp]: "sio_parse_from_u8 v s \<noteq> Panic"
  by (auto simp: sio_parse_from_u8_def sio_code.try_no_Panic split: outcome.splits)

lemma sio_parse_from_u8_large: "10 \<le> unat v \<Longrightarrow> sio_parse_from_u8 v s = Err (NFailure s KDigit)"
  using sio_code.try_from_large [of v] by (auto simp: sio_parse_from_u8_def is_err_iff)

text \<open>The binary types are exactly the types that convert, and the conversions are inverse.\<close>

lemma try_into_binary_iff: "try_into_binary t = Ok b \<longleftrightarrow> t = from_binary_type b"
  by (cases t; cases b) simp_all

section \<open>Data\<close>

datatype 'n json =
  JNull | JBool bool | JNumber 'n | JString rstring
| JArray "'n json list" | JObject "(rstring \<times> 'n json) list"

datatype 'n pvalue =
  VNull | VBool bool | VNumber 'n | VString rstring
| VArray "'n pvalue list" | VObject "(rstring \<times> 'n pvalue) list" | VBinary bytes

text \<open>
  What the code calls of \<open>serde_json\<close>: \<open>Number::as_u64\<close>, the conversion of a \<open>u64\<close> to a number, the
  conversion of an iterator of values to one value, \<open>to_string\<close> and \<open>from_str\<close> (\<open>None\<close> where they
  return an error). \<open>is_integer\<close> is \<open>Number::is_i64() || Number::is_u64()\<close>: the code does not call it,
  the laws need it.
\<close>

record 'n serde =
  as_u64 :: "'n \<Rightarrow> nat option"
  of_u64 :: "nat \<Rightarrow> 'n"
  is_integer :: "'n \<Rightarrow> bool"
  from_iter :: "'n json list \<Rightarrow> 'n json"
  to_json_string :: "'n json \<Rightarrow> rstring option"
  from_json_str :: "rstring \<Rightarrow> 'n json option"

text \<open>
  The values that \<open>from_str\<close> reads back from what \<open>to_string\<close> wrote. The feature \<open>float_roundtrip\<close> is
  not enabled in \<open>socket_io_parser/Cargo.toml\<close>, so a float may come back as another one; \<open>from_str\<close>
  stops at the 128th level of nesting (there is a feature to disable that limit, it is not enabled
  either); and the keys of an object are those of a map.
\<close>

primrec json_depth :: "'n json \<Rightarrow> nat" where
  "json_depth JNull = 0"
| "json_depth (JBool b) = 0"
| "json_depth (JNumber n) = 0"
| "json_depth (JString s) = 0"
| "json_depth (JArray xs) = Suc (foldr max (map json_depth xs) 0)"
| "json_depth (JObject obj) = Suc (foldr max (map snd (map (map_prod id json_depth) obj)) 0)"

primrec exact_json :: "'n serde \<Rightarrow> 'n json \<Rightarrow> bool" where
  "exact_json S JNull = True"
| "exact_json S (JBool b) = True"
| "exact_json S (JNumber n) = is_integer S n"
| "exact_json S (JString s) = True"
| "exact_json S (JArray xs) = list_all id (map (exact_json S) xs)"
| "exact_json S (JObject obj) =
     (distinct (map fst obj) \<and> list_all id (map snd (map (map_prod id (exact_json S)) obj)))"

definition readable_json :: "'n serde \<Rightarrow> 'n json \<Rightarrow> bool" where
  "readable_json S j \<longleftrightarrow> exact_json S j \<and> json_depth j < 128"

definition serde_laws :: "'n serde \<Rightarrow> bool" where
  "serde_laws S \<longleftrightarrow>
     (\<forall>n < 2 ^ 64. as_u64 S (of_u64 S n) = Some n) \<and>
     (\<forall>js. from_iter S js = JArray js) \<and>
     (\<forall>js. \<exists>s. to_json_string S (JArray js) = Some (91 # s)) \<and>
     (\<forall>v. \<exists>s. to_json_string S (JString v) = Some (34 # s)) \<and>
     from_json_str S [] = None \<and>
     (\<forall>j s. readable_json S j \<longrightarrow> to_json_string S j = Some s \<longrightarrow> from_json_str S s = Some j)"

lemma serde_as_u64: "serde_laws S \<Longrightarrow> n < 2 ^ 64 \<Longrightarrow> as_u64 S (of_u64 S n) = Some n"
  and serde_from_iter: "serde_laws S \<Longrightarrow> from_iter S js = JArray js"
  and serde_array: "serde_laws S \<Longrightarrow> \<exists>s. to_json_string S (JArray js) = Some (91 # s)"
  and serde_string: "serde_laws S \<Longrightarrow> \<exists>s. to_json_string S (JString v) = Some (34 # s)"
  and serde_empty: "serde_laws S \<Longrightarrow> from_json_str S [] = None"
  and serde_read: "serde_laws S \<Longrightarrow> readable_json S j \<Longrightarrow> to_json_string S j = Some s \<Longrightarrow>
    from_json_str S s = Some j"
  by (simp_all add: serde_laws_def)

lemma readable_json_simps [simp]:
  "readable_json S JNull" "readable_json S (JBool b)" "readable_json S (JString v)"
  "readable_json S (JNumber n) \<longleftrightarrow> is_integer S n"
  "readable_json S (JArray [])" "readable_json S (JObject [])"
  by (simp_all add: readable_json_def)

text \<open>\<open>IndexMap\<close>: the entries of an iterator inserted one after the other into a new map.\<close>

definition imap_insert :: "rstring \<Rightarrow> 'v \<Rightarrow> (rstring \<times> 'v) list \<Rightarrow> (rstring \<times> 'v) list" where
  "imap_insert k v m = AList.update k v m"

definition imap_collect :: "(rstring \<times> 'v) list \<Rightarrow> (rstring \<times> 'v) list" where
  "imap_collect kvs = foldl (\<lambda>m (k, v). imap_insert k v m) [] kvs"

text \<open>\<open>From<JsonValue> for PacketDataValue\<close>.\<close>

primrec from_json :: "'n json \<Rightarrow> 'n pvalue" where
  "from_json JNull = VNull"
| "from_json (JBool b) = VBool b"
| "from_json (JNumber n) = VNumber n"
| "from_json (JString s) = VString s"
| "from_json (JArray xs) = VArray (map from_json xs)"
| "from_json (JObject obj) = VObject (imap_collect (map (map_prod id from_json) obj))"

definition value_from_bytes :: "bytes \<Rightarrow> 'n pvalue" where
  "value_from_bytes d = VBinary d"

definition attachment_marker_key :: rstring where
  "attachment_marker_key = lit ''_placeholder''"

definition attachment_index_key :: rstring where
  "attachment_index_key = lit ''num''"

definition get_attachment_index_if_placeholder ::
  "'n serde \<Rightarrow> (rstring \<times> 'n json) list \<Rightarrow> nat option" where
  "get_attachment_index_if_placeholder S obj =
     (case (map_of obj attachment_marker_key, map_of obj attachment_index_key) of
        (Some (JBool marker), Some (JNumber index)) \<Rightarrow> if marker then as_u64 S index else None
      | _ \<Rightarrow> None)"

lemma imap_insert_new: "k \<notin> fst ` set m \<Longrightarrow> imap_insert k v m = m @ [(k, v)]"
  unfolding imap_insert_def by (induction m) auto

lemma imap_collect_distinct: "distinct (map fst kvs) \<Longrightarrow> imap_collect kvs = kvs"
proof -
  have "foldl (\<lambda>m (k, v). imap_insert k v m) m kvs = m @ kvs"
    if "distinct (map fst (m @ kvs))" for m
    using that
  proof (induction kvs arbitrary: m)
    case (Cons kv kvs)
    obtain k v where kv: "kv = (k, v)" by force
    with Cons.prems have "imap_insert k v m = m @ [(k, v)]"
      by (intro imap_insert_new) auto
    with Cons kv show ?case by simp
  qed simp
  from this [of "[]"] show "distinct (map fst kvs) \<Longrightarrow> imap_collect kvs = kvs"
    by (simp add: imap_collect_def)
qed

lemma imap_collect_keys: "distinct (map fst (imap_collect kvs))"
proof -
  have "distinct (map fst (foldl (\<lambda>m (k, v). imap_insert k v m) m kvs))"
    if "distinct (map fst m)" for m
    using that by (induction kvs arbitrary: m) (auto simp: imap_insert_def distinct_update)
  then show ?thesis by (simp add: imap_collect_def)
qed

lemma imap_collect_lookup: "map_of (imap_collect kvs) = map_of (rev kvs)"
proof -
  have "map_of (foldl (\<lambda>m (k, v). imap_insert k v m) m kvs) = map_of (rev kvs @ m)" for m
    by (induction kvs arbitrary: m) (auto simp: imap_insert_def update_conv')
  from this [of "[]"] show ?thesis by (simp add: imap_collect_def)
qed

section \<open>Packets\<close>

record 'n sio_packet =
  sp_type :: sio_type
  sp_id :: "nat option"
  sp_nsp :: rstring
  sp_data :: "'n pvalue"

record 'n multipart_header =
  mh_type :: binary_type
  mh_id :: "nat option"
  mh_nsp :: "rstring option"
  mh_data :: "'n json"
  mh_count :: nat

definition header_has_attachments :: "'n multipart_header \<Rightarrow> bool" where
  "header_has_attachments h \<longleftrightarrow> mh_count h > 0"

datatype 'n proto_packet = Multipart "'n multipart_header" | Plain "'n sio_packet"

fun proto_has_attachments :: "'n proto_packet \<Rightarrow> bool" where
  "proto_has_attachments (Multipart h) = header_has_attachments h"
| "proto_has_attachments (Plain p) = False"

fun proto_packet_type :: "'n proto_packet \<Rightarrow> sio_type" where
  "proto_packet_type (Multipart h) = from_binary_type (mh_type h)"
| "proto_packet_type (Plain p) = sp_type p"

end
