(* ===== verification/Serde_Ref.thy ===== *)
theory Serde_Ref
  imports Sio_Packet
begin

text \<open>
  A concrete \<open>serde\<close> record that satisfies \<open>serde_laws\<close>, so that the laws can hold. It stands for
  \<open>serde_json\<close> in witnesses only. Numbers are naturals; a value is written as a tag, followed by the
  length of a string, an array or an object and by its parts.
\<close>

primrec write_ref :: "nat json \<Rightarrow> rstring" where
  "write_ref JNull = [110]"
| "write_ref (JBool b) = [98, if b then 1 else 0]"
| "write_ref (JNumber n) = [35, n]"
| "write_ref (JString s) = [34, length s] @ s"
| "write_ref (JArray xs) = [91, length xs] @ concat (map write_ref xs)"
| "write_ref (JObject obj) = [123, length obj] @
     concat (map (\<lambda>(k, v). (length k # k) @ v) (map (map_prod id write_ref) obj))"

definition write_entries :: "(rstring \<times> nat json) list \<Rightarrow> rstring" where
  "write_entries obj = concat (map (\<lambda>(k, v). (length k # k) @ v) (map (map_prod id write_ref) obj))"

lemma write_entries_simps [simp]:
  "write_entries [] = []"
  "write_entries ((k, j) # obj) = (length k # k) @ write_ref j @ write_entries obj"
  by (simp_all add: write_entries_def)

lemma write_ref_object: "write_ref (JObject obj) = 123 # length obj # write_entries obj"
  by (simp add: write_entries_def)

fun read_ref :: "nat \<Rightarrow> rstring \<Rightarrow> (nat json \<times> rstring) option"
  and read_list :: "nat \<Rightarrow> nat \<Rightarrow> rstring \<Rightarrow> (nat json list \<times> rstring) option"
  and read_obj :: "nat \<Rightarrow> nat \<Rightarrow> rstring \<Rightarrow> ((rstring \<times> nat json) list \<times> rstring) option"
where
  "read_ref 0 s = None"
| "read_ref (Suc f) s =
     (case s of
        [] \<Rightarrow> None
      | c # s \<Rightarrow>
          if c = 110 then Some (JNull, s)
          else (case s of
                  [] \<Rightarrow> None
                | n # s \<Rightarrow>
                    if c = 98 then Some (JBool (n = 1), s)
                    else if c = 35 then Some (JNumber n, s)
                    else if c = 34 then Some (JString (take n s), drop n s)
                    else if c = 91 then map_option (map_prod JArray id) (read_list f n s)
                    else map_option (map_prod JObject id) (read_obj f n s)))"
| "read_list 0 n s = None"
| "read_list (Suc f) 0 s = Some ([], s)"
| "read_list (Suc f) (Suc n) s =
     (case read_ref f s of
        None \<Rightarrow> None
      | Some (j, s) \<Rightarrow> map_option (map_prod ((#) j) id) (read_list f n s))"
| "read_obj 0 n s = None"
| "read_obj (Suc f) 0 s = Some ([], s)"
| "read_obj (Suc f) (Suc n) s =
     (case s of
        [] \<Rightarrow> None
      | l # s \<Rightarrow>
          (case read_ref f (drop l s) of
             None \<Rightarrow> None
           | Some (j, r) \<Rightarrow> map_option (map_prod ((#) (take l s, j)) id) (read_obj f n r)))"

lemma read_list_write:
  assumes "\<And>j f r. j \<in> set xs \<Longrightarrow> length (write_ref j) < f \<Longrightarrow> read_ref f (write_ref j @ r) = Some (j, r)"
    and "length (concat (map write_ref xs)) + 1 < f"
  shows "read_list f (length xs) (concat (map write_ref xs) @ r) = Some (xs, r)"
  using assms
proof (induction xs arbitrary: f)
  case Nil
  then show ?case by (cases f) simp_all
next
  case (Cons j xs)
  from Cons.prems(2) obtain g where f: "f = Suc g" by (cases f) auto
  have "write_ref j \<noteq> []" by (cases j) simp_all
  with Cons.prems(2) f have "length (write_ref j) < g" "length (concat (map write_ref xs)) + 1 < g"
    by (cases "write_ref j"; simp)+
  with Cons.prems(1) Cons.IH [of g] f show ?case by simp
qed

lemma read_obj_write:
  assumes "\<And>k j f r. (k, j) \<in> set obj \<Longrightarrow> length (write_ref j) < f \<Longrightarrow>
      read_ref f (write_ref j @ r) = Some (j, r)"
    and "length (write_entries obj) + 1 < f"
  shows "read_obj f (length obj) (write_entries obj @ r) = Some (obj, r)"
  using assms
proof (induction obj arbitrary: f)
  case Nil
  then show ?case by (cases f) simp_all
next
  case (Cons kj obj)
  obtain k j where kj: "kj = (k, j)" by force
  from Cons.prems(2) obtain g where f: "f = Suc g" by (cases f) auto
  with Cons.prems(2) kj have "length (write_ref j) < g" "length (write_entries obj) + 1 < g"
    by simp_all
  moreover have "read_obj g (length obj) (write_entries obj @ r) = Some (obj, r)"
    using Cons.prems(1) calculation(2) by (intro Cons.IH) auto
  ultimately show ?case using Cons.prems(1) [of k j g] f kj by simp
qed

lemma read_write_ref: "length (write_ref j) < f \<Longrightarrow> read_ref f (write_ref j @ r) = Some (j, r)"
proof (induction j arbitrary: f r)
  case (JArray xs)
  then obtain g where "f = Suc g" by (cases f) auto
  with JArray show ?case
    using read_list_write [of xs g r] by simp
next
  case (JObject obj)
  from JObject.prems obtain g where f: "f = Suc g" by (cases f) auto
  have "read_obj g (length obj) (write_entries obj @ r) = Some (obj, r)"
  proof (rule read_obj_write)
    fix k j h r
    assume mem: "(k, j) \<in> set obj" and len: "length (write_ref j) < h"
    have "j \<in> Basic_BNFs.snds (k, j)" by (simp add: prod_set_simps)
    with mem show "read_ref h (write_ref j @ r) = Some (j, r)"
      using len by (rule JObject.IH)
  next
    show "length (write_entries obj) + 1 < g"
      using JObject.prems f by (simp only: write_ref_object) simp
  qed
  then show ?case by (simp only: f write_ref_object append.simps) simp
next
  case JNull
  then show ?case by (cases f) simp_all
next
  case (JBool b)
  then show ?case by (cases f) simp_all
next
  case (JNumber n)
  then show ?case by (cases f) simp_all
next
  case (JString s)
  then show ?case by (cases f) simp_all
qed

definition serde_ref :: "nat serde" where
  "serde_ref = \<lparr>as_u64 = Some, of_u64 = id, is_integer = (\<lambda>n. True), from_iter = JArray, to_json_string = (\<lambda>j. Some (write_ref j)),
     from_json_str = (\<lambda>s. map_option fst (read_ref (Suc (length s)) s))\<rparr>"

lemma serde_ref_laws: "serde_laws serde_ref"
proof -
  have "read_ref (Suc (length (write_ref j))) (write_ref j) = Some (j, [])" for j
    using read_write_ref [of j "Suc (length (write_ref j))" "[]"] by simp
  then show ?thesis by (simp add: serde_laws_def serde_ref_def)
qed

end
