(* ===== verification/Engine_Packet.thy ===== *)
theory Engine_Packet
  imports Enum_Code Nom
begin

text \<open>
  \<open>engine_io_parser/src/packet.rs\<close>: the packet types and their codes, packet data, packets, and the
  error of the decoders.
\<close>

datatype packet_type = PtOpen | PtClose | PtPing | PtPong | PtMessage | PtUpgrade | PtNoop

fun packet_type_u8 :: "packet_type \<Rightarrow> u8" where
  "packet_type_u8 PtOpen = 0"
| "packet_type_u8 PtClose = 1"
| "packet_type_u8 PtPing = 2"
| "packet_type_u8 PtPong = 3"
| "packet_type_u8 PtMessage = 4"
| "packet_type_u8 PtUpgrade = 5"
| "packet_type_u8 PtNoop = 6"

record parse_packet_error =
  err_message :: rstring

definition parse_packet_error_string :: "parse_packet_error \<Rightarrow> rstring" where
  "parse_packet_error_string e = err_message e"

definition packet_type_try_from :: "u8 \<Rightarrow> (parse_packet_error, packet_type) outcome" where
  "packet_type_try_from value =
     (if value = 0 then Ok PtOpen
      else if value = 1 then Ok PtClose
      else if value = 2 then Ok PtPing
      else if value = 3 then Ok PtPong
      else if value = 4 then Ok PtMessage
      else if value = 5 then Ok PtUpgrade
      else if value = 6 then Ok PtNoop
      else Err \<lparr>err_message = lit ''Invalid packet''\<rparr>)"

definition parse_from_u8 :: "u8 \<Rightarrow> 'a list \<Rightarrow> ('a list nom_err, packet_type) outcome" where
  "parse_from_u8 value original_input =
     (case packet_type_try_from value of
        Ok pt \<Rightarrow> Ok pt
      | Err _ \<Rightarrow> Err (NError original_input KDigit)
      | Panic \<Rightarrow> Panic)"

datatype packet_data = PdText rstring | PdBinary bytes | PdEmpty

record packet =
  ptype :: packet_type
  pdata :: packet_data

definition packet_data_from_str :: "rstring \<Rightarrow> packet_data" where
  "packet_data_from_str val = PdText val"

definition packet_data_from_bytes :: "bytes \<Rightarrow> packet_data" where
  "packet_data_from_bytes val = PdBinary val"

text \<open>A packet whose text, if it has one, is a valid \<open>String\<close>.\<close>

definition packet_ok :: "packet \<Rightarrow> bool" where
  "packet_ok p \<longleftrightarrow> (case pdata p of PdText t \<Rightarrow> str_ok t | _ \<Rightarrow> True)"

interpretation engine_code: enum_code packet_type_u8 packet_type_try_from
proof
  fix t v
  show "packet_type_try_from (packet_type_u8 t) = Ok t"
    by (cases t) (simp_all add: packet_type_try_from_def)
  show "packet_type_try_from v = Ok t \<Longrightarrow> packet_type_u8 t = v"
    by (auto simp: packet_type_try_from_def split: if_splits)
  show "packet_type_try_from v \<noteq> Panic"
    by (simp add: packet_type_try_from_def)
  show "unat (packet_type_u8 t) < 10"
    by (cases t) simp_all
qed

lemma parse_from_u8_code [simp]: "parse_from_u8 (packet_type_u8 t) s = Ok t"
  by (simp add: parse_from_u8_def engine_code.try_as)

lemma parse_from_u8_iff [simp]: "parse_from_u8 v s = Ok t \<longleftrightarrow> v = packet_type_u8 t"
  by (auto simp: parse_from_u8_def engine_code.try_from_iff engine_code.as_u8_inject
      engine_code.try_as split: outcome.splits)

lemma parse_from_u8_not_Panic [simp]: "parse_from_u8 v s \<noteq> Panic"
  by (auto simp: parse_from_u8_def engine_code.try_no_Panic split: outcome.splits)

lemmas consuming_parse_from_u8 [consuming_intros] =
  consuming_obind [where m = "\<lambda>s. parse_from_u8 v s" for v]

lemma parse_from_u8_large: "10 \<le> unat v \<Longrightarrow> parse_from_u8 v s = Err (NError s KDigit)"
  using engine_code.try_from_large [of v]
  by (auto simp: parse_from_u8_def is_err_iff)

lemma parse_from_u8_ascii [simp]:
  "parse_from_u8 (packet_type_u8 t + 48) s = Err (NError s KDigit)"
  by (rule parse_from_u8_large) (simp add: engine_code.unat_ascii)

lemma chk_ascii_code:
  "chk oc 8 (uint (packet_type_u8 t + 48) - 48) = Ok (unat (packet_type_u8 t))"
  by (cases t) (simp_all add: chk_def)

lemma parse_from_u8_error: "parse_from_u8 v s = Err e \<Longrightarrow> e = NError s KDigit"
  by (auto simp: parse_from_u8_def split: outcome.splits)

end
