(* ===== verification/Engine_String.thy ===== *)
theory Engine_String
  imports Engine_Packet
begin

text \<open>
  \<open>engine_io_parser/src/string.rs\<close>: the text encoding of Engine.IO packets and payloads. The
  combinators of \<open>nom\<close> are the parameter \<open>N\<close>, the crate \<open>base64\<close> is the parameter \<open>B\<close>, and \<open>oc\<close>
  says whether overflow checks are on.
\<close>

record base64 =
  b64_encode :: "bytes \<Rightarrow> rstring"
  b64_decode :: "rstring \<Rightarrow> bytes option"

definition base64_laws :: "base64 \<Rightarrow> bool" where
  "base64_laws B \<longleftrightarrow> (\<forall>d. b64_decode B (b64_encode B d) = Some d)"

text \<open>
  A concrete encoder that satisfies the law, two letters for each byte. It stands for the crate in
  witnesses only.
\<close>

fun unpair_ref :: "rstring \<Rightarrow> bytes option" where
  "unpair_ref [] = Some []"
| "unpair_ref [x] = None"
| "unpair_ref (x # y # s) =
     map_option ((#) (word_of_nat ((x - 65) * 16 + (y - 65)))) (unpair_ref s)"

definition b64_ref :: base64 where
  "b64_ref = \<lparr>b64_encode = (\<lambda>d. concat (map (\<lambda>b. [65 + unat b div 16, 65 + unat b mod 16]) d)),
              b64_decode = unpair_ref\<rparr>"

lemma b64_ref_laws: "base64_laws b64_ref"
proof -
  have "unpair_ref (concat (map (\<lambda>b. [65 + unat b div 16, 65 + unat b mod 16]) d)) = Some d" for d
    by (induction d) simp_all
  then show ?thesis by (simp add: base64_laws_def b64_ref_def)
qed

type_synonym str_nom = "(uchar, packet) nom"

section \<open>Decoding\<close>

definition take_u8 :: "(uchar, 'o) nom \<Rightarrow> rstring \<Rightarrow> (uchar, u8) iresult" where
  "take_u8 N input =
     obind (digit1 N input) (\<lambda>(input, num).
       case parse_uint 8 num of
         Some n \<Rightarrow> Ok (input, word_of_nat n)
       | None \<Rightarrow> Err (NFailure input KDigit))"

definition take_usize :: "str_nom \<Rightarrow> rstring \<Rightarrow> (uchar, nat) iresult" where
  "take_usize N input =
     obind (digit1 N input) (\<lambda>(input, num).
       case parse_uint 64 num of
         Some n \<Rightarrow> Ok (input, n)
       | None \<Rightarrow> Err (NFailure input KDigit))"

definition parse_string_packet :: "str_nom \<Rightarrow> rstring \<Rightarrow> nat option \<Rightarrow> (uchar, packet) iresult" where
  "parse_string_packet N input data_length =
     obind (take_u8 N input) (\<lambda>(input, packet_type_index).
     obind (case data_length of Some l \<Rightarrow> take_n N l input | None \<Rightarrow> Ok ([], input)) (\<lambda>(input, d).
     obind (parse_from_u8 packet_type_index input) (\<lambda>pt.
       Ok (input, \<lparr>ptype = pt, pdata = PdText d\<rparr>))))"

definition parse_plaintext_string_packet :: "str_nom \<Rightarrow> nat \<Rightarrow> rstring \<Rightarrow> (uchar, packet) iresult" where
  "parse_plaintext_string_packet N data_length input =
     obind (parse_string_packet N input (Some data_length)) (\<lambda>(input, p). Ok (input, p))"

definition parse_base64_string_packet ::
  "bool \<Rightarrow> base64 \<Rightarrow> str_nom \<Rightarrow> nat \<Rightarrow> rstring \<Rightarrow> (uchar, packet) iresult" where
  "parse_base64_string_packet oc B N data_length input =
     obind (nom_char N 98 input) (\<lambda>(input, _).
     obind (chk oc 64 (int data_length - 1)) (\<lambda>data_length.
     obind (take_u8 N input) (\<lambda>(input, packet_type_index).
     obind (take_n N data_length input) (\<lambda>(input, data_b64).
     obind (parse_from_u8 packet_type_index input) (\<lambda>pt.
       case b64_decode B data_b64 of
         Some vec \<Rightarrow> Ok (input, \<lparr>ptype = pt, pdata = packet_data_from_bytes vec\<rparr>)
       | None \<Rightarrow> Err (NFailure input KTakeWhile1))))))"

definition parse_string_packet_in_payload ::
  "bool \<Rightarrow> base64 \<Rightarrow> str_nom \<Rightarrow> rstring \<Rightarrow> (uchar, packet) iresult" where
  "parse_string_packet_in_payload oc B N input =
     obind (take_usize N input) (\<lambda>(input, packet_length).
     obind (nom_char N 58 input) (\<lambda>(input, _).
     obind (chk oc 64 (int packet_length - 1)) (\<lambda>data_length.
     obind (alt2 N (parse_plaintext_string_packet N data_length)
                   (parse_base64_string_packet oc B N data_length) input) (\<lambda>(input, p).
       Ok (input, p)))))"

definition parse_string_payload ::
  "bool \<Rightarrow> base64 \<Rightarrow> str_nom \<Rightarrow> rstring \<Rightarrow> (uchar, packet list) iresult" where
  "parse_string_payload oc B N input =
     fold_many0 N (parse_string_packet_in_payload oc B N) [] (\<lambda>acc item. acc @ [item]) input"

definition decode_packet :: "str_nom \<Rightarrow> rstring \<Rightarrow> (parse_packet_error, packet) outcome" where
  "decode_packet N input =
     (case parse_string_packet N input None of
        Ok (_, p) \<Rightarrow> Ok p
      | Err _ \<Rightarrow> Err \<lparr>err_message = lit ''Unable to decode packet''\<rparr>
      | Panic \<Rightarrow> Panic)"

definition decode_payload ::
  "bool \<Rightarrow> base64 \<Rightarrow> str_nom \<Rightarrow> rstring \<Rightarrow> (parse_packet_error, packet list) outcome" where
  "decode_payload oc B N input =
     (case parse_string_payload oc B N input of
        Ok (_, ps) \<Rightarrow> Ok ps
      | Err _ \<Rightarrow> Err \<lparr>err_message = lit ''Unable to decode payload''\<rparr>
      | Panic \<Rightarrow> Panic)"

section \<open>Encoding\<close>

text \<open>The character count of a \<open>String\<close> plus one cannot overflow \<open>usize\<close>, so it is exact here.\<close>

definition serialize_packet :: "base64 \<Rightarrow> packet \<Rightarrow> rstring" where
  "serialize_packet B p =
     dec (unat (packet_type_u8 (ptype p))) @
     (case pdata p of PdText t \<Rightarrow> t | PdBinary d \<Rightarrow> b64_encode B d | PdEmpty \<Rightarrow> [])"

definition payload_chunk :: "base64 \<Rightarrow> packet \<Rightarrow> rstring" where
  "payload_chunk B p =
     (let serialized = serialize_packet B p
      in case pdata p of
           PdBinary _ \<Rightarrow> dec (length serialized + 1) @ lit '':b'' @ serialized
         | PdText _ \<Rightarrow> dec (length serialized) @ lit '':'' @ serialized
         | PdEmpty \<Rightarrow> [])"

definition serialize_payload :: "base64 \<Rightarrow> packet list \<Rightarrow> rstring" where
  "serialize_payload B packets = foldl (\<lambda>acc p. acc @ payload_chunk B p) [] packets"

definition encode_packet :: "base64 \<Rightarrow> packet \<Rightarrow> rstring" where
  "encode_packet B input = serialize_packet B input"

definition encode_base64_packet :: "base64 \<Rightarrow> packet \<Rightarrow> rstring" where
  "encode_base64_packet B input = serialize_packet B input"

definition encode_payload :: "base64 \<Rightarrow> packet list \<Rightarrow> rstring" where
  "encode_payload B input = serialize_payload B input"

lemma serialize_payload_concat: "serialize_payload B ps = concat (map (payload_chunk B) ps)"
proof -
  have "foldl (\<lambda>acc p. acc @ payload_chunk B p) acc ps = acc @ concat (map (payload_chunk B) ps)"
    for acc
    by (induction ps arbitrary: acc) simp_all
  from this [of "[]"] show ?thesis by (simp add: serialize_payload_def)
qed

lemma serialize_packet_code: "serialize_packet B p =
    (48 + unat (packet_type_u8 (ptype p))) #
    (case pdata p of PdText t \<Rightarrow> t | PdBinary d \<Rightarrow> b64_encode B d | PdEmpty \<Rightarrow> [])"
  by (simp add: serialize_packet_def engine_code.dec_code)

section \<open>What the parsers do\<close>

lemma take_u8_append:
  assumes "nom_laws is_digit N" and "ds \<noteq> []" and "list_all is_digit ds" and "\<not> leading_digit r"
  shows "take_u8 N (ds @ r) =
    (if dec_val ds < 256 then Ok (r, word_of_nat (dec_val ds)) else Err (NFailure r KDigit))"
  using assms by (simp add: take_u8_def nom_digit1_append parse_uint_digits)

lemma take_u8_code:
  assumes "nom_laws is_digit N" and "n < 10" and "\<not> leading_digit r"
  shows "take_u8 N ((48 + n) # r) = Ok (r, word_of_nat n)"
  using take_u8_append [OF assms(1) _ _ assms(3), of "[48 + n]"] assms(2)
  by (simp add: dec_val_def digit_val_def)

lemma take_u8_none:
  assumes "nom_laws is_digit N" and "\<not> leading_digit s"
  shows "take_u8 N s = Err (NError s KDigit)"
  using assms by (simp add: take_u8_def nom_digit1_none)

lemma take_usize_dec:
  assumes "nom_laws is_digit N" and "n < 2 ^ 64" and "\<not> leading_digit r"
  shows "take_usize N (dec n @ r) = Ok (r, n)"
  using assms by (simp add: take_usize_def nom_digit1_append dec_digits)

lemma take_no_Panic:
  assumes "nom_laws is_digit N"
  shows "take_u8 N s \<noteq> Panic" and "take_usize N s \<noteq> Panic"
  using nom_no_Panic(1) [OF assms]
  by (auto simp: take_u8_def take_usize_def split: option.splits)

lemma consuming_take [consuming_intros]:
  assumes "nom_laws is_digit N"
  shows "consuming (take_u8 N)" and "consuming (take_usize N)"
  using assms unfolding take_u8_def take_usize_def by (intro consuming_intros; assumption)+

lemma consuming_string_packet [consuming_intros]:
  assumes "nom_laws is_digit N"
  shows "consuming (\<lambda>s. parse_string_packet N s (Some l))"
    and "consuming (parse_plaintext_string_packet N l)"
    and "consuming (parse_base64_string_packet oc B N l)"
  using assms
  unfolding parse_string_packet_def parse_plaintext_string_packet_def parse_base64_string_packet_def
    option.case
  by (intro consuming_intros; assumption)+

lemma consuming_packet_in_payload:
  assumes "nom_laws is_digit N"
  shows "consuming (parse_string_packet_in_payload oc B N)"
  using assms unfolding parse_string_packet_in_payload_def
  by (intro consuming_intros; assumption)+

lemma parse_string_packet_no_Panic:
  assumes "nom_laws is_digit N"
  shows "parse_string_packet N s l \<noteq> Panic"
  using take_no_Panic(1) [OF assms] nom_no_Panic(2) [OF assms]
  by (auto simp: parse_string_packet_def split: option.splits)

lemma parse_base64_string_packet_Panic:
  assumes "nom_laws is_digit N" and "l < 2 ^ 64"
  shows "parse_base64_string_packet oc B N l s = Panic \<longleftrightarrow> oc \<and> l = 0 \<and> s \<noteq> [] \<and> hd s = 98"
  using take_no_Panic(1) [OF assms(1)] nom_no_Panic(2) [OF assms(1)] assms
  by (cases s) (auto simp: parse_base64_string_packet_def nom_char_law chk_Panic
      split: option.splits)

section \<open>Payloads\<close>

text \<open>
  The packets whose encoding in a payload is read back. The parser takes every digit at the front
  as the packet type, so the data must not start with a digit, and it must not be empty: the next
  packet of the payload starts with the digits of its length.
\<close>

definition text_framed :: "rstring \<Rightarrow> bool" where
  "text_framed t \<longleftrightarrow> t \<noteq> [] \<and> \<not> is_digit (hd t) \<and> length t + 2 < 2 ^ 64"

definition good_string :: "base64 \<Rightarrow> packet \<Rightarrow> bool" where
  "good_string B p \<longleftrightarrow>
     (case pdata p of
        PdText t \<Rightarrow> text_framed t
      | PdBinary d \<Rightarrow> base64_laws B \<and> text_framed (b64_encode B d)
      | PdEmpty \<Rightarrow> False)"

lemma text_framed_append: "text_framed t \<Longrightarrow> \<not> leading_digit (t @ r)"
  by (cases t) (auto simp: text_framed_def)

lemma parse_string_packet_framed:
  assumes "nom_laws is_digit N" and "text_framed t"
  shows "parse_string_packet N ((48 + unat (packet_type_u8 pt)) # t @ r) (Some (length t)) =
    Ok (r, \<lparr>ptype = pt, pdata = PdText t\<rparr>)"
  using take_u8_code [OF assms(1) engine_code.small text_framed_append [OF assms(2)], of pt r]
    nom_take [OF assms(1), of "length t" "t @ r"]
  by (simp add: parse_string_packet_def)

lemma parse_base64_packet_framed:
  assumes "nom_laws is_digit N" and "base64_laws B" and "text_framed (b64_encode B d)"
  shows "parse_base64_string_packet oc B N (Suc (length (b64_encode B d)))
      (98 # (48 + unat (packet_type_u8 pt)) # b64_encode B d @ r) =
    Ok (r, \<lparr>ptype = pt, pdata = PdBinary d\<rparr>)"
  using take_u8_code [OF assms(1) engine_code.small text_framed_append [OF assms(3)], of pt r]
    nom_take [OF assms(1), of "length (b64_encode B d)" "b64_encode B d @ r"] assms
  by (simp add: parse_base64_string_packet_def nom_char_law chk_fits base64_laws_def
      packet_data_from_bytes_def text_framed_def)

lemma parse_in_payload_length:
  assumes "nom_laws is_digit N" and "n < 2 ^ 64"
  shows "parse_string_packet_in_payload oc B N (dec n @ 58 # s) =
    obind (chk oc 64 (int n - 1)) (\<lambda>l.
      alt2 N (parse_plaintext_string_packet N l) (parse_base64_string_packet oc B N l) s)"
  using take_usize_dec [OF assms, of "58 # s"] assms(1)
  by (simp add: parse_string_packet_in_payload_def nom_char_law is_digit_def)

lemma parse_payload_chunk:
  assumes N: "nom_laws is_digit N" and good: "good_string B p"
  shows "parse_string_packet_in_payload oc B N (payload_chunk B p @ r) = Ok (r, p)"
proof (cases "pdata p")
  case (PdText t)
  with good have t: "text_framed t" by (simp add: good_string_def)
  have "payload_chunk B p @ r =
      dec (Suc (length t)) @ 58 # (48 + unat (packet_type_u8 (ptype p))) # t @ r"
    using PdText by (simp add: payload_chunk_def serialize_packet_code lit_def)
  with PdText t show ?thesis
    using parse_in_payload_length [OF N, of "Suc (length t)"]
    by (simp add: chk_fits nom_alt2 [OF N] parse_plaintext_string_packet_def
        parse_string_packet_framed [OF N t] text_framed_def)
next
  case (PdBinary d)
  let ?e = "b64_encode B d"
  from good PdBinary have B: "base64_laws B" and e: "text_framed ?e"
    by (simp_all add: good_string_def)
  have "payload_chunk B p @ r =
      dec (Suc (Suc (length ?e))) @ 58 # 98 # (48 + unat (packet_type_u8 (ptype p))) # ?e @ r"
    using PdBinary by (simp add: payload_chunk_def serialize_packet_code lit_def)
  moreover have "take_u8 N (98 # s) = Err (NError (98 # s) KDigit)" for s
    using take_u8_none [OF N, of "98 # s"] by (simp add: is_digit_def)
  ultimately show ?thesis
    using PdBinary e parse_in_payload_length [OF N, of "Suc (Suc (length ?e))"]
    by (simp add: chk_fits nom_alt2 [OF N] parse_plaintext_string_packet_def
        parse_string_packet_def parse_base64_packet_framed [OF N B e] text_framed_def)
next
  case PdEmpty
  with good show ?thesis by (simp add: good_string_def)
qed

interpretation string_framing: packet_framing is_digit N "payload_chunk B"
  "parse_string_packet_in_payload oc B N" "\<lambda>p. p" "good_string B" "\<lambda>_. True"
  for N and B and oc
proof
  fix p r
  show "good_string B p \<Longrightarrow> payload_chunk B p \<noteq> []"
    by (auto simp: good_string_def payload_chunk_def Let_def split: packet_data.splits)
  assume N: "nom_laws is_digit N"
  show "consuming (parse_string_packet_in_payload oc B N)"
    by (rule consuming_packet_in_payload [OF N])
  show "parse_string_packet_in_payload oc B N [] = Err (NError [] KDigit) \<or>
      parse_string_packet_in_payload oc B N [] = Err (NError [] KEof)"
    by (simp add: parse_string_packet_in_payload_def take_usize_def nom_digit1_none [OF N])
  show "good_string B p \<Longrightarrow>
      parse_string_packet_in_payload oc B N (payload_chunk B p @ r) = Ok (r, p)"
    by (rule parse_payload_chunk [OF N])
qed simp_all

lemma string_payload_framed:
  assumes "nom_laws is_digit N" and "list_all (good_string B) ps"
  shows "decode_payload oc B N (encode_payload B ps) = Ok ps"
  using string_framing.decode_payload [OF assms]
  by (simp add: decode_payload_def parse_string_payload_def encode_payload_def serialize_payload_concat)

text \<open>
  C1: A payload of text packets and base64 packets, encoded by \<open>encode_payload\<close>, is decoded by
  \<open>decode_payload\<close> to the same packets in the same order, with and without overflow checks, as long
  as no packet's data (its base64 text, for a binary packet) is empty, starts with a digit, or has
  \<open>2 ^ 64 - 2\<close> characters or more, and as long as base64 decodes what it encodes.
\<close>

theorem string_payload_roundtrip:
  assumes "nom_laws is_digit N" and "list_all (good_string B) ps"
  shows "decode_payload oc B N (encode_payload B ps) = Ok ps"
  by (rule string_payload_framed [OF assms])

theorem string_payload_roundtrip_witness:
  "decode_payload True b64_ref (nom_ref is_digit) (encode_payload b64_ref
     [\<lparr>ptype = PtMessage, pdata = PdText (lit ''hello'')\<rparr>,
      \<lparr>ptype = PtMessage, pdata = PdBinary [1, 2, 3, 4]\<rparr>]) =
   Ok [\<lparr>ptype = PtMessage, pdata = PdText (lit ''hello'')\<rparr>,
       \<lparr>ptype = PtMessage, pdata = PdBinary [1, 2, 3, 4]\<rparr>]"
  by (rule string_payload_roundtrip [OF nom_ref_laws])
    (simp add: good_string_def text_framed_def lit_def is_digit_def b64_ref_laws,
     simp add: b64_ref_def)

text \<open>
  A parse error in the middle of a payload is not reported: when what follows the packets does
  not start with a digit, \<open>decode_payload\<close> returns the packets before it and drops the rest.
\<close>

theorem string_payload_drops_tail:
  assumes "nom_laws is_digit N" and "list_all (good_string B) ps" and "\<not> leading_digit r"
  shows "decode_payload oc B N (encode_payload B ps @ r) = Ok ps"
proof -
  have "parse_string_packet_in_payload oc B N r = Err (NError r KDigit)"
    using assms by (simp add: parse_string_packet_in_payload_def take_usize_def nom_digit1_none)
  from string_framing.decode_stops [OF assms(1,2) TrueI this] show ?thesis
    by (simp add: decode_payload_def parse_string_payload_def encode_payload_def
        serialize_payload_concat)
qed

theorem string_payload_drops_tail_witness:
  "decode_payload False b64_ref (nom_ref is_digit)
     (encode_payload b64_ref
       [\<lparr>ptype = PtPing, pdata = PdText (lit ''probe'')\<rparr>] @ lit ''x7'') =
   Ok [\<lparr>ptype = PtPing, pdata = PdText (lit ''probe'')\<rparr>]"
  by (rule string_payload_drops_tail [OF nom_ref_laws])
    (simp_all add: good_string_def text_framed_def lit_def is_digit_def)

text \<open>
  C37: Packets without data vanish from a text payload: \<open>encode_payload\<close> writes nothing for them, so
  decoding what it wrote returns the other packets only. The server's \<open>Pong\<close> is such a packet.
\<close>

theorem string_payload_loses_empty:
  assumes "nom_laws is_digit N"
    and "\<forall>p \<in> set ps. pdata p = PdEmpty \<or> good_string B p"
  shows "decode_payload oc B N (encode_payload B ps) = Ok (filter (\<lambda>p. pdata p \<noteq> PdEmpty) ps)"
proof -
  let ?kept = "filter (\<lambda>p. pdata p \<noteq> PdEmpty) ps"
  have "encode_payload B ps = concat (map (payload_chunk B) ?kept)"
    unfolding encode_payload_def serialize_payload_concat
    by (induction ps) (auto simp: payload_chunk_def)
  moreover have "list_all (good_string B) ?kept"
    using assms(2) by (auto simp: list_all_iff)
  ultimately show ?thesis
    using string_framing.decode_payload [OF assms(1)]
    by (simp add: decode_payload_def parse_string_payload_def)
qed

theorem string_payload_loses_empty_witness:
  "decode_payload True b64_ref (nom_ref is_digit)
     (encode_payload b64_ref
       [\<lparr>ptype = PtPong, pdata = PdEmpty\<rparr>, \<lparr>ptype = PtMessage, pdata = PdText (lit ''a'')\<rparr>]) =
   Ok [\<lparr>ptype = PtMessage, pdata = PdText (lit ''a'')\<rparr>]"
proof -
  let ?ps = "[\<lparr>ptype = PtPong, pdata = PdEmpty\<rparr>, \<lparr>ptype = PtMessage, pdata = PdText (lit ''a'')\<rparr>]"
  have "\<forall>p \<in> set ?ps. pdata p = PdEmpty \<or> good_string B p" for B
    by (simp add: good_string_def text_framed_def lit_def is_digit_def)
  from string_payload_loses_empty [OF nom_ref_laws this] show ?thesis by simp
qed

section \<open>Single packets\<close>

lemma decode_packet_digits:
  assumes N: "nom_laws is_digit N" and "leading_digit t"
  shows "decode_packet N ((48 + unat (packet_type_u8 pt)) # t) =
    (let v = dec_val ((48 + unat (packet_type_u8 pt)) # takeWhile is_digit t)
     in if v < 256
        then (case packet_type_try_from (word_of_nat v) of
                Ok pt' \<Rightarrow> Ok \<lparr>ptype = pt', pdata = PdText (dropWhile is_digit t)\<rparr>
              | _ \<Rightarrow> Err \<lparr>err_message = lit ''Unable to decode packet''\<rparr>)
        else Err \<lparr>err_message = lit ''Unable to decode packet''\<rparr>)"
proof -
  let ?ds = "(48 + unat (packet_type_u8 pt)) # takeWhile is_digit t"
  have "\<not> leading_digit (dropWhile is_digit t)"
    using hd_dropWhile by blast
  then have "take_u8 N (?ds @ dropWhile is_digit t) =
      (if dec_val ?ds < 256 then Ok (dropWhile is_digit t, word_of_nat (dec_val ?ds))
       else Err (NFailure (dropWhile is_digit t) KDigit))"
    using N engine_code.code_is_digit [of pt]
    by (intro take_u8_append) (simp_all add: list_all_takeWhile)
  then show ?thesis
    using engine_code.try_no_Panic [of "word_of_nat (dec_val ?ds)"]
    by (auto simp: decode_packet_def parse_string_packet_def parse_from_u8_def Let_def
        split: outcome.splits)
qed

lemma decode_packet_plain:
  assumes "nom_laws is_digit N" and "\<not> leading_digit t"
  shows "decode_packet N ((48 + unat (packet_type_u8 pt)) # t) = Ok \<lparr>ptype = pt, pdata = PdText t\<rparr>"
  using take_u8_code [OF assms(1) engine_code.small assms(2), of pt]
  by (simp add: decode_packet_def parse_string_packet_def)

text \<open>
  C32: A text packet survives \<open>encode_packet\<close> followed by \<open>decode_packet\<close> exactly when its text does
  not start with a digit.
\<close>

theorem string_packet_roundtrip_iff:
  assumes "nom_laws is_digit N"
  shows "decode_packet N (encode_packet B \<lparr>ptype = pt, pdata = PdText t\<rparr>) =
      Ok \<lparr>ptype = pt, pdata = PdText t\<rparr> \<longleftrightarrow> \<not> leading_digit t"
proof (cases "leading_digit t")
  case True
  then have "dropWhile is_digit t \<noteq> t"
    by (metis hd_dropWhile)
  with True show ?thesis
    using decode_packet_digits [OF assms True, of pt]
    by (auto simp: encode_packet_def serialize_packet_code Let_def split: outcome.splits if_splits)
next
  case False
  with decode_packet_plain [OF assms] show ?thesis
    by (simp add: encode_packet_def serialize_packet_code)
qed

theorem string_packet_roundtrip_iff_witness:
  "decode_packet (nom_ref is_digit)
     (encode_packet b64_ref
       \<lparr>ptype = PtMessage, pdata = PdText (lit ''Hello world!'')\<rparr>) =
   Ok \<lparr>ptype = PtMessage, pdata = PdText (lit ''Hello world!'')\<rparr>"
  by (subst string_packet_roundtrip_iff [OF nom_ref_laws]) (simp add: lit_def is_digit_def)

text \<open>
  A \<open>Message\<close> packet that carries a Socket.IO packet is refused: every Socket.IO packet starts
  with the digit of its own type, which \<open>decode_packet\<close> reads as a second digit of the Engine.IO
  type. Likewise for every type but \<open>Open\<close>.
\<close>

theorem socket_io_text_undecodable:
  assumes "nom_laws is_digit N" and "leading_digit t" and "pt \<noteq> PtOpen"
  shows "decode_packet N (encode_packet B \<lparr>ptype = pt, pdata = PdText t\<rparr>) =
    Err \<lparr>err_message = lit ''Unable to decode packet''\<rparr>"
proof -
  let ?c = "48 + unat (packet_type_u8 pt)"
  let ?v = "dec_val (?c # takeWhile is_digit t)"
  have "?c \<noteq> 48"
    using assms(3) by (cases pt) simp_all
  then have "10 ^ length (takeWhile is_digit t) \<le> ?v"
    using engine_code.code_is_digit by (intro dec_val_lower list_all_takeWhile)
  moreover have "10 ^ 1 \<le> (10::nat) ^ length (takeWhile is_digit t)"
    using assms(2) by (cases t) (simp_all del: power_one_right)
  ultimately have "10 \<le> ?v" by simp
  then have "?v < 256 \<Longrightarrow> is_err (packet_type_try_from (word_of_nat ?v))"
    by (intro engine_code.try_from_large) (simp add: unat_of_nat)
  with decode_packet_digits [OF assms(1,2), of pt] show ?thesis
    by (auto simp: encode_packet_def serialize_packet_code Let_def is_err_iff split: outcome.splits)
qed

theorem socket_io_text_undecodable_witness:
  "decode_packet (nom_ref is_digit)
     (encode_packet b64_ref
       \<lparr>ptype = PtMessage, pdata = PdText (lit ''2[42]'')\<rparr>) =
   Err \<lparr>err_message = lit ''Unable to decode packet''\<rparr>"
  by (rule socket_io_text_undecodable [OF nom_ref_laws]) (simp_all add: lit_def is_digit_def)

section \<open>Panics\<close>

lemma parse_in_payload_release:
  assumes N: "nom_laws is_digit N"
  shows "parse_string_packet_in_payload False B N s \<noteq> Panic"
proof -
  have "parse_base64_string_packet False B N l i \<noteq> Panic" if "l < 2 ^ 64" for l i
    using parse_base64_string_packet_Panic [OF N that] by simp
  then show ?thesis
    using take_no_Panic(2) [OF N] nom_no_Panic(4) [OF N] parse_string_packet_no_Panic [OF N]
    by (auto simp: parse_string_packet_in_payload_def nom_alt2 [OF N] chk_Panic
        parse_plaintext_string_packet_def dest: chk_bound split: outcome.splits nom_err.splits)
qed

text \<open>With overflow checks off no input makes the two text decoders panic.\<close>

theorem string_decoders_release_no_panic:
  assumes "nom_laws is_digit N"
  shows "decode_packet N s \<noteq> Panic \<and> decode_payload False B N s \<noteq> Panic"
proof
  show "decode_packet N s \<noteq> Panic"
    using parse_string_packet_no_Panic [OF assms] by (auto simp: decode_packet_def split: outcome.splits)
  have "parse_string_payload False B N s \<noteq> Panic"
    unfolding parse_string_payload_def
    by (rule fold_many0_no_Panic [OF assms consuming_packet_in_payload [OF assms]])
      (rule parse_in_payload_release [OF assms])
  then show "decode_payload False B N s \<noteq> Panic"
    by (auto simp: decode_payload_def split: outcome.splits)
qed

theorem string_decoders_release_no_panic_witness:
  "decode_payload False b64_ref (nom_ref is_digit)
     (lit ''0:4'') \<noteq> Panic"
  using string_decoders_release_no_panic [OF nom_ref_laws] by blast

text \<open>
  With overflow checks on, a payload in which a packet announces the length 0, or a base64 packet
  the length 1, makes \<open>decode_payload\<close> panic, whatever good packets come before and whatever follows.
\<close>

theorem string_payload_debug_panic:
  assumes "nom_laws is_digit N" and "list_all (good_string B) ps"
  shows "decode_payload True B N (encode_payload B ps @ lit ''0:'' @ r) = Panic \<and>
    decode_payload True B N (encode_payload B ps @ lit ''1:b'' @ r) = Panic"
proof
  note parse_defs = decode_payload_def parse_string_payload_def encode_payload_def
    serialize_payload_concat
  have "lit ''0:'' = dec 0 @ [58]" "lit ''1:b'' = dec 1 @ [58, 98]"
    by (simp_all add: lit_def dec_small)
  moreover have "take_u8 N (98 # s) = Err (NError (98 # s) KDigit)" for s
    using take_u8_none [OF assms(1), of "98 # s"] by (simp add: is_digit_def)
  ultimately have zero: "parse_string_packet_in_payload True B N (lit ''0:'' @ r) = Panic"
    and one: "parse_string_packet_in_payload True B N (lit ''1:b'' @ r) = Panic"
    using parse_in_payload_length [OF assms(1), of 0 True B r]
      parse_in_payload_length [OF assms(1), of 1 True B "98 # r"]
      parse_base64_string_packet_Panic [OF assms(1), of 0 True B "98 # r"]
    by (simp_all add: chk_def nom_alt2 [OF assms(1)] parse_plaintext_string_packet_def
        parse_string_packet_def)
  from string_framing.decode_panics [OF assms TrueI zero]
  show "decode_payload True B N (encode_payload B ps @ lit ''0:'' @ r) = Panic"
    by (simp add: parse_defs)
  from string_framing.decode_panics [OF assms TrueI one]
  show "decode_payload True B N (encode_payload B ps @ lit ''1:b'' @ r) = Panic"
    by (simp add: parse_defs)
qed

theorem string_payload_debug_panic_witness:
  "decode_payload True b64_ref (nom_ref is_digit)
     (encode_payload b64_ref [] @ lit ''0:'' @ []) = Panic"
  using string_payload_debug_panic [OF nom_ref_laws] by (metis list.pred_inject(1))

end
