(* ===== verification/Engine_Binary.thy ===== *)
theory Engine_Binary
  imports Engine_Packet Utf8
begin

text \<open>
  \<open>engine_io_parser/src/binary.rs\<close>: the binary encoding of Engine.IO packets and payloads. A packet
  of a payload is a marker byte (0 text, 1 binary), the decimal digits of its length, least
  significant first, the byte 255, the packet type and the data.
\<close>

type_synonym bin_nom = "(u8, packet) nom"

section \<open>Decoding\<close>

definition parse_binary_data_packet ::
  "bin_nom \<Rightarrow> bytes \<Rightarrow> nat option \<Rightarrow> (u8, packet) iresult" where
  "parse_binary_data_packet N input data_length =
     obind (le_u8 N input) (\<lambda>(input, packet_type_index).
     obind (take_n N (case data_length of Some l \<Rightarrow> l | None \<Rightarrow> length input) input) (\<lambda>(input, d).
     obind (parse_from_u8 packet_type_index input) (\<lambda>pt.
       Ok (input, \<lparr>ptype = pt, pdata = packet_data_from_bytes d\<rparr>))))"

definition parse_string_data_packet ::
  "bool \<Rightarrow> bin_nom \<Rightarrow> bytes \<Rightarrow> nat \<Rightarrow> (u8, packet) iresult" where
  "parse_string_data_packet oc N input data_length =
     obind (digit1 N input) (\<lambda>(input, packet_type_ascii).
     obind (take_n N data_length input) (\<lambda>(input, d).
     obind (case packet_type_ascii of [] \<Rightarrow> Panic | a # _ \<Rightarrow> chk oc 8 (uint a - 48)) (\<lambda>code.
     obind (parse_from_u8 (word_of_nat code) input) (\<lambda>pt.
       case from_utf8 d of
         Some _ \<Rightarrow> Ok (input, \<lparr>ptype = pt, pdata = packet_data_from_bytes d\<rparr>)
       | None \<Rightarrow> Err (NFailure input KAlphaNumeric)))))"

text \<open>
  The loop over the digits of the length, from the last, which is the most significant, down. The exponent
  is cast to \<open>u32\<close>.
\<close>

fun packet_length_loop :: "bool \<Rightarrow> bytes \<Rightarrow> nat \<Rightarrow> nat \<Rightarrow> ('e, nat) outcome" where
  "packet_length_loop oc enc 0 packet_length = Ok packet_length"
| "packet_length_loop oc enc (Suc i) packet_length =
     obind (chk oc 32 (10 ^ (i mod 2 ^ 32))) (\<lambda>power.
     obind (chk oc 32 (int power * uint (enc ! i))) (\<lambda>product.
     obind (chk oc 32 (int packet_length + int product)) (\<lambda>packet_length.
       packet_length_loop oc enc i packet_length)))"

definition parse_packet_length :: "bool \<Rightarrow> bin_nom \<Rightarrow> bytes \<Rightarrow> (u8, nat) iresult" where
  "parse_packet_length oc N input =
     obind (take_till1 N (\<lambda>c. c = 255) input) (\<lambda>(input, packet_length_encoded).
       if length packet_length_encoded = 0 then Panic
       else obind (packet_length_loop oc packet_length_encoded (length packet_length_encoded) 0)
              (\<lambda>packet_length. Ok (input, packet_length)))"

definition parse_packet_data_type :: "bin_nom \<Rightarrow> bytes \<Rightarrow> (u8, u8) iresult" where
  "parse_packet_data_type N input =
     obind (take_n N 1 input) (\<lambda>(input, packet_type_arr).
       case packet_type_arr of
         [] \<Rightarrow> Panic
       | t # _ \<Rightarrow> if t = 0 \<or> t = 1 then Ok (input, t) else Err (NFailure input KDigit))"

definition parse_binary_packet_in_payload :: "bool \<Rightarrow> bin_nom \<Rightarrow> bytes \<Rightarrow> (u8, packet) iresult" where
  "parse_binary_packet_in_payload oc N input =
     obind (parse_packet_data_type N input) (\<lambda>(input, packet_data_type).
     obind (parse_packet_length oc N input) (\<lambda>(input, packet_length).
     obind (take_n N 1 input) (\<lambda>(input, _).
     obind (chk oc 64 (int packet_length - 1)) (\<lambda>data_length.
       if packet_data_type = 0
       then obind (parse_string_data_packet oc N input data_length) (\<lambda>(input, p). Ok (input, p))
       else obind (parse_binary_data_packet N input (Some data_length))
              (\<lambda>(input, p). Ok (input, p))))))"

definition parse_binary_payload :: "bool \<Rightarrow> bin_nom \<Rightarrow> bytes \<Rightarrow> (u8, packet list) iresult" where
  "parse_binary_payload oc N input =
     fold_many0 N (parse_binary_packet_in_payload oc N) [] (\<lambda>acc item. acc @ [item]) input"

definition bin_decode_packet :: "bin_nom \<Rightarrow> bytes \<Rightarrow> (parse_packet_error, packet) outcome" where
  "bin_decode_packet N input =
     (case parse_binary_data_packet N input None of
        Ok (_, p) \<Rightarrow> Ok p
      | Err _ \<Rightarrow> Err \<lparr>err_message = lit ''Unable to decode packet''\<rparr>
      | Panic \<Rightarrow> Panic)"

definition bin_decode_payload ::
  "bool \<Rightarrow> bin_nom \<Rightarrow> bytes \<Rightarrow> (parse_packet_error, packet list) outcome" where
  "bin_decode_payload oc N input =
     (case parse_binary_payload oc N input of
        Ok (_, ps) \<Rightarrow> Ok ps
      | Err _ \<Rightarrow> Err \<lparr>err_message = lit ''Unable to decode payload''\<rparr>
      | Panic \<Rightarrow> Panic)"

section \<open>Encoding\<close>

fun length_digits :: "nat \<Rightarrow> bytes \<Rightarrow> bytes" where
  "length_digits val digits =
     (if val > 0 then length_digits (val div 10) (digits @ [word_of_nat (val mod 10)]) else digits)"

declare length_digits.simps [simp del]

definition encode_packet_length :: "nat \<Rightarrow> bytes" where
  "encode_packet_length input = (if input = 0 then [0] else length_digits input [])"

definition bin_serialize_packet :: "packet_type \<Rightarrow> packet_data \<Rightarrow> bytes" where
  "bin_serialize_packet pt d =
     (case d of
        PdText t \<Rightarrow> (packet_type_u8 pt + 48) # as_bytes t
      | PdBinary b \<Rightarrow> packet_type_u8 pt # b
      | PdEmpty \<Rightarrow> [packet_type_u8 pt + 48])"

definition serialize_packet_in_payload :: "packet_type \<Rightarrow> packet_data \<Rightarrow> bytes" where
  "serialize_packet_in_payload pt d =
     (case d of
        PdText t \<Rightarrow> [0] @ encode_packet_length (length (as_bytes t) + 1) @ [255] @
          [packet_type_u8 pt + 48] @ as_bytes t
      | PdBinary b \<Rightarrow> [1] @ encode_packet_length (length b + 1) @ [255] @ [packet_type_u8 pt] @ b
      | PdEmpty \<Rightarrow> [1, 48, 255, packet_type_u8 pt + 48])"

definition bin_serialize_payload :: "packet list \<Rightarrow> bytes" where
  "bin_serialize_payload packets =
     foldl (\<lambda>acc p. acc @ serialize_packet_in_payload (ptype p) (pdata p)) [] packets"

definition bin_encode_packet :: "packet \<Rightarrow> bytes" where
  "bin_encode_packet input = bin_serialize_packet (ptype input) (pdata input)"

definition bin_encode_payload :: "packet list \<Rightarrow> bytes" where
  "bin_encode_payload input = bin_serialize_payload input"

text \<open>The bytes of one packet in a payload.\<close>

abbreviation bin_chunk :: "packet \<Rightarrow> bytes" where
  "bin_chunk p \<equiv> serialize_packet_in_payload (ptype p) (pdata p)"

lemma bin_serialize_payload_concat: "bin_serialize_payload ps = concat (map bin_chunk ps)"
proof -
  have "foldl (\<lambda>acc p. acc @ bin_chunk p) acc ps = acc @ concat (map bin_chunk ps)" for acc
    by (induction ps arbitrary: acc) simp_all
  from this [of "[]"] show ?thesis by (simp add: bin_serialize_payload_def)
qed

section \<open>Lengths\<close>

text \<open>The number written by little-endian digits.\<close>

fun le_val :: "bytes \<Rightarrow> nat" where
  "le_val [] = 0"
| "le_val (d # ds) = unat d + 10 * le_val ds"

lemma le_val_snoc: "le_val (ds @ [d]) = le_val ds + 10 ^ length ds * unat d"
  by (induction ds) (simp_all add: algebra_simps)

lemma length_digits_0 [simp]: "length_digits 0 acc = acc"
  by (subst length_digits.simps) simp

lemma length_digits_acc: "length_digits n acc = acc @ length_digits n []"
proof (induction n arbitrary: acc rule: less_induct)
  case (less n)
  show ?case
  proof (cases "n = 0")
    case True
    then show ?thesis by simp
  next
    case False
    then have "n div 10 < n" by simp
    with False less [of "n div 10" "acc @ [word_of_nat (n mod 10)]"]
      less [of "n div 10" "[word_of_nat (n mod 10)]"]
    show ?thesis by (simp add: length_digits.simps [of n])
  qed
qed

lemma length_digits_step:
  "n > 0 \<Longrightarrow> length_digits n [] = word_of_nat (n mod 10) # length_digits (n div 10) []"
  using length_digits_acc [of "n div 10" "[word_of_nat (n mod 10)]"]
  by (simp add: length_digits.simps [of n])

lemma length_digits_props:
  "le_val (length_digits n []) = n \<and> 255 \<notin> set (length_digits n []) \<and>
   (n < 10 ^ k \<longrightarrow> length (length_digits n []) \<le> k)"
proof (induction n arbitrary: k rule: less_induct)
  case (less n)
  show ?case
  proof (cases "n = 0")
    case True
    then show ?thesis by simp
  next
    case False
    have "unat (word_of_nat (n mod 10) :: u8) = n mod 10"
      by (simp add: unat_of_nat)
    moreover from this have "(255 :: u8) \<noteq> word_of_nat (n mod 10)"
      by (auto dest: arg_cong [of _ _ unat])
    moreover have "n div 10 < 10 ^ (k - 1)" "k \<noteq> 0" if "n < 10 ^ k"
      using that False by (cases k; auto)+
    ultimately show ?thesis
      using False less [of "n div 10" "k - 1"] by (auto simp: length_digits_step [of n])
  qed
qed

lemma encode_packet_length_props:
  "le_val (encode_packet_length n) = n" "255 \<notin> set (encode_packet_length n)"
  "encode_packet_length n \<noteq> []" "n < 2 ^ 32 \<Longrightarrow> length (encode_packet_length n) \<le> 10"
  using length_digits_props [of n 10] length_digits_step [of n]
  by (auto simp: encode_packet_length_def)

lemma chk_pow10: "i < 10 \<Longrightarrow> chk oc 32 (10 ^ i) = Ok (10 ^ i)"
proof -
  assume "i < 10"
  then have "(10::nat) ^ i \<le> 10 ^ 9"
    by (intro power_increasing) simp_all
  then have "chk oc 32 (int (10 ^ i)) = Ok (10 ^ i)"
    by (intro chk_nat) simp
  then show ?thesis by simp
qed

lemma packet_length_step:
  assumes "i < 10" and "acc + 10 ^ i * unat (enc ! i) < 2 ^ 32"
  shows "packet_length_loop oc enc (Suc i) acc =
    packet_length_loop oc enc i (acc + 10 ^ i * unat (enc ! i))"
proof -
  let ?p = "10 ^ i * unat (enc ! i)"
  have "?p < 2 ^ 32" and "acc + ?p < 2 ^ 32"
    using assms(2) by linarith+
  moreover have "i mod 2 ^ 32 = i" using assms(1) by simp
  moreover have "int (10 ^ i) * uint (enc ! i) = int ?p"
    by simp
  ultimately show ?thesis
    by (simp only: packet_length_loop.simps chk_pow10 [OF assms(1)] obind.simps chk_nat
        flip: of_nat_add)
qed

lemma packet_length_loop_ok:
  assumes "i \<le> length enc" and "i \<le> 10" and "acc + le_val (take i enc) < 2 ^ 32"
  shows "packet_length_loop oc enc i acc = Ok (acc + le_val (take i enc))"
  using assms
proof (induction i arbitrary: acc)
  case 0
  then show ?case by simp
next
  case (Suc i)
  have val: "le_val (take (Suc i) enc) = 10 ^ i * unat (enc ! i) + le_val (take i enc)"
    using Suc.prems(1) by (simp add: take_Suc_conv_app_nth le_val_snoc)
  with Suc.prems have "acc + 10 ^ i * unat (enc ! i) < 2 ^ 32"
    and "acc + 10 ^ i * unat (enc ! i) + le_val (take i enc) < 2 ^ 32"
    by linarith+
  with Suc.IH [of "acc + 10 ^ i * unat (enc ! i)"] Suc.prems val show ?case
    by (simp only: packet_length_step) simp
qed
lemma packet_length_parsed:
  assumes "nom_laws is_digit_u8 N" and "n < 2 ^ 32"
  shows "parse_packet_length oc N (encode_packet_length n @ 255 # r) = Ok (255 # r, n)"
proof -
  let ?e = "encode_packet_length n"
  have "takeWhile (\<lambda>c. c \<noteq> 255) (?e @ 255 # r) = ?e"
    and "dropWhile (\<lambda>c. c \<noteq> 255) (?e @ 255 # r) = 255 # r"
    using encode_packet_length_props(2) [of n]
    by (auto intro!: takeWhile_all_append dropWhile_all_append simp: list_all_iff)
  then show ?thesis
    using packet_length_loop_ok [of "length ?e" ?e 0 oc] encode_packet_length_props [of n] assms
    by (simp add: parse_packet_length_def nom_take_till1)
qed

text \<open>
  \<open>parse_packet_length\<close> reads back every length below \<open>2 ^ 32\<close> that \<open>encode_packet_length\<close> wrote,
  up to the separator byte, without overflow.
\<close>

theorem packet_length_roundtrip:
  assumes "nom_laws is_digit_u8 N" and "n < 2 ^ 32"
  shows "parse_packet_length oc N (encode_packet_length n @ 255 # r) = Ok (255 # r, n)"
  by (rule packet_length_parsed [OF assms])

theorem packet_length_roundtrip_witness:
  "parse_packet_length True (nom_ref is_digit_u8) (encode_packet_length 918214 @ 255 # [7]) =
   Ok ([255, 7], 918214)"
  by (rule packet_length_roundtrip [OF nom_ref_laws]) simp

section \<open>What the parsers do\<close>

lemma consuming_binary_packet [consuming_intros]:
  assumes "nom_laws is_digit_u8 N"
  shows "consuming (\<lambda>s. parse_binary_data_packet N s (Some l))"
    and "consuming (\<lambda>s. parse_string_data_packet oc N s l)"
    and "consuming (parse_packet_data_type N)" and "consuming (parse_packet_length oc N)"
  using assms
  unfolding parse_binary_data_packet_def parse_string_data_packet_def parse_packet_data_type_def
    parse_packet_length_def option.case
  by (intro consuming_intros; assumption)+

lemma consuming_binary_in_payload:
  assumes "nom_laws is_digit_u8 N"
  shows "consuming (parse_binary_packet_in_payload oc N)"
  using assms unfolding parse_binary_packet_in_payload_def by (intro consuming_intros)

lemma packet_length_loop_panics: "packet_length_loop True enc (i + 11) acc = Panic"
proof (induction i arbitrary: acc)
  case 0
  have "packet_length_loop True enc (Suc 10) acc = Panic"
    by (simp only: packet_length_loop.simps) (simp add: chk_Panic)
  moreover have "0 + 11 = Suc 10" by simp
  ultimately show ?case by (simp only:)
next
  case (Suc i)
  show ?case
    unfolding add_Suc packet_length_loop.simps Suc.IH by (simp add: chk_def)
qed

text \<open>
  A packet that announces its length with more than ten digits makes \<open>decode_payload\<close> panic when
  overflow checks are on: the power of ten of the first digit it looks at does not fit in 32 bits.
\<close>

theorem packet_length_debug_panic:
  assumes "nom_laws is_digit_u8 N" and "m = 0 \<or> m = 1" and "10 < length ds" and "255 \<notin> set ds"
  shows "bin_decode_payload True N (m # ds @ 255 # r) = Panic"
proof -
  let ?s = "m # ds @ 255 # r"
  have "packet_length_loop True ds (length ds) 0 = Panic"
    using packet_length_loop_panics [of ds "length ds - 11" 0] assms(3) by simp
  moreover have "takeWhile (\<lambda>c. c \<noteq> 255) (ds @ 255 # r) = ds"
    using assms(4) by (auto intro!: takeWhile_all_append simp: list_all_iff)
  moreover have "ds \<noteq> []"
    using assms(3) by auto
  ultimately have "parse_packet_length True N (ds @ 255 # r) = Panic"
    using assms(1) by (simp add: parse_packet_length_def nom_take_till1)
  then have "parse_binary_packet_in_payload True N ?s = Panic"
    using assms(1,2) by (auto simp: parse_binary_packet_in_payload_def parse_packet_data_type_def
        nom_take)
  with nom_fold_many0 [OF assms(1) consuming_binary_in_payload [OF assms(1)]] show ?thesis
    by (simp add: bin_decode_payload_def parse_binary_payload_def)
qed

theorem packet_length_debug_panic_witness:
  "bin_decode_payload True (nom_ref is_digit_u8) (1 # replicate 11 0 @ 255 # [4]) = Panic"
  by (rule packet_length_debug_panic [OF nom_ref_laws]) simp_all

section \<open>Payloads\<close>

text \<open>
  The packets whose binary encoding is read back. The type of a text packet is an ASCII digit and
  the parser takes all the digits it finds there, so the text must not start with one.
\<close>

definition good_binary :: "packet \<Rightarrow> bool" where
  "good_binary p \<longleftrightarrow>
     (case pdata p of
        PdText t \<Rightarrow> str_ok t \<and> \<not> leading_digit t \<and> length (as_bytes t) + 1 < 2 ^ 32
      | PdBinary d \<Rightarrow> length d + 1 < 2 ^ 32
      | PdEmpty \<Rightarrow> False)"

text \<open>What comes back: binary packets as they were, and text packets as the bytes of their text.\<close>

definition bin_image :: "packet \<Rightarrow> packet" where
  "bin_image p =
     (case pdata p of PdText t \<Rightarrow> p\<lparr>pdata := PdBinary (as_bytes t)\<rparr> | _ \<Rightarrow> p)"

definition no_digit_front :: "bytes \<Rightarrow> bool" where
  "no_digit_front r \<longleftrightarrow> \<not> (r \<noteq> [] \<and> is_digit_u8 (hd r))"

lemma no_digit_front_simps [simp]:
  "no_digit_front []" "no_digit_front (0 # r)" "no_digit_front (1 # r)"
  by (simp_all add: no_digit_front_def is_digit_u8_nat is_digit_def)

lemma parse_in_payload_frame:
  assumes N: "nom_laws is_digit_u8 N" and m: "m = 0 \<or> m = 1" and n: "n + 1 < 2 ^ 32"
  shows "parse_binary_packet_in_payload oc N (m # encode_packet_length (n + 1) @ 255 # s) =
    (if m = 0 then parse_string_data_packet oc N s n else parse_binary_data_packet N s (Some n))"
proof -
  have marker: "parse_packet_data_type N (m # t) = Ok (t, m)" for t
    using m by (auto simp: parse_packet_data_type_def nom_take [OF N])
  have "n < 2 ^ 64"
    using n by simp
  then show ?thesis
    using packet_length_parsed [OF N n, of oc s]
    unfolding parse_binary_packet_in_payload_def marker
    by (simp add: nom_take [OF N] chk_nat)
qed

lemma parse_string_data_framed:
  assumes "nom_laws is_digit_u8 N" and "str_ok t" and "\<not> leading_digit t" and "no_digit_front r"
  shows "parse_string_data_packet oc N ((packet_type_u8 pt + 48) # as_bytes t @ r) (length (as_bytes t)) =
    Ok (r, \<lparr>ptype = pt, pdata = PdBinary (as_bytes t)\<rparr>)"
proof -
  let ?c = "packet_type_u8 pt + 48"
  have digit: "list_all is_digit_u8 [?c]"
    using engine_code.small [of pt]
    by (simp add: is_digit_u8_nat is_digit_def engine_code.unat_ascii)
  have rest: "\<not> (as_bytes t @ r \<noteq> [] \<and> is_digit_u8 (hd (as_bytes t @ r)))"
    using as_bytes_leading_digit [OF assms(2)] assms(3,4)
    by (cases "as_bytes t") (auto simp: no_digit_front_def)
  have "digit1 N (?c # as_bytes t @ r) = Ok (as_bytes t @ r, [?c])"
    using nom_digit1_append [OF assms(1) digit _ rest] by simp
  then show ?thesis
    using assms(2) unfolding parse_string_data_packet_def
    by (simp add: nom_take [OF assms(1)] packet_data_from_bytes_def chk_ascii_code)
qed

lemma parse_binary_data_framed:
  assumes "nom_laws is_digit_u8 N"
  shows "parse_binary_data_packet N (packet_type_u8 pt # d @ r) (Some (length d)) =
    Ok (r, \<lparr>ptype = pt, pdata = PdBinary d\<rparr>)"
  using assms by (simp add: parse_binary_data_packet_def nom_simps packet_data_from_bytes_def)

lemma parse_bin_chunk:
  assumes N: "nom_laws is_digit_u8 N" and good: "good_binary p" and r: "no_digit_front r"
  shows "parse_binary_packet_in_payload oc N (bin_chunk p @ r) = Ok (r, bin_image p)"
proof (cases "pdata p")
  case (PdText t)
  with good have "str_ok t" "\<not> leading_digit t" "length (as_bytes t) + 1 < 2 ^ 32"
    by (simp_all add: good_binary_def)
  with PdText show ?thesis
    using parse_in_payload_frame [OF N, of 0 "length (as_bytes t)" oc
        "(packet_type_u8 (ptype p) + 48) # as_bytes t @ r"]
      parse_string_data_framed [OF N _ _ r]
    by (simp add: serialize_packet_in_payload_def bin_image_def)
next
  case (PdBinary d)
  with good have "length d + 1 < 2 ^ 32"
    by (simp add: good_binary_def)
  with PdBinary show ?thesis
    using parse_in_payload_frame [OF N, of 1 "length d" oc "packet_type_u8 (ptype p) # d @ r"]
      parse_binary_data_framed [OF N]
    by (simp add: serialize_packet_in_payload_def bin_image_def)
next
  case PdEmpty
  with good show ?thesis by (simp add: good_binary_def)
qed

interpretation binary_framing: packet_framing is_digit_u8 N bin_chunk
  "parse_binary_packet_in_payload oc N" bin_image good_binary no_digit_front
  for N and oc
proof
  fix p r
  show "good_binary p \<Longrightarrow> bin_chunk p \<noteq> []"
    by (simp add: serialize_packet_in_payload_def split: packet_data.splits)
  show "no_digit_front []" by simp
  show "good_binary p \<Longrightarrow> no_digit_front (bin_chunk p @ r)"
    by (simp add: serialize_packet_in_payload_def split: packet_data.splits)
  assume N: "nom_laws is_digit_u8 N"
  show "consuming (parse_binary_packet_in_payload oc N)"
    by (rule consuming_binary_in_payload [OF N])
  show "parse_binary_packet_in_payload oc N [] = Err (NError [] KDigit) \<or>
      parse_binary_packet_in_payload oc N [] = Err (NError [] KEof)"
    by (simp add: parse_binary_packet_in_payload_def parse_packet_data_type_def nom_take [OF N])
  show "good_binary p \<Longrightarrow> no_digit_front r \<Longrightarrow>
      parse_binary_packet_in_payload oc N (bin_chunk p @ r) = Ok (r, bin_image p)"
    by (rule parse_bin_chunk [OF N])
qed

lemmas bin_payload_defs = bin_decode_payload_def parse_binary_payload_def bin_encode_payload_def
  bin_serialize_payload_concat

text \<open>
  C2: Decoding an encoded binary payload gives as many packets, of the same types, with the same bytes
  and in the same order, with and without overflow checks. Binary packets come back as they were; a
  text packet comes back as a binary packet with the bytes of its text, because \<open>decode_payload\<close> checks
  that they are UTF-8 and then wraps them as \<open>Binary\<close> (its documentation, the example in it and a test
  expect the text). This holds if every packet has data of less than \<open>2 ^ 32 - 1\<close> bytes, and every text
  is valid Unicode and does not start with a digit.
\<close>

theorem binary_payload_roundtrip:
  assumes "nom_laws is_digit_u8 N" and "list_all good_binary ps"
  shows "bin_decode_payload oc N (bin_encode_payload ps) = Ok (map bin_image ps)"
  using binary_framing.decode_payload [OF assms] by (simp add: bin_payload_defs)

theorem binary_payload_roundtrip_witness:
  "bin_decode_payload True (nom_ref is_digit_u8) (bin_encode_payload
     [\<lparr>ptype = PtMessage, pdata = PdText [0x20AC]\<rparr>, \<lparr>ptype = PtMessage, pdata = PdBinary [1, 2]\<rparr>]) =
   Ok [\<lparr>ptype = PtMessage, pdata = PdBinary [226, 130, 172]\<rparr>,
       \<lparr>ptype = PtMessage, pdata = PdBinary [1, 2]\<rparr>]"
proof -
  let ?ps = "[\<lparr>ptype = PtMessage, pdata = PdText [0x20AC]\<rparr>,
    \<lparr>ptype = PtMessage, pdata = PdBinary [1, 2]\<rparr>]"
  have "list_all good_binary ?ps"
    by (simp add: good_binary_def scalar_def is_digit_def as_bytes_def utf8_char_def)
  from binary_payload_roundtrip [OF nom_ref_laws this, of True] show ?thesis
    by (simp add: bin_image_def as_bytes_def utf8_char_def)
qed

text \<open>
  C38: A packet without data ends a binary payload: its encoding \<open>[1, '0', 255, ...]\<close> announces 48
  bytes and a type the parser does not know, so \<open>decode_payload\<close> returns the packets before it and
  silently drops it and all that follow.
\<close>

theorem binary_payload_empty_truncates:
  assumes "nom_laws is_digit_u8 N" and "list_all good_binary ps" and "pdata p = PdEmpty"
  shows "bin_decode_payload oc N (bin_encode_payload (ps @ p # qs)) = Ok (map bin_image ps)"
proof -
  let ?r = "bin_chunk p @ concat (map bin_chunk qs)"
  have "encode_packet_length 48 \<noteq> [] \<and> takeWhile (\<lambda>c. c \<noteq> 255) (48 # 255 # s) = [48 :: u8]" for s
    by (simp add: encode_packet_length_props)
  then have "parse_packet_length oc N (48 # 255 # s) = Ok (255 # s, 48)" for s
    using assms(1) by (simp add: parse_packet_length_def nom_take_till1 chk_fits)
  then have "\<exists>i k. parse_binary_packet_in_payload oc N ?r = Err (NError i k)"
    using assms(1,3)
    by (auto simp: serialize_packet_in_payload_def parse_binary_packet_in_payload_def nom_simps
        parse_packet_data_type_def chk_fits parse_binary_data_packet_def)
  then obtain i k where "parse_binary_packet_in_payload oc N ?r = Err (NError i k)"
    by blast
  moreover have "no_digit_front ?r"
    using assms(3) by (simp add: serialize_packet_in_payload_def)
  ultimately show ?thesis
    using binary_framing.decode_stops [OF assms(1,2)] by (simp add: bin_payload_defs)
qed

theorem binary_payload_empty_truncates_witness:
  "bin_decode_payload False (nom_ref is_digit_u8) (bin_encode_payload
     ([\<lparr>ptype = PtMessage, pdata = PdBinary [1]\<rparr>] @ \<lparr>ptype = PtPong, pdata = PdEmpty\<rparr> #
      [\<lparr>ptype = PtMessage, pdata = PdBinary [2]\<rparr>])) =
   Ok (map bin_image [\<lparr>ptype = PtMessage, pdata = PdBinary [1]\<rparr>])"
  by (rule binary_payload_empty_truncates [OF nom_ref_laws]) (simp_all add: good_binary_def)

section \<open>Single packets\<close>

text \<open>
  The binary packet codec is a round trip for binary packets only: \<open>encode_packet\<close> writes the
  type of every other packet as an ASCII digit, which \<open>decode_packet\<close> refuses.
\<close>

theorem binary_packet_roundtrip_iff:
  assumes "nom_laws is_digit_u8 N"
  shows "bin_decode_packet N (bin_encode_packet p) =
    (case pdata p of
       PdBinary _ \<Rightarrow> Ok p
     | _ \<Rightarrow> Err \<lparr>err_message = lit ''Unable to decode packet''\<rparr>)"
  using assms
  by (simp add: bin_decode_packet_def bin_encode_packet_def bin_serialize_packet_def
      parse_binary_data_packet_def nom_simps packet_data_from_bytes_def split: packet_data.splits)

theorem binary_packet_roundtrip_iff_witness:
  "bin_decode_packet (nom_ref is_digit_u8)
     (bin_encode_packet \<lparr>ptype = PtMessage, pdata = PdBinary [16, 8]\<rparr>) =
   Ok \<lparr>ptype = PtMessage, pdata = PdBinary [16, 8]\<rparr>"
  by (subst binary_packet_roundtrip_iff [OF nom_ref_laws]) simp

section \<open>Panics\<close>

lemma packet_length_loop_release: "packet_length_loop False enc i acc \<noteq> Panic"
  by (induction i arbitrary: acc) (auto simp: chk_Panic)

lemma parse_bin_in_payload_release:
  assumes N: "nom_laws is_digit_u8 N"
  shows "parse_binary_packet_in_payload False N s \<noteq> Panic"
proof -
  have "parse_packet_data_type N i \<noteq> Panic" for i
    using N by (cases i) (auto simp: parse_packet_data_type_def nom_take)
  moreover have "parse_packet_length False N i \<noteq> Panic" for i
    using N by (auto simp: parse_packet_length_def nom_take_till1 packet_length_loop_release)
  moreover have "parse_string_data_packet False N i l \<noteq> Panic" for i l
    using N by (auto simp: parse_string_data_packet_def nom_simps chk_Panic
        split: list.splits option.splits)
  moreover have "parse_binary_data_packet N i l \<noteq> Panic" for i l
    using nom_no_Panic [OF N] by (auto simp: parse_binary_data_packet_def)
  ultimately show ?thesis
    using nom_no_Panic(2) [OF N] by (auto simp: parse_binary_packet_in_payload_def chk_Panic)
qed

text \<open>With overflow checks off no input makes the two binary decoders panic.\<close>

theorem binary_decoders_release_no_panic:
  assumes "nom_laws is_digit_u8 N"
  shows "bin_decode_packet N s \<noteq> Panic \<and> bin_decode_payload False N s \<noteq> Panic"
proof
  have "parse_binary_data_packet N s None \<noteq> Panic"
    using nom_no_Panic [OF assms] by (auto simp: parse_binary_data_packet_def)
  then show "bin_decode_packet N s \<noteq> Panic"
    by (auto simp: bin_decode_packet_def split: outcome.splits)
  have "parse_binary_payload False N s \<noteq> Panic"
    unfolding parse_binary_payload_def
    by (rule fold_many0_no_Panic [OF assms consuming_binary_in_payload [OF assms]])
      (rule parse_bin_in_payload_release [OF assms])
  then show "bin_decode_payload False N s \<noteq> Panic"
    by (auto simp: bin_decode_payload_def split: outcome.splits)
qed

theorem binary_decoders_release_no_panic_witness:
  "bin_decode_payload False (nom_ref is_digit_u8) (1 # replicate 11 9 @ 255 # [4]) \<noteq> Panic"
  using binary_decoders_release_no_panic [OF nom_ref_laws] by blast

end
