(* ===== verification/Engine_Decoder.thy ===== *)
theory Engine_Decoder
  imports Engine_String Engine_Binary
begin

text \<open>
  \<open>engine_io_parser/src/decoder.rs\<close>: one entry point for both encodings of a single packet, used by
  the WebSocket transport for the frames it receives.
\<close>

datatype encoded = EncText rstring | EncBinary bytes

fun decode_encoded :: "str_nom \<Rightarrow> bin_nom \<Rightarrow> encoded \<Rightarrow> (parse_packet_error, packet) outcome" where
  "decode_encoded Ns Nb (EncText text) = decode_packet Ns text"
| "decode_encoded Ns Nb (EncBinary binary) = bin_decode_packet Nb binary"

text \<open>
  C29: With overflow checks off no input whatever makes a decoder panic, neither a frame nor a payload,
  as text or in binary.
\<close>

theorem decoders_release_no_panic:
  assumes "nom_laws is_digit Ns" and "nom_laws is_digit_u8 Nb"
  shows "decode_encoded Ns Nb e \<noteq> Panic \<and> decode_payload False B Ns s \<noteq> Panic \<and>
    bin_decode_payload False Nb d \<noteq> Panic"
  using string_decoders_release_no_panic [OF assms(1)] binary_decoders_release_no_panic [OF assms(2)]
  by (cases e) simp_all

theorem decoders_release_no_panic_witness:
  "decode_payload False b64_ref (nom_ref is_digit) (lit ''0:4'') \<noteq> Panic"
  using decoders_release_no_panic [OF nom_ref_laws nom_ref_laws] by blast

section \<open>The size of what is decoded\<close>

definition data_size :: "packet \<Rightarrow> nat" where
  "data_size p = (case pdata p of PdText t \<Rightarrow> length t | PdBinary d \<Rightarrow> length d | PdEmpty \<Rightarrow> 0)"

definition base64_shrinks :: "base64 \<Rightarrow> bool" where
  "base64_shrinks B \<longleftrightarrow> (\<forall>t d. b64_decode B t = Some d \<longrightarrow> length d \<le> length t)"

lemma take_u8_size: "nom_laws is_digit N \<Longrightarrow> take_u8 N s = Ok (s', n) \<Longrightarrow> Suc (length s') \<le> length s"
  by (auto simp: take_u8_def split: option.splits dest: digit1_size)

lemma take_usize_size: "nom_laws is_digit N \<Longrightarrow> take_usize N s = Ok (s', n) \<Longrightarrow> Suc (length s') \<le> length s"
  by (auto simp: take_usize_def split: option.splits dest: digit1_size)

lemma plaintext_size:
  assumes "nom_laws is_digit N" and "parse_plaintext_string_packet N l s = Ok (s', p)"
  shows "1 + data_size p + length s' \<le> length s"
  using assms(2)
  by (auto simp: parse_plaintext_string_packet_def parse_string_packet_def data_size_def
      dest!: take_u8_size [OF assms(1)] take_n_size [OF assms(1)])

lemma base64_size:
  assumes "nom_laws is_digit N" and "base64_shrinks B" and "parse_base64_string_packet oc B N l s = Ok (s', p)"
  shows "1 + data_size p + length s' \<le> length s"
  using assms(2,3)
  by (fastforce simp: parse_base64_string_packet_def data_size_def base64_shrinks_def packet_data_from_bytes_def
      split: option.splits
      dest!: take_u8_size [OF assms(1)] take_n_size [OF assms(1)] nom_char_size [OF assms(1)])

lemma string_in_payload_size:
  assumes "nom_laws is_digit N" and "base64_shrinks B"
    and "parse_string_packet_in_payload oc B N s = Ok (s', p)"
  shows "3 + data_size p + length s' \<le> length s"
proof -
  from assms(3) obtain s1 l s2 c l' where
    "take_usize N s = Ok (s1, l)" "nom_char N 58 s1 = Ok (s2, c)" and
    alt: "alt2 N (parse_plaintext_string_packet N l') (parse_base64_string_packet oc B N l') s2 = Ok (s', p)"
    by (auto simp: parse_string_packet_in_payload_def)
  then have "length s2 + 2 \<le> length s" using take_usize_size [OF assms(1)] nom_char_size [OF assms(1)] by fastforce
  moreover have "1 + data_size p + length s' \<le> length s2"
    using alt by (auto simp: nom_alt2 [OF assms(1)] split: outcome.splits nom_err.splits
        dest: plaintext_size [OF assms(1)] base64_size [OF assms(1,2)])
  ultimately show ?thesis by simp
qed

lemma packet_length_size:
  "nom_laws is_digit_u8 N \<Longrightarrow> parse_packet_length oc N s = Ok (s', n) \<Longrightarrow> Suc (length s') \<le> length s"
  by (auto simp: parse_packet_length_def nom_take_till1 span_rest split: if_split_asm)

lemma data_type_size:
  "nom_laws is_digit_u8 N \<Longrightarrow> parse_packet_data_type N s = Ok (s', n) \<Longrightarrow> Suc (length s') \<le> length s"
  by (auto simp: parse_packet_data_type_def case_Ok split: if_split_asm dest!: take_n_size)

lemma bin_packet_size:
  assumes "nom_laws is_digit_u8 N"
  shows "parse_binary_data_packet N s (Some l) = Ok (s', p) \<Longrightarrow> 1 + data_size p + length s' \<le> length s"
    and "parse_string_data_packet oc N s l = Ok (s', p) \<Longrightarrow> 1 + data_size p + length s' \<le> length s"
  using assms
  by (auto simp: parse_binary_data_packet_def parse_string_data_packet_def data_size_def packet_data_from_bytes_def
      nom_le_u8 case_Ok dest: digit1_size [OF assms] dest!: take_n_size [OF assms])

lemma binary_in_payload_size:
  assumes "nom_laws is_digit_u8 N" and "parse_binary_packet_in_payload oc N s = Ok (s', p)"
  shows "4 + data_size p + length s' \<le> length s"
proof -
  from assms(2) obtain s1 t s2 n s3 x where
    "parse_packet_data_type N s = Ok (s1, t)" "parse_packet_length oc N s1 = Ok (s2, n)" "take_n N 1 s2 = Ok (s3, x)"
    and last: "\<exists>l. parse_string_data_packet oc N s3 l = Ok (s', p) \<or> parse_binary_data_packet N s3 (Some l) = Ok (s', p)"
    by (auto simp: parse_binary_packet_in_payload_def split: if_split_asm) blast+
  then have "length s3 + 3 \<le> length s"
    using data_type_size [OF assms(1)] packet_length_size [OF assms(1)] take_n_size [OF assms(1)] by fastforce
  moreover have "1 + data_size p + length s' \<le> length s3" using last bin_packet_size [OF assms(1)] by blast
  ultimately show ?thesis by simp
qed

text \<open>
  C30: What a decoder makes of a payload is no larger than the payload: with three characters for each
  packet of a text payload, and four bytes for each packet of a binary one, the packets and all their
  data fit into the input, whatever lengths it announces. A frame is one character or byte longer than
  its data.
\<close>

theorem decoded_payload_bounded:
  assumes "nom_laws is_digit Ns" and "nom_laws is_digit_u8 Nb" and "base64_shrinks B"
  shows "(decode_payload oc B Ns s = Ok ps \<longrightarrow> 3 * length ps + sum_list (map data_size ps) \<le> length s) \<and>
    (bin_decode_payload oc Nb d = Ok ps \<longrightarrow> 4 * length ps + sum_list (map data_size ps) \<le> length d) \<and>
    (decode_encoded Ns Nb e = Ok p \<longrightarrow>
       1 + data_size p \<le> (case e of EncText text \<Rightarrow> length text | EncBinary binary \<Rightarrow> length binary))"
proof (intro conjI impI)
  have sum: "sum_list (map (\<lambda>p. k + data_size p) ps) = k * length ps + sum_list (map data_size ps)" for k
    by (induction ps) simp_all
  show "3 * length ps + sum_list (map data_size ps) \<le> length s" if "decode_payload oc B Ns s = Ok ps"
  proof -
    from that obtain s' where "fold_many0 Ns (parse_string_packet_in_payload oc B Ns) [] (\<lambda>acc x. acc @ [x]) s = Ok (s', ps)"
      by (auto simp: decode_payload_def parse_string_payload_def split: outcome.splits)
    from fold_many0_size [OF assms(1) consuming_packet_in_payload [OF assms(1)] _ this, of "\<lambda>p. 3 + data_size p"]
      string_in_payload_size [OF assms(1,3)]
    show ?thesis by (simp add: sum)
  qed
  show "4 * length ps + sum_list (map data_size ps) \<le> length d" if "bin_decode_payload oc Nb d = Ok ps"
  proof -
    from that obtain s' where "fold_many0 Nb (parse_binary_packet_in_payload oc Nb) [] (\<lambda>acc x. acc @ [x]) d = Ok (s', ps)"
      by (auto simp: bin_decode_payload_def parse_binary_payload_def split: outcome.splits)
    from fold_many0_size [OF assms(2) consuming_binary_in_payload [OF assms(2)] _ this, of "\<lambda>p. 4 + data_size p"]
      binary_in_payload_size [OF assms(2)]
    show ?thesis by (simp add: sum)
  qed
  assume e: "decode_encoded Ns Nb e = Ok p"
  show "1 + data_size p \<le> (case e of EncText text \<Rightarrow> length text | EncBinary binary \<Rightarrow> length binary)"
  proof (cases e)
    case (EncText t)
    with e show ?thesis
      by (auto simp: decode_packet_def parse_string_packet_def data_size_def split: outcome.splits
          dest!: take_u8_size [OF assms(1)])
  next
    case (EncBinary binary)
    with e show ?thesis
      by (auto simp: bin_decode_packet_def parse_binary_data_packet_def data_size_def packet_data_from_bytes_def
          nom_le_u8 [OF assms(2)] split: outcome.splits list.splits dest!: take_n_size [OF assms(2)])
  qed
qed

lemma b64_ref_shrinks: "base64_shrinks b64_ref"
proof -
  have "unpair_ref t = Some d \<Longrightarrow> length d \<le> length t" for t d
    by (induction t arbitrary: d rule: unpair_ref.induct) auto
  then show ?thesis by (simp add: base64_shrinks_def b64_ref_def)
qed

theorem decoded_payload_bounded_witness:
  "length [\<lparr>ptype = PtMessage, pdata = PdText (lit ''hello'')\<rparr>] * 3 + 5 \<le>
     length (encode_payload b64_ref [\<lparr>ptype = PtMessage, pdata = PdText (lit ''hello'')\<rparr>])"
proof -
  have "decode_payload True b64_ref (nom_ref is_digit) (encode_payload b64_ref
      [\<lparr>ptype = PtMessage, pdata = PdText (lit ''hello'')\<rparr>]) = Ok [\<lparr>ptype = PtMessage, pdata = PdText (lit ''hello'')\<rparr>]"
    by (rule string_payload_framed [OF nom_ref_laws]) (simp add: good_string_def text_framed_def lit_def is_digit_def)
  then show ?thesis
    using decoded_payload_bounded [OF nom_ref_laws nom_ref_laws b64_ref_shrinks, THEN conjunct1]
    by (fastforce simp: data_size_def lit_def)
qed

end
