(* ===== verification/Sio_Encoder.thy ===== *)
theory Sio_Encoder
  imports Serde_Ref Engine_Packet
begin

text \<open>
  \<open>socket_io_parser/src/encoder.rs\<close>: a packet is split into a JSON header, in which every binary value
  is replaced by a placeholder, and the list of the binary values, its attachments. The shared
  \<open>Rc<RefCell<Vec<Bytes>>>\<close> of the code is the list passed along.
\<close>

record encoded_packet =
  ep_packet :: rstring
  ep_attachments :: "bytes list"

definition encoded_into_engine :: "encoded_packet \<Rightarrow> packet list" where
  "encoded_into_engine encoded =
     [\<lparr>ptype = PtMessage, pdata = PdText (ep_packet encoded)\<rparr>] @
     map (\<lambda>attachment. \<lparr>ptype = PtMessage, pdata = PdBinary attachment\<rparr>) (ep_attachments encoded)"

definition make_placeholder :: "'n serde \<Rightarrow> nat \<Rightarrow> 'n json" where
  "make_placeholder S index =
     JObject [(lit ''_placeholder'', JBool True), (lit ''num'', JNumber (of_u64 S index))]"

text \<open>
  The three functions are the one of the code: \<open>deconstruct_list\<close> and \<open>deconstruct_entries\<close> are the
  two \<open>map\<close>s over the elements of an array and the entries of an object, whose keys are discarded.
\<close>

fun deconstruct :: "'n serde \<Rightarrow> 'n pvalue \<Rightarrow> bytes list \<Rightarrow> 'n json \<times> bytes list"
  and deconstruct_list :: "'n serde \<Rightarrow> 'n pvalue list \<Rightarrow> bytes list \<Rightarrow> 'n json list \<times> bytes list"
  and deconstruct_entries ::
    "'n serde \<Rightarrow> (rstring \<times> 'n pvalue) list \<Rightarrow> bytes list \<Rightarrow> 'n json list \<times> bytes list"
where
  "deconstruct S VNull att = (JNull, att)"
| "deconstruct S (VBool value) att = (JBool value, att)"
| "deconstruct S (VNumber value) att = (JNumber value, att)"
| "deconstruct S (VString value) att = (JString value, att)"
| "deconstruct S (VArray array) att =
     (let (js, att) = deconstruct_list S array att in (JArray js, att))"
| "deconstruct S (VObject obj) att =
     (let (js, att) = deconstruct_entries S obj att in (from_iter S js, att))"
| "deconstruct S (VBinary d) att = (make_placeholder S (length att), att @ [d])"
| "deconstruct_list S [] att = ([], att)"
| "deconstruct_list S (el # els) att =
     (let (j, att) = deconstruct S el att;
          (js, att) = deconstruct_list S els att
      in (j # js, att))"
| "deconstruct_entries S [] att = ([], att)"
| "deconstruct_entries S ((_, v) # kvs) att =
     (let (j, att) = deconstruct S v att;
          (js, att) = deconstruct_entries S kvs att
      in (j # js, att))"

definition sio_encode_packet :: "'n serde \<Rightarrow> 'n sio_packet \<Rightarrow> (unit, encoded_packet) outcome" where
  "sio_encode_packet S p =
     (let pt = dec (unat (sio_type_u8 (sp_type p)));
          (header, attachments) = deconstruct S (sp_data p) [];
          attachments_count = dec (length attachments);
          buffer = pt @
            (if sp_type p = TBinaryEvent \<or> sp_type p = TBinaryAck
             then attachments_count @ lit ''-'' else []) @
            (if sp_nsp p \<noteq> lit ''/'' then sp_nsp p @ lit '','' else []) @
            (case sp_id p of Some i \<Rightarrow> dec i | None \<Rightarrow> [])
      in if header \<noteq> JNull
         then obind (unwrap_opt (to_json_string S header)) (\<lambda>serialized.
                Ok \<lparr>ep_packet = buffer @ serialized, ep_attachments = attachments\<rparr>)
         else Ok \<lparr>ep_packet = buffer, ep_attachments = attachments\<rparr>)"

section \<open>What becomes of the data\<close>

text \<open>The binary values of some data, in the order in which they occur.\<close>

fun binaries :: "'n pvalue \<Rightarrow> bytes list" where
  "binaries (VArray xs) = concat (map binaries xs)"
| "binaries (VObject obj) = concat (map (binaries \<circ> snd) obj)"
| "binaries (VBinary d) = [d]"
| "binaries _ = []"

text \<open>Data without objects.\<close>

fun object_free :: "'n pvalue \<Rightarrow> bool" where
  "object_free (VArray xs) = list_all object_free xs"
| "object_free (VObject obj) = False"
| "object_free _ = True"

lemma deconstruct_attachments:
  "snd (deconstruct S v att) = att @ binaries v"
  "snd (deconstruct_list S vs att) = att @ concat (map binaries vs)"
  "snd (deconstruct_entries S kvs att) = att @ concat (map (binaries \<circ> snd) kvs)"
  by (induction S v att and S vs att and S kvs att
      rule: deconstruct_deconstruct_list_deconstruct_entries.induct)
    (auto simp: Let_def comp_def split: prod.splits)

lemma deconstruct_entries_list: "deconstruct_entries S kvs att = deconstruct_list S (map snd kvs) att"
  by (induction kvs arbitrary: att) (auto simp: Let_def split: prod.splits)

text \<open>The JSON header is null for null data only, so nothing else is left out of the text.\<close>

lemma deconstruct_null:
  assumes "serde_laws S"
  shows "fst (deconstruct S v att) = JNull \<longleftrightarrow> v = VNull"
  by (cases v) (simp_all add: make_placeholder_def serde_from_iter [OF assms] split: prod.splits)

text \<open>
  Encoding takes the binary values out of the data in the order in which they occur, and they are
  the attachments: the Engine.IO packets of an encoded packet are one text packet followed by one
  binary packet for each binary value, none lost and none duplicated.
\<close>

theorem encode_attachments:
  assumes "sio_encode_packet S p = Ok e"
  shows "encoded_into_engine e =
    \<lparr>ptype = PtMessage, pdata = PdText (ep_packet e)\<rparr> #
    map (\<lambda>d. \<lparr>ptype = PtMessage, pdata = PdBinary d\<rparr>) (binaries (sp_data p))"
  using assms deconstruct_attachments(1) [of S "sp_data p" "[]"]
  by (auto simp: sio_encode_packet_def encoded_into_engine_def Let_def split: prod.splits if_splits)

theorem encode_attachments_witness:
  "encoded_into_engine \<lparr>ep_packet = lit ''51-'', ep_attachments = [[7, 8]]\<rparr> =
   [\<lparr>ptype = PtMessage, pdata = PdText (lit ''51-'')\<rparr>, \<lparr>ptype = PtMessage, pdata = PdBinary [7, 8]\<rparr>]"
  (is ?eq)
proof -
  let ?S = "\<lparr>as_u64 = (\<lambda>n. Some n), of_u64 = (\<lambda>n. n), is_integer = (\<lambda>n. True), from_iter = JArray,
    to_json_string = (\<lambda>_. Some []), from_json_str = (\<lambda>_. None)\<rparr> :: nat serde"
  have "sio_encode_packet ?S
      \<lparr>sp_type = TBinaryEvent, sp_id = None, sp_nsp = lit ''/'', sp_data = VBinary [7, 8]\<rparr> =
    Ok \<lparr>ep_packet = lit ''51-'', ep_attachments = [[7, 8]]\<rparr>"
    by (simp add: sio_encode_packet_def dec_small lit_def make_placeholder_def)
  from encode_attachments [OF this] show ?eq by simp
qed

text \<open>
  The keys of every object are lost on encoding: a packet whose data is an object is encoded to
  the same text and attachments as the packet whose data is the array of the object's values.
\<close>

theorem encode_object_as_array:
  assumes "serde_laws S"
  shows "sio_encode_packet S (p\<lparr>sp_data := VObject obj\<rparr>) =
    sio_encode_packet S (p\<lparr>sp_data := VArray (map snd obj)\<rparr>)"
  by (simp add: sio_encode_packet_def deconstruct_entries_list serde_from_iter [OF assms]
      split: prod.splits)

theorem encode_object_as_array_witness:
  "sio_encode_packet serde_ref \<lparr>sp_type = TEvent, sp_id = None, sp_nsp = lit ''/'',
     sp_data = VObject [(lit ''k'', VBool True)]\<rparr> =
   (sio_encode_packet serde_ref \<lparr>sp_type = TEvent, sp_id = None, sp_nsp = lit ''/'',
     sp_data = VArray [VBool True]\<rparr> :: (unit, encoded_packet) outcome)"
  using encode_object_as_array [OF serde_ref_laws, where
      p = "\<lparr>sp_type = TEvent, sp_id = None, sp_nsp = lit ''/'', sp_data = VNull\<rparr>" and
      obj = "[(lit ''k'', VBool True)]"]
  by simp

end
