(* ===== verification/Sio_Decoder.thy ===== *)
theory Sio_Decoder
  imports Sio_Encoder Engine_String
begin

text \<open>
  \<open>socket_io_parser/src/decoder.rs\<close>: the parser of a text frame, and the decoder that collects the
  attachments of a multipart packet. \<open>nom\<close> and \<open>serde_json\<close> are the parameters \<open>N\<close> and \<open>S\<close>, and \<open>oc\<close>
  says whether overflow checks are on.
\<close>

datatype handle_error =
  InvalidPacketType | PacketParseError | InvalidPayload | JsonParseError | TooManyAttachments

text \<open>Printing one of them is \<open>todo!()\<close>.\<close>

definition handle_error_string :: "handle_error \<Rightarrow> ('f, rstring) outcome" where
  "handle_error_string _ = Panic"

section \<open>Numbers\<close>

definition to_digit :: "uchar \<Rightarrow> nat option" where
  "to_digit ch = (if is_digit ch then Some (digit_val ch) else None)"

text \<open>The closure of \<open>try_fold\<close>, over the characters from position \<open>order\<close> on.\<close>

fun fold_digits :: "bool \<Rightarrow> nat \<Rightarrow> nat \<Rightarrow> nat \<Rightarrow> rstring \<Rightarrow> (unit, nat) outcome" where
  "fold_digits oc digit_count order acc [] = Ok acc"
| "fold_digits oc digit_count order acc (ch # chs) =
     obind (ok_or () (to_digit ch)) (\<lambda>d.
     obind (chk oc 32 (int digit_count - int (order mod 2 ^ 32))) (\<lambda>e.
     obind (chk oc 32 (10 ^ e)) (\<lambda>p.
     obind (chk oc 32 (int d * int p)) (\<lambda>m.
     obind (chk oc 32 (int acc + int m)) (\<lambda>acc.
       fold_digits oc digit_count (order + 1) acc chs)))))"

definition digits_to_u32 :: "bool \<Rightarrow> rstring \<Rightarrow> (unit, nat) outcome" where
  "digits_to_u32 oc digits =
     (let digit_count = length digits mod 2 ^ 32
      in fold_digits oc digit_count 0 0 digits)"

definition digits_to_u64 :: "bool \<Rightarrow> rstring \<Rightarrow> (unit, nat) outcome" where
  "digits_to_u64 oc digits = obind (digits_to_u32 oc digits) (\<lambda>num. Ok num)"

section \<open>The text frame\<close>

definition sio_take_u8 :: "(uchar, 'o) nom \<Rightarrow> rstring \<Rightarrow> (uchar, u8) iresult" where
  "sio_take_u8 N input =
     obind (digit1 N input) (\<lambda>(input, num).
       case parse_uint 8 num of
         Some n \<Rightarrow> Ok (input, word_of_nat n)
       | None \<Rightarrow> Err (NFailure input KDigit))"

definition parse_attachments_count :: "bool \<Rightarrow> (uchar, 'o) nom \<Rightarrow> rstring \<Rightarrow> (uchar, nat) iresult" where
  "parse_attachments_count oc N input =
     obind (digit1 N input) (\<lambda>(input, digits).
     obind (nom_char N 45 input) (\<lambda>(input, _).
     obind (map_err (\<lambda>_. NFailure input KDigit) (digits_to_u32 oc digits)) (\<lambda>count.
       Ok (input, count))))"

definition parse_namespace :: "(uchar, 'o) nom \<Rightarrow> rstring \<Rightarrow> (uchar, rstring) iresult" where
  "parse_namespace N input =
     (let orig_input = input
      in case nom_char N 47 input of
           Ok _ \<Rightarrow>
             obind (take_till1 N (\<lambda>c. c = 44) orig_input) (\<lambda>(input, namespace).
             obind (take_n N 1 input) (\<lambda>(input, _).
               Ok (input, namespace)))
         | Err _ \<Rightarrow> Ok (input, lit ''/'')
         | Panic \<Rightarrow> Panic)"

definition parse_id :: "bool \<Rightarrow> (uchar, 'o) nom \<Rightarrow> rstring \<Rightarrow> (uchar, nat option) iresult" where
  "parse_id oc N input =
     (case digit1 N input of
        Ok (input, digits) \<Rightarrow>
          obind (nom_char N 45 input) (\<lambda>(input, _).
          obind (map_err (\<lambda>_. NFailure input KDigit) (digits_to_u64 oc digits)) (\<lambda>i.
            Ok (input, Some i)))
      | Err _ \<Rightarrow> Ok (input, None)
      | Panic \<Rightarrow> Panic)"

definition is_payload_valid :: "sio_type \<Rightarrow> 'n json \<Rightarrow> bool" where
  "is_payload_valid packet_type payload =
     (case packet_type of
        TConnect \<Rightarrow> (case payload of JObject _ \<Rightarrow> True | _ \<Rightarrow> False)
      | TDisconnect \<Rightarrow> (case payload of JNull \<Rightarrow> True | _ \<Rightarrow> False)
      | TConnectError \<Rightarrow> (case payload of JString _ \<Rightarrow> True | JObject _ \<Rightarrow> True | _ \<Rightarrow> False)
      | TEvent \<Rightarrow> (case payload of JArray (JString _ # _) \<Rightarrow> True | _ \<Rightarrow> False)
      | TBinaryEvent \<Rightarrow> (case payload of JArray (JString _ # _) \<Rightarrow> True | _ \<Rightarrow> False)
      | TAck \<Rightarrow> (case payload of JArray _ \<Rightarrow> True | _ \<Rightarrow> False)
      | TBinaryAck \<Rightarrow> (case payload of JArray _ \<Rightarrow> True | _ \<Rightarrow> False))"

definition parse_json_data :: "'n serde \<Rightarrow> rstring \<Rightarrow> sio_type \<Rightarrow> (uchar, 'n json) iresult" where
  "parse_json_data S input packet_type =
     (let payload = (case from_json_str S input of Some payload \<Rightarrow> payload | None \<Rightarrow> JNull)
      in if is_payload_valid packet_type payload then Ok (input, payload)
         else Err (NFailure input KSatisfy))"

definition parse_proto_packet ::
  "bool \<Rightarrow> (uchar, 'o) nom \<Rightarrow> 'n serde \<Rightarrow> rstring \<Rightarrow> (uchar, 'n proto_packet) iresult" where
  "parse_proto_packet oc N S input =
     obind (sio_take_u8 N input) (\<lambda>(input, packet_type_index).
     obind (sio_parse_from_u8 packet_type_index input) (\<lambda>packet_type.
     obind (case try_into_binary packet_type of
              Ok _ \<Rightarrow> parse_attachments_count oc N input
            | Err _ \<Rightarrow> Ok (input, 0)
            | Panic \<Rightarrow> Panic) (\<lambda>(input, attachments_count).
     obind (parse_namespace N input) (\<lambda>(input, namespace).
     obind (parse_id oc N input) (\<lambda>(input, i).
     obind (parse_json_data S input packet_type) (\<lambda>(input, payload).
       if attachments_count > 0
       then (case try_into_binary packet_type of
               Ok bt \<Rightarrow>
                 Ok (input, Multipart \<lparr>mh_type = bt, mh_id = i, mh_nsp = Some namespace,
                                       mh_data = payload, mh_count = attachments_count\<rparr>)
             | Err _ \<Rightarrow> Panic
             | Panic \<Rightarrow> Panic)
       else Ok (input, Plain \<lparr>sp_type = packet_type, sp_id = i, sp_nsp = namespace,
                              sp_data = from_json payload\<rparr>)))))))"

definition decode_proto_packet ::
  "bool \<Rightarrow> (uchar, 'o) nom \<Rightarrow> 'n serde \<Rightarrow> rstring \<Rightarrow> (handle_error, 'n proto_packet) outcome" where
  "decode_proto_packet oc N S text =
     (case parse_proto_packet oc N S text of
        Ok (_, packet) \<Rightarrow> Ok packet
      | Err _ \<Rightarrow> Err PacketParseError
      | Panic \<Rightarrow> Panic)"

section \<open>Attachments\<close>

record 'n default_decoder =
  dd_header :: "'n multipart_header"
  dd_buffer :: "bytes list"

definition can_collect :: "'n default_decoder \<Rightarrow> bool" where
  "can_collect dd \<longleftrightarrow> mh_count (dd_header dd) = length (dd_buffer dd)"

text \<open>
  The shared map of attachments is passed along; \<open>reconstruct_list\<close> and \<open>reconstruct_entries\<close> are the
  \<open>map\<close> over an array and the \<open>fold\<close> over an object.
\<close>

fun reconstruct_data ::
    "'n serde \<Rightarrow> 'n json \<Rightarrow> (nat \<rightharpoonup> bytes) \<Rightarrow> 'n pvalue \<times> (nat \<rightharpoonup> bytes)"
  and reconstruct_list ::
    "'n serde \<Rightarrow> 'n json list \<Rightarrow> (nat \<rightharpoonup> bytes) \<Rightarrow> 'n pvalue list \<times> (nat \<rightharpoonup> bytes)"
  and reconstruct_entries ::
    "'n serde \<Rightarrow> (rstring \<times> 'n json) list \<Rightarrow> (rstring \<times> 'n pvalue) list \<Rightarrow> (nat \<rightharpoonup> bytes) \<Rightarrow>
      (rstring \<times> 'n pvalue) list \<times> (nat \<rightharpoonup> bytes)"
where
  "reconstruct_data S JNull att = (VNull, att)"
| "reconstruct_data S (JBool value) att = (VBool value, att)"
| "reconstruct_data S (JNumber value) att = (VNumber value, att)"
| "reconstruct_data S (JString value) att = (VString value, att)"
| "reconstruct_data S (JArray array) att =
     (let (vs, att) = reconstruct_list S array att in (VArray vs, att))"
| "reconstruct_data S (JObject obj) att =
     (case get_attachment_index_if_placeholder S obj of
        Some index \<Rightarrow>
          (case att index of
             Some d \<Rightarrow> (VBinary d, att(index := None))
           | None \<Rightarrow> (VNull, att))
      | None \<Rightarrow> (let (kvs, att) = reconstruct_entries S obj [] att in (VObject kvs, att)))"
| "reconstruct_list S [] att = ([], att)"
| "reconstruct_list S (el # els) att =
     (let (v, att) = reconstruct_data S el att;
          (vs, att) = reconstruct_list S els att
      in (v # vs, att))"
| "reconstruct_entries S [] m att = (m, att)"
| "reconstruct_entries S ((k, j) # obj) m att =
     (let (v, att) = reconstruct_data S j att
      in reconstruct_entries S obj (imap_insert k v m) att)"

definition decoder_new :: "'n multipart_header \<Rightarrow> 'n default_decoder" where
  "decoder_new packet_header = \<lparr>dd_header = packet_header, dd_buffer = []\<rparr>"

definition decode_binary_data ::
  "'n default_decoder \<Rightarrow> bytes \<Rightarrow> (handle_error, bool) outcome \<times> 'n default_decoder" where
  "decode_binary_data dd d =
     (if can_collect dd then (Err TooManyAttachments, dd)
      else let dd = dd\<lparr>dd_buffer := dd_buffer dd @ [d]\<rparr>
           in (Ok (can_collect dd), dd))"

definition collect_packet :: "'n serde \<Rightarrow> 'n default_decoder \<Rightarrow> 'n sio_packet option" where
  "collect_packet S dd =
     (if can_collect dd
      then let m = fold (\<lambda>(index, d) acc. acc(index \<mapsto> d)) (enumerate 0 (dd_buffer dd)) Map.empty;
               packet_data = fst (reconstruct_data S (mh_data (dd_header dd)) m)
           in Some \<lparr>sp_type = from_binary_type (mh_type (dd_header dd)),
                    sp_id = mh_id (dd_header dd),
                    sp_nsp = (case mh_nsp (dd_header dd) of Some nsp \<Rightarrow> nsp | None \<Rightarrow> lit ''/''),
                    sp_data = packet_data\<rparr>
      else None)"

definition make_err :: handle_error where
  "make_err = InvalidPayload"

section \<open>Lemmas on numbers\<close>

lemma fold_digits_step:
  assumes "is_digit d" and "order + Suc (length ds) = c" and "c < 2 ^ 32"
  shows "fold_digits oc c order acc (d # ds) =
    obind (chk_up oc 32 (10 ^ Suc (length ds))) (\<lambda>p.
    obind (chk_up oc 32 (digit_val d * p)) (\<lambda>m.
    obind (chk_up oc 32 (acc + m)) (\<lambda>acc. fold_digits oc c (Suc order) acc ds)))"
proof -
  have sub: "int c - int (order mod 2 ^ 32) = int (Suc (length ds))"
    using assms by simp
  have "Suc (length ds) < 2 ^ 32" using assms by simp
  note k = chk_nat [OF this]
  show ?thesis
    unfolding fold_digits.simps sub k by (simp add: assms(1) to_digit_def chk_up_def)
qed

lemma fold_digits_release:
  assumes "list_all is_digit chs" and "order + length chs = c" and "c < 2 ^ 32" and "acc < 2 ^ 32"
  shows "fold_digits False c order acc chs = Ok ((acc + 10 * dec_val chs) mod 2 ^ 32)"
  using assms
proof (induction chs arbitrary: order acc)
  case Nil
  then show ?case by (simp add: dec_val_def)
next
  case (Cons d ds)
  let ?a = "(acc + digit_val d * (10 ^ Suc (length ds) mod 2 ^ 32) mod 2 ^ 32) mod 2 ^ 32"
  have "fold_digits False c (Suc order) ?a ds = Ok ((?a + 10 * dec_val ds) mod 2 ^ 32)"
    using Cons.prems by (intro Cons.IH) auto
  moreover have "(?a + 10 * dec_val ds) mod 2 ^ 32 = (acc + 10 * dec_val (d # ds)) mod 2 ^ 32"
    by (simp add: dec_val_Cons mod_simps algebra_simps)
  ultimately show ?case
    using Cons.prems by (simp add: fold_digits_step del: fold_digits.simps)
qed

lemma fold_digits_debug:
  assumes "list_all is_digit chs" and "order + length chs = c" and "c < 2 ^ 32" and "acc < 2 ^ 32"
  shows "fold_digits True c order acc chs =
    (if chs = [] \<or> 10 ^ length chs < (2 ^ 32 :: nat) \<and> acc + 10 * dec_val chs < 2 ^ 32
     then Ok (acc + 10 * dec_val chs) else Panic)"
  using assms
proof (induction chs arbitrary: order acc)
  case Nil
  then show ?case by (simp add: dec_val_def)
next
  case (Cons d ds)
  let ?m = "digit_val d * 10 ^ Suc (length ds)"
  have val: "10 * dec_val (d # ds) = ?m + 10 * dec_val ds"
    by (simp add: dec_val_Cons)
  have step: "fold_digits True c order acc (d # ds) =
    (if 10 ^ Suc (length ds) < (2 ^ 32 :: nat) \<and> acc + ?m < 2 ^ 32
     then fold_digits True c (Suc order) (acc + ?m) ds else Panic)"
    using Cons.prems by (simp add: fold_digits_step chk_up_debug del: fold_digits.simps)
  have IH: "fold_digits True c (Suc order) (acc + ?m) ds =
    (if ds = [] \<or> 10 ^ length ds < (2 ^ 32 :: nat) \<and> acc + ?m + 10 * dec_val ds < 2 ^ 32
     then Ok (acc + ?m + 10 * dec_val ds) else Panic)" if "acc + ?m < 2 ^ 32"
    using Cons.prems that by (intro Cons.IH) auto
  have "ds = [] \<Longrightarrow> dec_val ds = 0" by (simp add: dec_val_def)
  then show ?case
    unfolding val step using IH by auto
qed

text \<open>
  C35: \<open>digits_to_u32\<close>, which turns the digits of an attachment count or of a packet id into a number,
  computes ten times the number the digits denote, modulo \<open>2 ^ 32\<close>. With overflow checks it panics as
  soon as there are ten digits or ten times the number does not fit.
\<close>

theorem digits_to_u32_ten_times:
  assumes "ds \<noteq> []" and "list_all is_digit ds" and "length ds < 2 ^ 32"
  shows "digits_to_u32 oc ds =
    (if oc \<and> \<not> (length ds \<le> 9 \<and> 10 * dec_val ds < 2 ^ 32) then Panic
     else Ok (10 * dec_val ds mod 2 ^ 32))"
proof (cases oc)
  case True
  have "10 ^ length ds < (2 ^ 32 :: nat) \<longleftrightarrow> length ds \<le> 9"
  proof
    assume "10 ^ length ds < (2 ^ 32 :: nat)"
    also have "(2 ^ 32 :: nat) < 10 ^ 10" by simp
    finally have "length ds < 10"
      by (rule power_less_imp_less_exp [rotated]) simp
    then show "length ds \<le> 9" by simp
  next
    assume "length ds \<le> 9"
    then have "(10 :: nat) ^ length ds \<le> 10 ^ 9" by (intro power_increasing) simp_all
    then show "10 ^ length ds < (2 ^ 32 :: nat)" by simp
  qed
  with True assms fold_digits_debug [of ds 0 "length ds" 0] show ?thesis
    by (simp add: digits_to_u32_def)
next
  case False
  with assms fold_digits_release [of ds 0 "length ds" 0] show ?thesis
    by (simp add: digits_to_u32_def)
qed

text \<open>Ten times the number, on the digits of a number that is small enough.\<close>

lemma digits_to_u32_dec:
  assumes "10 * n < 2 ^ 32"
  shows "digits_to_u32 oc (dec n) = Ok (10 * n)"
proof -
  have len: "length (dec n) \<le> Suc 8" using assms by (intro length_dec) simp
  then have "(10 :: nat) ^ length (dec n) \<le> 10 ^ 9" by (intro power_increasing) simp_all
  then show ?thesis
    using assms len fold_digits_debug [of "dec n" 0 "length (dec n)" 0]
      fold_digits_release [of "dec n" 0 "length (dec n)" 0] dec_digits [of n]
    by (cases oc) (simp_all add: digits_to_u32_def)
qed


definition nsp_ok :: "rstring \<Rightarrow> bool" where
  "nsp_ok nsp \<longleftrightarrow> (\<exists>t. nsp = 47 # t) \<and> 44 \<notin> set nsp"

definition nsp_text :: "rstring \<Rightarrow> rstring" where
  "nsp_text nsp = (if nsp \<noteq> lit ''/'' then nsp @ lit '','' else [])"

lemma parse_namespace_some:
  assumes "nom_laws isd N" and "nsp_ok nsp"
  shows "parse_namespace N (nsp @ 44 # r) = Ok (r, nsp)"
proof -
  from assms(2) obtain t where t: "nsp = 47 # t" by (auto simp: nsp_ok_def)
  have "takeWhile (\<lambda>c. c \<noteq> 44) (nsp @ 44 # r) = nsp" "dropWhile (\<lambda>c. c \<noteq> 44) (nsp @ 44 # r) = 44 # r"
    using assms(2) by (auto simp: nsp_ok_def takeWhile_append dropWhile_append)
  then show ?thesis
    by (simp add: parse_namespace_def nom_simps [OF assms(1)] t)
qed

lemma parse_namespace_none:
  assumes "nom_laws isd N" and "\<not> (s \<noteq> [] \<and> hd s = 47)"
  shows "parse_namespace N s = Ok (s, lit ''/'')"
  using assms by (cases s) (auto simp: parse_namespace_def nom_simps [OF assms(1)])

lemma parse_namespace_text:
  assumes "nom_laws isd N" and "nsp_ok nsp" and "\<not> (r \<noteq> [] \<and> hd r = 47)"
  shows "parse_namespace N (nsp_text nsp @ r) = Ok (r, nsp)"
  using assms parse_namespace_some [OF assms(1,2), of r] parse_namespace_none [OF assms(1,3)]
  by (auto simp: nsp_text_def lit_def)

lemma parse_namespace_Ok:
  assumes "nom_laws isd N" and "parse_namespace N s = Ok (r, nsp)"
  shows "nsp_ok nsp"
proof (cases "s \<noteq> [] \<and> hd s = 47")
  case False
  with assms parse_namespace_none [OF assms(1) False] show ?thesis
    by (auto simp: nsp_ok_def lit_def)
next
  case True
  then obtain t where s: "s = 47 # t" by (cases s) auto
  with assms have "nsp = takeWhile (\<lambda>c. c \<noteq> 44) s"
    by (auto simp: parse_namespace_def nom_simps [OF assms(1)] split: if_splits)
  then show ?thesis by (auto simp: s nsp_ok_def dest: set_takeWhileD)
qed

lemma parse_id_none:
  assumes "nom_laws is_digit N" and "\<not> leading_digit s"
  shows "parse_id oc N s = Ok (s, None)"
  by (simp add: parse_id_def nom_digit1_none [OF assms])

lemma parse_id_digits:
  assumes "nom_laws is_digit N" and "ds \<noteq> []" and "list_all is_digit ds" and "\<not> leading_digit r"
  shows "parse_id oc N (ds @ r) =
    (case r of [] \<Rightarrow> Err (NError [] KChar)
     | c # r' \<Rightarrow> if c = 45 then obind (map_err (\<lambda>_. NFailure r' KDigit) (digits_to_u32 oc ds))
                                    (\<lambda>i. Ok (r', Some i))
                else Err (NError r KChar))"
  using assms
  by (simp add: parse_id_def nom_digit1_append [OF assms(1,3,2,4)] nom_char_law [OF assms(1)]
      digits_to_u64_def split: list.splits)

lemma sio_take_u8_digits:
  assumes "nom_laws is_digit N" and "ds \<noteq> []" and "list_all is_digit ds" and "\<not> leading_digit r"
  shows "sio_take_u8 N (ds @ r) =
    (if dec_val ds < 2 ^ 8 then Ok (r, word_of_nat (dec_val ds)) else Err (NFailure r KDigit))"
  using assms by (simp add: sio_take_u8_def nom_digit1_append parse_uint_digits)

section \<open>What decodes\<close>

text \<open>After \<open>digit1\<close> the input does not start with a digit, so there is no attachment count left.\<close>

lemma sio_take_u8_rest:
  assumes "nom_laws is_digit N" and "sio_take_u8 N s = Ok (r, n)"
  shows "\<not> leading_digit r"
proof -
  from assms have "r = dropWhile is_digit s"
    by (auto simp: sio_take_u8_def nom_digit1 split: if_splits option.splits)
  then show ?thesis
    using hd_dropWhile [of is_digit s] by auto
qed

lemma no_attachments_count:
  assumes "nom_laws is_digit N" and "\<not> leading_digit r"
  shows "parse_attachments_count oc N r = Err (NError r KDigit)"
  by (simp add: parse_attachments_count_def nom_digit1_none [OF assms])

text \<open>What a successful parse tells about the packet.\<close>

lemma parse_proto_packet_Ok:
  fixes S :: "'n serde"
  assumes "nom_laws is_digit N" and "parse_proto_packet oc N S s = Ok (r, q)"
  shows "\<exists>p j. q = Plain p \<and> try_into_binary (sp_type p) = Err () \<and> nsp_ok (sp_nsp p) \<and>
    is_payload_valid (sp_type p) j \<and> sp_data p = from_json j"
proof -
  from assms(2) obtain s1 n t s2 c s3 nsp s4 i s5 j where
    t8: "sio_take_u8 N s = Ok (s1, n)" and
    att: "(case try_into_binary t of Ok _ \<Rightarrow> parse_attachments_count oc N s1
            | Err _ \<Rightarrow> Ok (s1, 0) | Panic \<Rightarrow> Panic) = Ok (s2, c)" and
    nsp: "parse_namespace N s2 = Ok (s3, nsp)" and
    js: "parse_json_data S s4 t = Ok (s5, j)" and
    q: "(if c > 0
       then (case try_into_binary t of
               Ok bt \<Rightarrow> Ok (s5, Multipart \<lparr>mh_type = bt, mh_id = i, mh_nsp = Some nsp,
                                       mh_data = j, mh_count = c\<rparr>)
             | Err _ \<Rightarrow> Panic
             | Panic \<Rightarrow> Panic)
       else Ok (s5, Plain \<lparr>sp_type = t, sp_id = i, sp_nsp = nsp, sp_data = from_json j\<rparr>)) =
       (Ok (r, q) :: (uchar, 'n proto_packet) iresult)"
    unfolding parse_proto_packet_def by (clarsimp split del: if_split)
  have "\<not> leading_digit s1" using sio_take_u8_rest [OF assms(1) t8] .
  then have bin: "try_into_binary t = Err ()" and "c = 0"
    using att no_attachments_count [OF assms(1)] by (auto split: outcome.splits)
  moreover have "is_payload_valid t j"
    using js by (auto simp: parse_json_data_def Let_def split: if_splits)
  ultimately show ?thesis
    using q parse_namespace_Ok [OF assms(1) nsp] by auto
qed

lemma decode_Ok_iff: "decode_proto_packet oc N S text = Ok q \<longleftrightarrow>
    (\<exists>r. parse_proto_packet oc N S text = Ok (r, q))"
  by (auto simp: decode_proto_packet_def split: outcome.splits)

lemma decode_refused: "is_err (parse_proto_packet oc N S text) \<Longrightarrow>
    decode_proto_packet oc N S text = Err PacketParseError"
  by (auto simp: decode_proto_packet_def is_err_iff)

text \<open>
  C34: No text frame decodes to a multipart packet, and none to a packet of a binary type: the digits
  of the type and of the attachment count are taken together by \<open>take_u8\<close>, so the parser of the
  count never finds a digit. What does decode is a plain packet with a namespace that begins with
  a slash and has no comma, and with data that is valid for its type.
\<close>

theorem decode_only_plain:
  assumes "nom_laws is_digit N" and "decode_proto_packet oc N S text = Ok q"
  shows "\<exists>p j. q = Plain p \<and> sp_type p \<notin> {TBinaryEvent, TBinaryAck} \<and> nsp_ok (sp_nsp p) \<and>
    is_payload_valid (sp_type p) j \<and> sp_data p = from_json j"
proof -
  have "try_into_binary t = Err () \<Longrightarrow> t \<notin> {TBinaryEvent, TBinaryAck}" for t
    by auto
  with assms parse_proto_packet_Ok [OF assms(1)] show ?thesis
    unfolding decode_Ok_iff by blast
qed

text \<open>A type whose digits are followed by further digits is refused, or read as another type.\<close>

lemma dec_val_append: "dec_val (ds @ es) = dec_val ds * 10 ^ length es + dec_val es"
proof (induction es rule: rev_induct)
  case (snoc x xs)
  have "dec_val (ds @ xs @ [x]) = 10 * dec_val (ds @ xs) + digit_val x"
    using dec_val_snoc [of "ds @ xs"] by simp
  with snoc show ?case by (simp add: dec_val_snoc algebra_simps)
qed (simp add: dec_val_def)

lemma sio_type_digit: "dec (unat (sio_type_u8 t)) = [48 + unat (sio_type_u8 t)]"
  by (rule sio_code.dec_code)

lemma type_digits_refused:
  assumes "nom_laws is_digit N" and "t \<noteq> TConnect" and "ds \<noteq> []" and "list_all is_digit ds"
  shows "is_err (parse_proto_packet oc N S (dec (unat (sio_type_u8 t)) @ ds @ r))"
proof -
  obtain ds' r' where r: "ds @ r = ds' @ r'" "ds' \<noteq> []" "list_all is_digit ds'" "\<not> leading_digit r'"
  proof
    show "ds @ r = (ds @ takeWhile is_digit r) @ dropWhile is_digit r" by simp
    show "list_all is_digit (ds @ takeWhile is_digit r)"
      using assms(4) by (simp add: list_all_takeWhile)
    show "\<not> leading_digit (dropWhile is_digit r)"
      using hd_dropWhile [of is_digit r] by auto
  qed (use assms(3) in simp)
  let ?d = "48 + unat (sio_type_u8 t)"
  have digit: "is_digit ?d" "?d \<noteq> 48"
    using assms(2) by (cases t; simp add: is_digit_def)+
  have len: "1 \<le> length ds'" using r(2) by (cases ds') simp_all
  have "(10 :: nat) ^ 1 \<le> 10 ^ length ds'"
    using len by (rule power_increasing) simp
  then have ten: "10 \<le> dec_val (?d # ds')"
    using dec_val_lower [OF r(3) digit(2,1)] by simp
  have "sio_take_u8 N ((?d # ds') @ r') =
    (if dec_val (?d # ds') < 2 ^ 8 then Ok (r', word_of_nat (dec_val (?d # ds')))
     else Err (NFailure r' KDigit))"
    using r digit by (intro sio_take_u8_digits [OF assms(1)]) simp_all
  moreover have "10 \<le> unat (word_of_nat (dec_val (?d # ds')) :: u8)" if "dec_val (?d # ds') < 2 ^ 8"
    using that ten by (simp add: unat_of_nat)
  ultimately show ?thesis
    by (simp add: parse_proto_packet_def sio_type_digit r(1) sio_parse_from_u8_large)
qed

section \<open>What an encoded packet decodes to\<close>

lemma sio_encode_text:
  assumes "serde_laws S" and "sio_encode_packet S p = Ok e" and "sp_type p \<notin> {TBinaryEvent, TBinaryAck}"
  shows "\<exists>body. ep_packet e = dec (unat (sio_type_u8 (sp_type p))) @ nsp_text (sp_nsp p) @
      (case sp_id p of Some i \<Rightarrow> dec i | None \<Rightarrow> []) @ body \<and>
    (if sp_data p = VNull then body = []
     else to_json_string S (fst (deconstruct S (sp_data p) [])) = Some body)"
proof -
  obtain j att where ja: "deconstruct S (sp_data p) [] = (j, att)" by force
  with deconstruct_null [OF assms(1), of "sp_data p" "[]"] assms(2,3) show ?thesis
    by (cases "to_json_string S j")
      (auto simp: sio_encode_packet_def nsp_text_def Let_def split: if_splits)
qed

lemma sio_encode_ok:
  assumes "serde_laws S"
    and "sp_data p = VNull \<or> (\<exists>s. to_json_string S (fst (deconstruct S (sp_data p) [])) = Some s)"
  shows "\<exists>e. sio_encode_packet S p = Ok e"
proof -
  obtain j att where ja: "deconstruct S (sp_data p) [] = (j, att)" by force
  with deconstruct_null [OF assms(1), of "sp_data p" "[]"] assms(2) show ?thesis
    by (auto simp: sio_encode_packet_def Let_def)
qed

text \<open>The body of a packet of valid data: nothing, an array or a string, so neither a digit nor a slash.\<close>

lemma nsp_text_no_digit:
  "nsp_ok nsp \<Longrightarrow> \<not> leading_digit r \<Longrightarrow> \<not> leading_digit (nsp_text nsp @ r)"
  by (auto simp: nsp_text_def nsp_ok_def is_digit_def)

lemma take_type:
  assumes "nom_laws is_digit N" and "\<not> leading_digit r"
  shows "sio_take_u8 N (dec (unat (sio_type_u8 t)) @ r) = Ok (r, sio_type_u8 t)"
proof -
  have "unat (sio_type_u8 t) < 2 ^ 8" by (simp add: sio_code.small [of t, THEN less_trans])
  then show ?thesis
    using assms by (simp add: sio_take_u8_digits dec_digits)
qed

lemma parse_frame:
  assumes "nom_laws is_digit N" and "t \<notin> {TBinaryEvent, TBinaryAck}" and "nsp_ok nsp"
    and "\<not> leading_digit (nsp_text nsp @ r)" and "\<not> (r \<noteq> [] \<and> hd r = 47)"
  shows "parse_proto_packet oc N S (dec (unat (sio_type_u8 t)) @ nsp_text nsp @ r) =
    obind (parse_id oc N r) (\<lambda>(r, i).
    obind (parse_json_data S r t) (\<lambda>(r, j).
      Ok (r, Plain \<lparr>sp_type = t, sp_id = i, sp_nsp = nsp, sp_data = from_json j\<rparr>)))"
proof -
  have "try_into_binary t = Err ()" using assms(2) by (cases t) simp_all
  then show ?thesis
    unfolding parse_proto_packet_def
    by (simp add: take_type [OF assms(1,4)] parse_namespace_text [OF assms(1,3,5)])
qed

lemma from_json_deconstruct:
  "object_free v \<Longrightarrow> binaries v = [] \<Longrightarrow> from_json (fst (deconstruct S v att)) = v"
  "list_all object_free vs \<Longrightarrow> concat (map binaries vs) = [] \<Longrightarrow>
    map from_json (fst (deconstruct_list S vs att)) = vs"
  "deconstruct_entries S kvs att = deconstruct_entries S kvs att"
  by (induction S v att and S vs att and S kvs att
      rule: deconstruct_deconstruct_list_deconstruct_entries.induct)
    (auto simp: Let_def split: prod.splits)

lemma valid_body:
  assumes "serde_laws S" and "object_free v" and "binaries v = []"
    and "is_payload_valid t (fst (deconstruct S v []))"
  shows "v = VNull \<or> (\<exists>c s. to_json_string S (fst (deconstruct S v [])) = Some (c # s) \<and> c \<in> {34, 91})"
proof (cases v)
  case (VString s)
  with serde_string [OF assms(1), of s] show ?thesis by auto
next
  case (VArray vs)
  with serde_array [OF assms(1), of "fst (deconstruct_list S vs [])"] show ?thesis
    by (auto split: prod.splits)
qed (use assms(2-4) in \<open>auto simp: is_payload_valid_def split: sio_type.splits\<close>)

lemma plain_packet_roundtrip:
  assumes N: "nom_laws is_digit N" and S: "serde_laws S"
    and ty: "sp_type p \<notin> {TBinaryEvent, TBinaryAck}" and i: "sp_id p = None" and nsp: "nsp_ok (sp_nsp p)"
    and free: "object_free (sp_data p)" "binaries (sp_data p) = []"
    and valid: "is_payload_valid (sp_type p) (fst (deconstruct S (sp_data p) []))"
    and exact: "readable_json S (fst (deconstruct S (sp_data p) []))"
  shows "\<exists>e. sio_encode_packet S p = Ok e \<and> decode_proto_packet oc N S (ep_packet e) = Ok (Plain p)"
proof -
  note body = valid_body [OF S free valid]
  then obtain e where e: "sio_encode_packet S p = Ok e"
    using sio_encode_ok [OF S, of p] by blast
  from sio_encode_text [OF S e ty] i obtain s where
    txt_e: "ep_packet e = dec (unat (sio_type_u8 (sp_type p))) @ nsp_text (sp_nsp p) @ s" and
    s: "if sp_data p = VNull then s = []
     else to_json_string S (fst (deconstruct S (sp_data p) [])) = Some s"
    by auto
  with body have hd: "\<not> leading_digit s" "\<not> (s \<noteq> [] \<and> hd s = 47)"
    by (auto simp: is_digit_def split: if_splits)
  have "(case from_json_str S s of Some j \<Rightarrow> j | None \<Rightarrow> JNull) = fst (deconstruct S (sp_data p) [])"
    using s serde_empty [OF S] serde_read [OF S exact] by (auto split: if_splits)
  then have "parse_json_data S s (sp_type p) = Ok (s, fst (deconstruct S (sp_data p) []))"
    using valid by (simp add: parse_json_data_def)
  then have "parse_proto_packet oc N S (ep_packet e) = Ok (s, Plain p)"
    unfolding txt_e
    by (simp add: parse_frame [OF N ty nsp nsp_text_no_digit [OF nsp hd(1)] hd(2)]
        parse_id_none [OF N hd(1)] from_json_deconstruct(1) [OF free] i [symmetric])
  with e show ?thesis unfolding decode_Ok_iff by blast
qed

text \<open>
  C3: A packet that satisfies all of the following is encoded, and the text decodes to the same
  packet: its type is not one of the two binary types; it has no id; its namespace is well-formed
  (\<open>nsp_ok\<close>: it starts with a slash and has no comma); its data holds neither objects nor binary values,
  is valid for its type (so the type is not a connect, which needs an object), has no floats and is
  nested less than 128 deep.
\<close>

theorem sio_packet_roundtrip:
  assumes N: "nom_laws is_digit N" and S: "serde_laws S"
    and ty: "sp_type p \<notin> {TBinaryEvent, TBinaryAck}" and i: "sp_id p = None" and nsp: "nsp_ok (sp_nsp p)"
    and free: "object_free (sp_data p)" "binaries (sp_data p) = []"
    and valid: "is_payload_valid (sp_type p) (fst (deconstruct S (sp_data p) []))"
    and exact: "readable_json S (fst (deconstruct S (sp_data p) []))"
  shows "\<exists>e. sio_encode_packet S p = Ok e \<and> decode_proto_packet oc N S (ep_packet e) = Ok (Plain p)"
  using assms by (rule plain_packet_roundtrip)

text \<open>
  C36: A packet with an id whose data is an array, as every event and acknowledgement has, is encoded
  to a text that the decoder refuses: the encoder writes the id directly before the data, and the
  decoder wants a dash between them (or, in the default namespace, takes the digits of the id as
  digits of the type).
\<close>

theorem encoded_id_refused:
  assumes N: "nom_laws is_digit N" and S: "serde_laws S"
    and ty: "sp_type p \<notin> {TConnect, TBinaryEvent, TBinaryAck}"
    and i: "sp_id p = Some i" and nsp: "nsp_ok (sp_nsp p)" and arr: "sp_data p = VArray vs"
    and e: "sio_encode_packet S p = Ok e"
  shows "decode_proto_packet oc N S (ep_packet e) = Err PacketParseError"
proof -
  have nbin: "sp_type p \<notin> {TBinaryEvent, TBinaryAck}" using ty by auto
  from sio_encode_text [OF S e nbin] i arr obtain s where
    txt_e: "ep_packet e = dec (unat (sio_type_u8 (sp_type p))) @ nsp_text (sp_nsp p) @ dec i @ s" and
    s: "to_json_string S (fst (deconstruct S (VArray vs) [])) = Some s"
    by auto
  obtain s' where s': "s = 91 # s'"
    using serde_array [OF S, of "fst (deconstruct_list S vs [])"] s by (auto split: prod.splits)
  have "is_err (parse_proto_packet oc N S (ep_packet e))"
  proof (cases "sp_nsp p = lit ''/''")
    case True
    have tc: "sp_type p \<noteq> TConnect" using ty by simp
    from True show ?thesis
      unfolding txt_e using type_digits_refused [OF N tc dec_nonempty dec_digits]
      by (simp add: nsp_text_def)
  next
    case False
    have "is_digit (hd (dec i))" using dec_set_digits [of "hd (dec i)" i] by simp
    then have hd: "\<not> leading_digit (nsp_text (sp_nsp p) @ dec i @ s)"
      "\<not> (dec i @ s \<noteq> [] \<and> hd (dec i @ s) = 47)"
      using False nsp by (auto simp: nsp_text_def nsp_ok_def is_digit_def)
    have "parse_id oc N (dec i @ s) = Err (NError s KChar)"
      using parse_id_digits [OF N dec_nonempty dec_digits, of s oc i] by (simp add: s' is_digit_def)
    then show ?thesis
      unfolding txt_e parse_frame [OF N nbin nsp hd] by simp
  qed
  then show ?thesis by (rule decode_refused)
qed

lemma encoded_object_refused:
  assumes N: "nom_laws is_digit N" and S: "serde_laws S"
    and ty: "sp_type p \<in> {TConnect, TConnectError}" and i: "sp_id p = None" and nsp: "nsp_ok (sp_nsp p)"
    and obj: "sp_data p = VObject kvs" and e: "sio_encode_packet S p = Ok e"
    and exact: "readable_json S (fst (deconstruct S (VObject kvs) []))"
  shows "decode_proto_packet oc N S (ep_packet e) = Err PacketParseError"
proof -
  have nbin: "sp_type p \<notin> {TBinaryEvent, TBinaryAck}" using ty by auto
  let ?j = "fst (deconstruct S (VObject kvs) [])"
  from sio_encode_text [OF S e nbin] i obj obtain s where
    txt_e: "ep_packet e = dec (unat (sio_type_u8 (sp_type p))) @ nsp_text (sp_nsp p) @ s" and
    s: "to_json_string S ?j = Some s"
    by auto
  have "\<exists>js. ?j = JArray js"
    by (simp add: serde_from_iter [OF S] split: prod.splits)
  then obtain js where js: "?j = JArray js" by blast
  obtain s' where "s = 91 # s'"
    using serde_array [OF S, of js] s unfolding js by auto
  then have hd: "\<not> leading_digit s" "\<not> (s \<noteq> [] \<and> hd s = 47)"
    by (simp_all add: is_digit_def)
  have "from_json_str S s = Some (JArray js)"
    using serde_read [OF S exact s] js by simp
  then have "is_err (parse_json_data S s (sp_type p))"
    using ty by (auto simp: parse_json_data_def is_payload_valid_def)
  then have "is_err (parse_proto_packet oc N S (ep_packet e))"
    unfolding txt_e parse_frame [OF N nbin nsp nsp_text_no_digit [OF nsp hd(1)] hd(2)]
    by (auto simp: parse_id_none [OF N hd(1)] is_err_iff)
  then show ?thesis by (rule decode_refused)
qed

text \<open>
  A connect packet whose data is an object, the only data a connect packet may carry, is encoded
  to a text that the decoder refuses: the object was written as an array. (The array is one that is
  read back: no floats, less than 128 levels.)
\<close>

theorem encoded_connect_refused:
  assumes N: "nom_laws is_digit N" and S: "serde_laws S"
    and ty: "sp_type p = TConnect" and i: "sp_id p = None" and nsp: "nsp_ok (sp_nsp p)"
    and obj: "sp_data p = VObject kvs" and e: "sio_encode_packet S p = Ok e"
    and exact: "readable_json S (fst (deconstruct S (VObject kvs) []))"
  shows "decode_proto_packet oc N S (ep_packet e) = Err PacketParseError"
  using assms by (intro encoded_object_refused) auto

text \<open>
  A packet of a binary type is encoded to a text that the decoder refuses, so no attachment ever
  reaches a decoder through an encoded packet.
\<close>

theorem encoded_binary_refused:
  assumes N: "nom_laws is_digit N" and ty: "sp_type p \<in> {TBinaryEvent, TBinaryAck}"
    and e: "sio_encode_packet S p = Ok e"
  shows "decode_proto_packet oc N S (ep_packet e) = Err PacketParseError"
proof -
  obtain n r where "ep_packet e = dec (unat (sio_type_u8 (sp_type p))) @ dec n @ r"
    using e ty by (auto simp: sio_encode_packet_def Let_def split: prod.splits if_splits)
  moreover have "sp_type p \<noteq> TConnect" using ty by auto
  ultimately have "is_err (parse_proto_packet oc N S (ep_packet e))"
    using type_digits_refused [OF N _ dec_nonempty dec_digits] by metis
  then show ?thesis by (rule decode_refused)
qed

text \<open>An id in front of a dash is read as ten times the number that was written.\<close>

theorem parse_id_ten_times:
  assumes "nom_laws is_digit N" and "10 * n < 2 ^ 32"
  shows "parse_id oc N (dec n @ lit ''-'' @ r) = Ok (r, Some (10 * n))"
  using parse_id_digits [OF assms(1) dec_nonempty dec_digits, of "45 # r" oc n]
    digits_to_u32_dec [OF assms(2)]
  by (simp add: lit_def is_digit_def)

lemma fold_digits_release_not_Panic: "fold_digits False c order acc ds \<noteq> Panic"
proof (induction ds arbitrary: order acc)
  case (Cons d ds)
  then show ?case by (auto simp: to_digit_def chk_release)
qed simp

lemma parse_proto_packet_release:
  assumes "nom_laws is_digit N"
  shows "parse_proto_packet False N S s \<noteq> Panic"
proof -
  note N = nom_no_Panic [OF assms]
  have "digits_to_u32 False ds \<noteq> Panic" for ds
    by (simp add: digits_to_u32_def Let_def fold_digits_release_not_Panic)
  then have "parse_attachments_count False N s \<noteq> Panic" "parse_id False N s \<noteq> Panic" for s
    by (auto simp: parse_attachments_count_def parse_id_def digits_to_u64_def N split: outcome.splits)
  moreover have "sio_take_u8 N s \<noteq> Panic" "parse_namespace N s \<noteq> Panic"
    "parse_json_data S s t \<noteq> Panic" for s t
    by (auto simp: sio_take_u8_def parse_namespace_def parse_json_data_def Let_def N
        split: option.splits outcome.splits)
  moreover have "try_into_binary t \<noteq> Panic" for t
    by (cases t) auto
  ultimately show ?thesis
    unfolding parse_proto_packet_def
    by (auto split: outcome.splits if_splits)
qed

text \<open>Without overflow checks no text frame makes the decoder panic.\<close>

theorem sio_decoder_release_no_panic:
  assumes "nom_laws is_digit N"
  shows "decode_proto_packet False N S s \<noteq> Panic"
  using parse_proto_packet_release [OF assms, of S s]
  by (auto simp: decode_proto_packet_def split: outcome.splits)

text \<open>
  With overflow checks, a text frame with an id of ten or more digits makes the decoder panic, in
  any namespace but the default one: the power of ten of the first digit does not fit.
\<close>

theorem sio_decoder_debug_panic:
  assumes N: "nom_laws is_digit N" and t: "t \<notin> {TBinaryEvent, TBinaryAck}" and nsp: "nsp_ok nsp"
    and ds: "list_all is_digit ds" and ge: "10 \<le> length ds" and lt: "length ds < 2 ^ 32"
  shows "decode_proto_packet True N S
    (dec (unat (sio_type_u8 t)) @ nsp @ lit '','' @ ds @ lit ''-'' @ r) = Panic"
proof -
  have ne: "ds \<noteq> []" using ge by auto
  have bin: "try_into_binary t = Err ()" using t by (cases t) simp_all
  have "(10 :: nat) ^ 10 \<le> 10 ^ length ds" using ge by (rule power_increasing) simp
  then have "digits_to_u32 True ds = Panic"
    using fold_digits_debug [of ds 0 "length ds" 0] ds ne lt by (simp add: digits_to_u32_def)
  then have "parse_id True N (ds @ 45 # r) = Panic"
    using parse_id_digits [OF N ne ds, of "45 # r"] by (simp add: is_digit_def)
  moreover have "\<not> leading_digit (nsp @ 44 # ds @ 45 # r)"
    using nsp by (auto simp: nsp_ok_def is_digit_def)
  ultimately have "parse_proto_packet True N S
      (dec (unat (sio_type_u8 t)) @ nsp @ 44 # ds @ 45 # r) = Panic"
    unfolding parse_proto_packet_def
    by (simp add: take_type [OF N] parse_namespace_some [OF N nsp] bin)
  then show ?thesis
    by (simp add: decode_proto_packet_def lit_def)
qed

section \<open>Collecting attachments\<close>

text \<open>The state of a decoder after some attachments.\<close>

fun feed :: "('s \<Rightarrow> bytes \<Rightarrow> 'x \<times> 's) \<Rightarrow> 's \<Rightarrow> bytes list \<Rightarrow> 's" where
  "feed add s [] = s"
| "feed add s (d # ds) = feed add (snd (add s d)) ds"

text \<open>
  The contract of the trait \<open>Decoder\<close>: \<open>pending\<close> attachments are missing, each one added makes it one
  less, \<open>true\<close> is returned when none is missing any more, and a packet can be collected exactly then.
\<close>

locale attachment_decoder =
  fixes new :: "'h \<Rightarrow> 's" and add :: "'s \<Rightarrow> bytes \<Rightarrow> ('e, bool) outcome \<times> 's"
    and collect :: "'s \<Rightarrow> 'p option" and count :: "'h \<Rightarrow> nat" and pending :: "'s \<Rightarrow> nat"
    and inv :: "'s \<Rightarrow> bool"
  assumes new: "inv (new h)" "pending (new h) = count h"
    and add_missing: "inv s \<Longrightarrow> pending s = Suc n \<Longrightarrow> \<exists>s'. add s d = (Ok (n = 0), s') \<and> pending s' = n \<and> inv s'"
    and add_full: "inv s \<Longrightarrow> pending s = 0 \<Longrightarrow> \<exists>e. add s d = (Err e, s)"
    and collect_iff: "inv s \<Longrightarrow> (\<exists>p. collect s = Some p) \<longleftrightarrow> pending s = 0"
begin

text \<open>What the connection does with \<open>true\<close>: \<open>collect_packet().unwrap()\<close>, which does not panic.\<close>

lemma complete_collects:
  assumes "inv s" and "add s d = (Ok True, s')"
  shows "\<exists>p. collect s' = Some p"
proof (cases "pending s")
  case 0
  with assms add_full [OF assms(1), of d] show ?thesis by auto
next
  case (Suc n)
  with assms add_missing [OF assms(1) Suc, of d] collect_iff [of s'] show ?thesis by auto
qed

lemma feed_pending: "inv s \<Longrightarrow> inv (feed add s ds) \<and> pending (feed add s ds) = pending s - length ds"
proof (induction ds arbitrary: s)
  case (Cons d ds)
  show ?case
  proof (cases "pending s")
    case 0
    with Cons add_full [OF Cons.prems, of d] show ?thesis by auto
  next
    case (Suc n)
    from add_missing [OF Cons.prems Suc, of d] obtain s' where
      s': "add s d = (Ok (n = 0), s')" "pending s' = n" "inv s'" by blast
    with Cons.IH [OF s'(3)] Suc show ?thesis by simp
  qed
qed simp

lemma feed_all: "length ds = count h \<Longrightarrow> \<exists>p. collect (feed add (new h) ds) = Some p"
  and feed_some: "length ds < count h \<Longrightarrow> collect (feed add (new h) ds) = None"
  using feed_pending [OF new(1), of h ds] collect_iff [of "feed add (new h) ds"] new(2) [of h] by auto

end

definition missing :: "'n default_decoder \<Rightarrow> nat" where
  "missing dd = mh_count (dd_header dd) - length (dd_buffer dd)"

definition decoder_inv :: "'n default_decoder \<Rightarrow> bool" where
  "decoder_inv dd \<longleftrightarrow> length (dd_buffer dd) \<le> mh_count (dd_header dd)"

interpretation dd: attachment_decoder decoder_new decode_binary_data "collect_packet S" mh_count
    missing decoder_inv
  for S
proof
  fix h and s :: "'a default_decoder" and n d
  show "decoder_inv (decoder_new h)" "missing (decoder_new h) = mh_count h"
    by (simp_all add: decoder_inv_def decoder_new_def missing_def)
  show "decoder_inv s \<Longrightarrow> missing s = Suc n \<Longrightarrow>
    \<exists>s'. decode_binary_data s d = (Ok (n = 0), s') \<and> missing s' = n \<and> decoder_inv s'"
    by (auto simp: decode_binary_data_def decoder_inv_def missing_def can_collect_def)
  show "decoder_inv s \<Longrightarrow> missing s = 0 \<Longrightarrow> \<exists>e. decode_binary_data s d = (Err e, s)"
    by (simp add: decode_binary_data_def decoder_inv_def missing_def can_collect_def)
  show "decoder_inv s \<Longrightarrow> (\<exists>p. collect_packet S s = Some p) \<longleftrightarrow> missing s = 0"
    by (auto simp: collect_packet_def decoder_inv_def missing_def can_collect_def Let_def)
qed


lemma placeholder_index:
  assumes "serde_laws S" and "i < 2 ^ 64"
  shows "get_attachment_index_if_placeholder S
    [(lit ''_placeholder'', JBool True), (lit ''num'', JNumber (of_u64 S i))] = Some i"
  using serde_as_u64 [OF assms]
  by (simp add: get_attachment_index_if_placeholder_def attachment_marker_key_def
      attachment_index_key_def lit_def)

definition holds :: "(nat \<rightharpoonup> bytes) \<Rightarrow> nat \<Rightarrow> bytes list \<Rightarrow> bool" where
  "holds m i ds \<longleftrightarrow> (\<forall>k < length ds. m (i + k) = Some (ds ! k))"

lemma holds_append:
  assumes "holds m i (ds @ es)"
  shows "holds m i ds" and "holds (m |` (- {i ..< i + length ds})) (i + length ds) es"
proof -
  show "holds m i ds"
    using assms by (auto simp: holds_def nth_append)
  have "m (i + length ds + k) = Some (es ! k)" if "k < length es" for k
    using assms [unfolded holds_def, rule_format, of "length ds + k"] that
    by (simp add: add.assoc)
  then show "holds (m |` (- {i ..< i + length ds})) (i + length ds) es"
    by (simp add: holds_def restrict_map_def)
qed

lemma interval_parts: "- {a ..< a + b} \<inter> - {a + b ..< a + b + c} = - {a ..< a + b + (c :: nat)}"
  by auto

lemma reconstruct_deconstruct:
  "serde_laws S \<Longrightarrow> object_free v \<Longrightarrow> holds m (length att) (binaries v) \<Longrightarrow>
      length att + length (binaries v) < 2 ^ 64 \<Longrightarrow>
      reconstruct_data S (fst (deconstruct S v att)) m =
        (v, m |` (- {length att ..< length att + length (binaries v)}))"
  "serde_laws S \<Longrightarrow> list_all object_free vs \<Longrightarrow> holds m (length att) (concat (map binaries vs)) \<Longrightarrow>
      length att + length (concat (map binaries vs)) < 2 ^ 64 \<Longrightarrow>
      reconstruct_list S (fst (deconstruct_list S vs att)) m =
        (vs, m |` (- {length att ..< length att + length (concat (map binaries vs))}))"
  "deconstruct_entries S kvs att = deconstruct_entries S kvs att"
proof (induction S v att and S vs att and S kvs att arbitrary: m and m
    rule: deconstruct_deconstruct_list_deconstruct_entries.induct)
  case (7 S d att)
  then have "m (length att) = Some d" "length att < 2 ^ 64" by (auto simp: holds_def)
  moreover have "m(length att := None) = m |` (- {length att})"
    by (auto simp: restrict_map_def)
  moreover have "{length att ..< Suc (length att)} = {length att}" by auto
  ultimately show ?case
    using placeholder_index [OF 7(1)] by (simp add: make_placeholder_def)
next
  case (9 S el els att)
  obtain j att1 where j: "deconstruct S el att = (j, att1)" by force
  have att1: "att1 = att @ binaries el"
    using deconstruct_attachments(1) [of S el att] by (simp add: j)
  let ?m = "m |` (- {length att ..< length att + length (binaries el)})"
  from 9(5) have "holds m (length att) (binaries el)"
    and rest: "holds ?m (length att1) (concat (map binaries els))"
    using holds_append [of m "length att" "binaries el" "concat (map binaries els)"]
    by (simp_all add: att1)
  then have "reconstruct_data S j m = (el, ?m)"
    using 9 j by simp
  moreover have "reconstruct_list S (fst (deconstruct_list S els att1)) ?m =
    (els, ?m |` (- {length att1 ..< length att1 + length (concat (map binaries els))}))"
    using 9 j rest by (simp add: att1)
  moreover obtain js att2 where "deconstruct_list S els att1 = (js, att2)" by force
  ultimately show ?case
    by (simp add: j att1 interval_parts add.assoc [symmetric])
qed (auto split: prod.splits)

lemma feed_default_decoder:
  "length (dd_buffer dd) + length ds \<le> mh_count (dd_header dd) \<Longrightarrow>
   feed decode_binary_data dd ds = dd\<lparr>dd_buffer := dd_buffer dd @ ds\<rparr>"
proof (induction ds arbitrary: dd)
  case (Cons d ds)
  then have "snd (decode_binary_data dd d) = dd\<lparr>dd_buffer := dd_buffer dd @ [d]\<rparr>"
    by (simp add: decode_binary_data_def can_collect_def Let_def)
  with Cons show ?case by simp
qed simp

lemma enumerate_map:
  "fold (\<lambda>(index, d) acc. acc(index \<mapsto> d)) (enumerate n ds) m i =
   (if n \<le> i \<and> i < n + length ds then Some (ds ! (i - n)) else m i)"
proof (induction ds arbitrary: n m)
  case (Cons d ds)
  have "i - n = Suc (i - Suc n)" if "Suc n \<le> i" using that by simp
  with Cons show ?case by (auto simp: nth_Cons')
qed auto

lemma collect_all_attachments:
  assumes S: "serde_laws S" and free: "object_free v" and n: "length (binaries v) < 2 ^ 32"
    and hdr: "mh_data h = fst (deconstruct S v [])" "mh_count h = length (binaries v)"
  shows "feed decode_binary_data (decoder_new h) (binaries v) = \<lparr>dd_header = h, dd_buffer = binaries v\<rparr>"
    and "collect_packet S \<lparr>dd_header = h, dd_buffer = binaries v\<rparr> =
      Some \<lparr>sp_type = from_binary_type (mh_type h), sp_id = mh_id h,
            sp_nsp = (case mh_nsp h of Some nsp \<Rightarrow> nsp | None \<Rightarrow> lit ''/''), sp_data = v\<rparr>"
proof -
  show "feed decode_binary_data (decoder_new h) (binaries v) = \<lparr>dd_header = h, dd_buffer = binaries v\<rparr>"
    using feed_default_decoder [of "decoder_new h" "binaries v"] hdr(2)
    by (simp add: decoder_new_def)
  let ?m = "fold (\<lambda>(index, d) acc. acc(index \<mapsto> d)) (enumerate 0 (binaries v)) Map.empty"
  have "holds ?m 0 (binaries v)"
    by (simp add: holds_def enumerate_map)
  then have "fst (reconstruct_data S (mh_data h) ?m) = v"
    using reconstruct_deconstruct(1) [OF S free, of ?m "[]"] n hdr(1) by simp
  then show "collect_packet S \<lparr>dd_header = h, dd_buffer = binaries v\<rparr> =
      Some \<lparr>sp_type = from_binary_type (mh_type h), sp_id = mh_id h,
            sp_nsp = (case mh_nsp h of Some nsp \<Rightarrow> nsp | None \<Rightarrow> lit ''/''), sp_data = v\<rparr>"
    using hdr(2) by (simp add: collect_packet_def can_collect_def)
qed

text \<open>
  C4: Attachments are put back where they were: a decoder that is given the header of a packet whose
  data has no objects and fewer than \<open>2 ^ 32\<close> binary values, and then the attachments of the encoder in
  order, collects the data that was encoded; with fewer attachments it collects nothing, and with one
  more it is an error.
\<close>

theorem attachments_reassemble:
  assumes S: "serde_laws S" and free: "object_free v" and n: "length (binaries v) < 2 ^ 32"
    and hdr: "mh_data h = fst (deconstruct S v [])" "mh_count h = length (binaries v)"
  shows "let full = feed decode_binary_data (decoder_new h) (binaries v) in
    collect_packet S full =
      Some \<lparr>sp_type = from_binary_type (mh_type h), sp_id = mh_id h,
            sp_nsp = (case mh_nsp h of Some nsp \<Rightarrow> nsp | None \<Rightarrow> lit ''/''), sp_data = v\<rparr> \<and>
    decode_binary_data full d = (Err TooManyAttachments, full) \<and>
    (\<forall>ds. length ds < length (binaries v) \<longrightarrow>
      collect_packet S (feed decode_binary_data (decoder_new h) ds) = None)"
proof -
  note all = collect_all_attachments [OF assms]
  have "collect_packet S (feed decode_binary_data (decoder_new h) ds) = None"
    if "length ds < length (binaries v)" for ds
    by (rule dd.feed_some) (use that hdr(2) in simp)
  with all hdr(2) show ?thesis
    by (simp add: decode_binary_data_def can_collect_def)
qed

text \<open>
  Two placeholders for the same attachment: the first one gets it, the second one becomes null,
  because the attachment was moved out of the map.
\<close>

theorem placeholder_used_twice:
  assumes "serde_laws S" and "i < 2 ^ 64" and "m i = Some d"
  shows "fst (reconstruct_data S (JArray [make_placeholder S i, make_placeholder S i]) m) =
    VArray [VBinary d, VNull]"
  using assms by (simp add: make_placeholder_def placeholder_index)

section \<open>Witnesses\<close>

theorem digits_to_u32_ten_times_witness: "digits_to_u32 True (lit ''123'') = Ok 1230"
  using digits_to_u32_ten_times [of "lit ''123''" True]
  by (simp add: lit_def is_digit_def dec_val_def digit_val_def)

theorem parse_id_ten_times_witness:
  "parse_id True (nom_ref is_digit) (dec 12 @ lit ''-'' @ lit ''[]'') = Ok (lit ''[]'', Some (10 * 12))"
  by (rule parse_id_ten_times [OF nom_ref_laws]) simp

abbreviation ping_packet :: "nat option \<Rightarrow> sio_type \<Rightarrow> nat sio_packet" where
  "ping_packet i t \<equiv> \<lparr>sp_type = t, sp_id = i, sp_nsp = lit ''/a'', sp_data = VArray [VString (lit ''p''), VBool True]\<rparr>"

lemma nsp_ok_a: "nsp_ok (lit ''/a'')" "nsp_ok (lit ''/'')"
  by (simp_all add: nsp_ok_def lit_def)

theorem sio_packet_roundtrip_witness:
  "\<exists>e. sio_encode_packet serde_ref (ping_packet None TEvent) = Ok e \<and>
    decode_proto_packet True (nom_ref is_digit) serde_ref (ep_packet e) = Ok (Plain (ping_packet None TEvent))"
  by (rule sio_packet_roundtrip [OF nom_ref_laws serde_ref_laws])
    (simp_all add: nsp_ok_a is_payload_valid_def readable_json_def serde_ref_def)

lemma ping_encoded: "\<exists>e. sio_encode_packet serde_ref (ping_packet i t) = Ok e"
  using sio_encode_ok [OF serde_ref_laws, of "ping_packet i t"] by (simp add: serde_ref_def)

theorem encoded_id_refused_witness:
  "\<exists>e. sio_encode_packet serde_ref (ping_packet (Some 7) TEvent) = Ok e \<and>
    decode_proto_packet True (nom_ref is_digit) serde_ref (ep_packet e) = Err PacketParseError"
proof -
  obtain e where e: "sio_encode_packet serde_ref (ping_packet (Some 7) TEvent) = Ok e"
    using ping_encoded by blast
  have "decode_proto_packet True (nom_ref is_digit) serde_ref (ep_packet e) = Err PacketParseError"
    by (rule encoded_id_refused [OF nom_ref_laws serde_ref_laws _ _ _ _ e]) (simp_all add: nsp_ok_a)
  with e show ?thesis by blast
qed

theorem encoded_binary_refused_witness:
  "\<exists>e. sio_encode_packet serde_ref (ping_packet None TBinaryEvent) = Ok e \<and>
    decode_proto_packet True (nom_ref is_digit) serde_ref (ep_packet e) = Err PacketParseError"
proof -
  obtain e where e: "sio_encode_packet serde_ref (ping_packet None TBinaryEvent) = Ok e"
    using ping_encoded by blast
  with encoded_binary_refused [OF nom_ref_laws _ e] show ?thesis
    by simp
qed

theorem encoded_connect_refused_witness:
  "\<exists>e. sio_encode_packet serde_ref ((ping_packet None TConnect)\<lparr>sp_data := VObject []\<rparr>) = Ok e \<and>
    decode_proto_packet True (nom_ref is_digit) serde_ref (ep_packet e) = Err PacketParseError"
proof -
  let ?p = "(ping_packet None TConnect)\<lparr>sp_data := VObject []\<rparr>"
  obtain e where e: "sio_encode_packet serde_ref ?p = Ok e"
    using sio_encode_ok [OF serde_ref_laws, of ?p] by (auto simp: serde_ref_def)
  have "decode_proto_packet True (nom_ref is_digit) serde_ref (ep_packet e) = Err PacketParseError"
    by (rule encoded_connect_refused [OF nom_ref_laws serde_ref_laws _ _ _ _ e, where kvs = "[]"])
      (simp_all add: nsp_ok_a readable_json_def serde_from_iter [OF serde_ref_laws])
  with e show ?thesis by blast
qed

theorem decode_only_plain_witness:
  "\<exists>p j. Plain \<lparr>sp_type = TDisconnect, sp_id = None, sp_nsp = lit ''/'', sp_data = VNull :: nat pvalue\<rparr> = Plain p \<and>
    sp_type p \<notin> {TBinaryEvent, TBinaryAck} \<and> nsp_ok (sp_nsp p) \<and>
    is_payload_valid (sp_type p) j \<and> sp_data p = from_json j"
proof -
  have "parse_proto_packet True (nom_ref is_digit :: (uchar, packet) nom) serde_ref (lit ''1'') =
    Ok ([], Plain \<lparr>sp_type = TDisconnect, sp_id = None, sp_nsp = lit ''/'', sp_data = VNull\<rparr>)"
    using parse_frame [OF nom_ref_laws _ nsp_ok_a(2), of TDisconnect "[]" True serde_ref]
    by (simp add: nsp_text_def parse_id_none [OF nom_ref_laws] parse_json_data_def
        is_payload_valid_def serde_empty [OF serde_ref_laws] dec_small lit_def)
  then have "decode_proto_packet True (nom_ref is_digit :: (uchar, packet) nom) serde_ref (lit ''1'') =
      Ok (Plain \<lparr>sp_type = TDisconnect, sp_id = None, sp_nsp = lit ''/'', sp_data = VNull\<rparr>)"
    by (simp add: decode_proto_packet_def)
  from decode_only_plain [OF nom_ref_laws this] show ?thesis .
qed

theorem sio_decoder_release_no_panic_witness:
  "decode_proto_packet False (nom_ref is_digit :: (uchar, packet) nom) serde_ref (lit ''2/a,9-[]'') \<noteq> Panic"
  by (rule sio_decoder_release_no_panic [OF nom_ref_laws])

theorem sio_decoder_debug_panic_witness:
  "decode_proto_packet True (nom_ref is_digit :: (uchar, packet) nom) serde_ref
     (dec (unat (sio_type_u8 TEvent)) @ lit ''/a'' @ lit '','' @ lit ''1234567890'' @ lit ''-'' @ []) = Panic"
  by (rule sio_decoder_debug_panic [OF nom_ref_laws _ nsp_ok_a(1)]) (simp_all add: lit_def is_digit_def)

theorem attachments_reassemble_witness:
  "collect_packet serde_ref (feed decode_binary_data
      (decoder_new \<lparr>mh_type = BBinaryEvent, mh_id = None, mh_nsp = None,
         mh_data = JArray [make_placeholder serde_ref 0, make_placeholder serde_ref 1], mh_count = 2\<rparr>)
      [[1], [2]]) =
    Some \<lparr>sp_type = TBinaryEvent, sp_id = None, sp_nsp = lit ''/'',
          sp_data = VArray [VBinary [1], VBinary [2]]\<rparr>"
  using attachments_reassemble [OF serde_ref_laws, of "VArray [VBinary [1], VBinary [2]]"
      "\<lparr>mh_type = BBinaryEvent, mh_id = None, mh_nsp = None,
         mh_data = JArray [make_placeholder serde_ref 0, make_placeholder serde_ref 1], mh_count = 2\<rparr>"]
  by (simp add: Let_def)

theorem placeholder_used_twice_witness:
  "fst (reconstruct_data serde_ref
      (JArray [make_placeholder serde_ref 3, make_placeholder serde_ref 3]) [3 \<mapsto> [9]]) =
    VArray [VBinary [9], VNull]"
  by (rule placeholder_used_twice [OF serde_ref_laws]) simp_all

end
