(* ===== verification/Sio_Ser.thy ===== *)
theory Sio_Ser
  imports Sio_Packet
begin

text \<open>
  \<open>socket_io_parser/src/ser.rs\<close>, and \<open>to_value\<close> of \<open>lib.rs\<close>: the serializer that turns any value that
  implements serde's \<open>Serialize\<close> into packet data. An implementation of \<open>Serialize\<close> is a sequence of
  calls of the serializer's methods; \<open>sdata\<close> is the tree of these calls, one constructor for each
  method, with the arguments the method is given. (An implementation that catches an error of the
  serializer and goes on is not covered, and \<open>println!\<close> is left out.) \<open>SCustom\<close> is an implementation
  that fails on its own, and \<open>SDisplay\<close> is \<open>collect_str\<close>.

  Numbers and floats belong to \<open>serde_json\<close>: their conversions are the record \<open>number_conv\<close>, with the
  types \<open>'f\<close> and \<open>'g\<close> for \<open>f64\<close> and \<open>f32\<close>. \<open>vec_fits\<close> tells whether a \<open>Vec\<close> of that many values has at
  most \<open>isize::MAX\<close> bytes, which depends on the size of a value: \<open>Vec::with_capacity\<close> panics if not, and
  never panics for no element. A \<open>Vec\<close> that outgrows its capacity while it is pushed to, and an
  allocator out of memory, are not modelled.
\<close>

datatype ('f, 'g) sdata =
    SBool bool
  | SI8 "8 word" | SI16 "16 word" | SI32 "32 word" | SI64 "64 word"
  | SU8 "8 word" | SU16 "16 word" | SU32 "32 word" | SU64 "64 word"
  | SF32 'g | SF64 'f
  | SChar uchar | SStr rstring | SBytes bytes
  | SUnit | SUnitStruct rstring | SUnitVariant rstring nat rstring
  | SNewtypeStruct rstring "('f, 'g) sdata"
  | SNewtypeVariant rstring nat rstring "('f, 'g) sdata"
  | SNone | SSome "('f, 'g) sdata"
  | SSeq "nat option" "('f, 'g) sdata list"
  | STuple nat "('f, 'g) sdata list"
  | STupleStruct rstring nat "('f, 'g) sdata list"
  | STupleVariant rstring nat rstring nat "('f, 'g) sdata list"
  | SMap "nat option" "('f, 'g) map_call list"
  | SStruct rstring nat "(rstring \<times> ('f, 'g) sdata) list"
  | SStructVariant rstring nat rstring nat "(rstring \<times> ('f, 'g) sdata) list"
  | SDisplay rstring
  | SCustom rstring
and ('f, 'g) map_call = MKey "('f, 'g) sdata" | MValue "('f, 'g) sdata"

record ('n, 'f, 'g) number_conv =
  n_of_i64 :: "64 word \<Rightarrow> 'n"
  n_of_u64 :: "64 word \<Rightarrow> 'n"
  n_from_f64 :: "'f \<Rightarrow> 'n option"
  f32_as_f64 :: "'g \<Rightarrow> 'f"
  vec_fits :: "nat \<Rightarrow> bool"

type_synonym 'n ser_result = "(unit, 'n pvalue) outcome"

text \<open>\<open>to_string\<close> of a signed integer.\<close>

definition dec_int :: "int \<Rightarrow> rstring" where
  "dec_int i = (if i < 0 then lit ''-'' @ dec (nat (- i)) else dec (nat i))"

section \<open>The keys of a map\<close>

text \<open>\<open>ser_error\<close> is the error a \<open>Serialize\<close> makes of a message, which it loses, and \<open>ser_error_string\<close> its text.\<close>

definition ser_error :: "rstring \<Rightarrow> unit" where
  "ser_error message = ()"

definition ser_error_string :: "unit \<Rightarrow> rstring" where
  "ser_error_string _ = lit ''TODO''"

definition key_must_be_a_string :: unit where
  "key_must_be_a_string = ()"

fun map_key :: "('f, 'g) sdata \<Rightarrow> (unit, rstring) outcome" where
  "map_key (SI8 v) = Ok (dec_int (sint v))"
| "map_key (SI16 v) = Ok (dec_int (sint v))"
| "map_key (SI32 v) = Ok (dec_int (sint v))"
| "map_key (SI64 v) = Ok (dec_int (sint v))"
| "map_key (SU8 v) = Ok (dec (unat v))"
| "map_key (SU16 v) = Ok (dec (unat v))"
| "map_key (SU32 v) = Ok (dec (unat v))"
| "map_key (SU64 v) = Ok (dec (unat v))"
| "map_key (SChar c) = Ok [c]"
| "map_key (SStr s) = Ok s"
| "map_key (SUnitVariant _ _ variant) = Ok variant"
| "map_key (SNewtypeStruct _ v) = map_key v"
| "map_key (SDisplay s) = Ok s"
| "map_key (SCustom _) = Err ()"
| "map_key _ = Err key_must_be_a_string"

section \<open>The serializer\<close>

definition serialize_i64 :: "('n, 'f, 'g) number_conv \<Rightarrow> 64 word \<Rightarrow> 'n ser_result" where
  "serialize_i64 E value = Ok (VNumber (n_of_i64 E value))"

definition serialize_u64 :: "('n, 'f, 'g) number_conv \<Rightarrow> 64 word \<Rightarrow> 'n ser_result" where
  "serialize_u64 E value = Ok (VNumber (n_of_u64 E value))"

definition serialize_f64 :: "('n, 'f, 'g) number_conv \<Rightarrow> 'f \<Rightarrow> 'n ser_result" where
  "serialize_f64 E value = Ok (case n_from_f64 E value of Some n \<Rightarrow> VNumber n | None \<Rightarrow> VNull)"

definition with_capacity :: "('n, 'f, 'g) number_conv \<Rightarrow> nat \<Rightarrow> (unit, 'n pvalue list) outcome" where
  "with_capacity E capacity = (if capacity = 0 \<or> vec_fits E capacity then Ok [] else Panic)"

definition serialize_seq :: "('n, 'f, 'g) number_conv \<Rightarrow> nat option \<Rightarrow> (unit, 'n pvalue list) outcome" where
  "serialize_seq E len = with_capacity E (case len of Some n \<Rightarrow> n | None \<Rightarrow> 0)"

lemma serialize_seq_None [simp]: "serialize_seq E None = Ok []"
  by (simp add: serialize_seq_def with_capacity_def)

record 'n ser_map =
  sm_map :: "(rstring \<times> 'n pvalue) list"
  sm_next_key :: "rstring option"

definition map_serialize_key :: "'n ser_map \<Rightarrow> (unit, rstring) outcome \<Rightarrow> (unit, 'n ser_map) outcome" where
  "map_serialize_key sm key = obind key (\<lambda>k. Ok (sm\<lparr>sm_next_key := Some k\<rparr>))"

definition map_serialize_value :: "'n ser_map \<Rightarrow> 'n ser_result \<Rightarrow> (unit, 'n ser_map) outcome" where
  "map_serialize_value sm value =
     (let key = sm_next_key sm; sm = sm\<lparr>sm_next_key := None\<rparr>
      in obind (unwrap_opt key) (\<lambda>key.
         obind value (\<lambda>v. Ok (sm\<lparr>sm_map := imap_insert key v (sm_map sm)\<rparr>))))"

definition single_entry :: "rstring \<Rightarrow> 'n pvalue \<Rightarrow> 'n pvalue" where
  "single_entry variant v = VObject (imap_insert variant v [])"

text \<open>
  \<open>ser_vec\<close> are the elements pushed onto a \<open>SerializeVec\<close> or a \<open>SerializeTupleVariant\<close>, \<open>ser_calls\<close>
  the calls on a \<open>SerializeMap\<close>, \<open>ser_struct\<close> the fields of a struct, each an entry of a
  \<open>SerializeMap\<close>, and \<open>ser_fields\<close> the fields of a \<open>SerializeStructVariant\<close>.
\<close>

fun to_value :: "('n, 'f, 'g) number_conv \<Rightarrow> ('f, 'g) sdata \<Rightarrow> 'n ser_result"
  and ser_vec :: "('n, 'f, 'g) number_conv \<Rightarrow> 'n pvalue list \<Rightarrow> ('f, 'g) sdata list \<Rightarrow>
    (unit, 'n pvalue list) outcome"
  and ser_calls :: "('n, 'f, 'g) number_conv \<Rightarrow> 'n ser_map \<Rightarrow> ('f, 'g) map_call list \<Rightarrow>
    (unit, 'n ser_map) outcome"
  and ser_struct :: "('n, 'f, 'g) number_conv \<Rightarrow> 'n ser_map \<Rightarrow> (rstring \<times> ('f, 'g) sdata) list \<Rightarrow>
    (unit, 'n ser_map) outcome"
  and ser_fields :: "('n, 'f, 'g) number_conv \<Rightarrow> (rstring \<times> 'n pvalue) list \<Rightarrow>
    (rstring \<times> ('f, 'g) sdata) list \<Rightarrow> (unit, (rstring \<times> 'n pvalue) list) outcome"
where
  "to_value E (SBool value) = Ok (VBool value)"
| "to_value E (SI8 value) = serialize_i64 E (scast value)"
| "to_value E (SI16 value) = serialize_i64 E (scast value)"
| "to_value E (SI32 value) = serialize_i64 E (scast value)"
| "to_value E (SI64 value) = serialize_i64 E value"
| "to_value E (SU8 value) = serialize_u64 E (ucast value)"
| "to_value E (SU16 value) = serialize_u64 E (ucast value)"
| "to_value E (SU32 value) = serialize_u64 E (ucast value)"
| "to_value E (SU64 value) = serialize_u64 E value"
| "to_value E (SF32 value) = serialize_f64 E (f32_as_f64 E value)"
| "to_value E (SF64 value) = serialize_f64 E value"
| "to_value E (SChar value) = Ok (VString [value])"
| "to_value E (SStr value) = Ok (VString value)"
| "to_value E (SBytes value) = Ok (VBinary value)"
| "to_value E SUnit = Ok VNull"
| "to_value E (SUnitStruct _) = Ok VNull"
| "to_value E (SUnitVariant _ _ variant) = Ok (VString variant)"
| "to_value E (SNewtypeStruct _ value) = to_value E value"
| "to_value E (SNewtypeVariant _ _ variant value) =
     obind (to_value E value) (\<lambda>v. Ok (single_entry variant v))"
| "to_value E SNone = Ok VNull"
| "to_value E (SSome value) = to_value E value"
| "to_value E (SSeq len els) =
     obind (serialize_seq E len) (\<lambda>vec. obind (ser_vec E vec els) (\<lambda>vec. Ok (VArray vec)))"
| "to_value E (STuple len els) =
     obind (serialize_seq E (Some len)) (\<lambda>vec. obind (ser_vec E vec els) (\<lambda>vec. Ok (VArray vec)))"
| "to_value E (STupleStruct _ len els) =
     obind (serialize_seq E (Some len)) (\<lambda>vec. obind (ser_vec E vec els) (\<lambda>vec. Ok (VArray vec)))"
| "to_value E (STupleVariant _ _ variant len els) =
     obind (with_capacity E len) (\<lambda>vec.
     obind (ser_vec E vec els) (\<lambda>vec. Ok (single_entry variant (VArray vec))))"
| "to_value E (SMap len calls) =
     obind (ser_calls E \<lparr>sm_map = [], sm_next_key = None\<rparr> calls) (\<lambda>sm. Ok (VObject (sm_map sm)))"
| "to_value E (SStruct _ len flds) =
     obind (ser_struct E \<lparr>sm_map = [], sm_next_key = None\<rparr> flds) (\<lambda>sm. Ok (VObject (sm_map sm)))"
| "to_value E (SStructVariant _ _ variant len flds) =
     obind (ser_fields E [] flds) (\<lambda>m. Ok (single_entry variant (VObject m)))"
| "to_value E (SDisplay value) = Ok (VString value)"
| "to_value E (SCustom _) = Err ()"
| "ser_vec E vec [] = Ok vec"
| "ser_vec E vec (el # els) = obind (to_value E el) (\<lambda>v. ser_vec E (vec @ [v]) els)"
| "ser_calls E sm [] = Ok sm"
| "ser_calls E sm (MKey key # calls) =
     obind (map_serialize_key sm (map_key key)) (\<lambda>sm. ser_calls E sm calls)"
| "ser_calls E sm (MValue value # calls) =
     obind (map_serialize_value sm (to_value E value)) (\<lambda>sm. ser_calls E sm calls)"
| "ser_struct E sm [] = Ok sm"
| "ser_struct E sm ((key, value) # flds) =
     obind (map_serialize_key sm (map_key (SStr key :: ('f, 'g) sdata))) (\<lambda>sm.
     obind (map_serialize_value sm (to_value E value)) (\<lambda>sm. ser_struct E sm flds))"
| "ser_fields E m [] = Ok m"
| "ser_fields E m ((key, value) # flds) =
     obind (to_value E value) (\<lambda>v. ser_fields E (imap_insert key v m) flds)"

text \<open>An instance of the numbers, for the witnesses.\<close>

abbreviation numbers_ref :: "(64 word, unit, unit) number_conv" where
  "numbers_ref \<equiv> \<lparr>n_of_i64 = id, n_of_u64 = id, n_from_f64 = (\<lambda>_. None), f32_as_f64 = (\<lambda>_. ()),
     vec_fits = (\<lambda>n. n < 2 ^ 32)\<rparr>"

section \<open>When serializing fails\<close>

















section \<open>Maps and structs\<close>

definition entry_calls :: "(rstring \<times> ('f, 'g) sdata) list \<Rightarrow> ('f, 'g) map_call list" where
  "entry_calls kvs = concat (map (\<lambda>(k, v). [MKey (SStr k), MValue v]) kvs)"

lemma entry_calls_simps [simp]:
  "entry_calls [] = []"
  "entry_calls ((k, v) # kvs) = MKey (SStr k) # MValue v # entry_calls kvs"
  by (simp_all add: entry_calls_def)

lemma ser_struct_calls: "ser_struct E sm kvs = ser_calls E sm (entry_calls kvs)"
  by (induction kvs arbitrary: sm) auto

text \<open>A struct is serialized to the same object as the map of its fields.\<close>

theorem struct_as_map:
  "to_value E (SStruct name len kvs) = to_value E (SMap (Some len) (entry_calls kvs))"
  by (simp add: ser_struct_calls)

lemma ser_entries:
  assumes "list_all2 (\<lambda>(k, s) (k', v). k = k' \<and> to_value E s = Ok v) kss kvs"
  shows "ser_calls E sm (entry_calls kss) =
    Ok (sm\<lparr>sm_map := foldl (\<lambda>m (k, v). imap_insert k v m) (sm_map sm) kvs,
           sm_next_key := if kss = [] then sm_next_key sm else None\<rparr>)"
  using assms
proof (induction kss kvs arbitrary: sm rule: list_all2_induct)
  case (Cons ks kss kv kvs)
  then show ?case
    by (cases ks; cases kv) (simp add: map_serialize_key_def map_serialize_value_def)
qed simp

text \<open>
  A map whose keys are strings and whose values serialize becomes an object with the same keys,
  each with the value that was written for it last.
\<close>

theorem map_last_wins:
  assumes "list_all2 (\<lambda>(k, s) (k', v). k = k' \<and> to_value E s = Ok v) kss kvs"
  shows "\<exists>obj. to_value E (SMap len (entry_calls kss)) = Ok (VObject obj) \<and>
    (\<forall>k. map_of obj k = map_of (rev kvs) k)"
  using ser_entries [OF assms] imap_collect_lookup [of kvs]
  by (simp add: imap_collect_def)

theorem map_last_wins_witness:
  "\<exists>obj. to_value numbers_ref (SMap None (entry_calls [(lit ''k'', SBool True), (lit ''k'', SUnit)])) =
      Ok (VObject obj) \<and>
    (\<forall>k. map_of obj k = map_of (rev [(lit ''k'', VBool True), (lit ''k'', VNull)]) k)"
  by (rule map_last_wins) simp

end
