(* ===== verification/Engine_Transport.thy ===== *)
theory Engine_Transport
  imports Engine_Packet Utf8 Effects
begin

text \<open>
  \<open>engine_io_server/src/util.rs\<close> and \<open>transport.rs\<close>: requests, errors, cookies and the transports of a
  connection. The traits of an adapter (\<open>TransportBase\<close>, \<open>PollingTransport\<close>, \<open>WebsocketTransport\<close>)
  are the record \<open>adapter\<close>, so everything that uses a transport takes one as an argument.

  The channels belong to \<open>tokio\<close>. A broadcast channel is the list of the queues of its receivers, and
  sending to one without receivers does nothing. The derived string conversions of the two
  enumerations (\<open>strum\<close>) are the strings of their attributes.
\<close>

section \<open>Requests and errors\<close>

datatype http_method =
  MOptions | MGet | MPost | MPut | MDelete | MHead | MTrace | MConnect | MPatch

datatype transport_kind = KWebSocket | KPolling

datatype server_error =
  UnknownTransport | UnknownSid | BadHandshakeMethod | BadRequest | Forbidden | UnknownError | ShuttingDown

definition transport_kind_parse :: "rstring \<Rightarrow> (server_error, transport_kind) outcome" where
  "transport_kind_parse input =
     (if input = lit ''websocket'' then Ok KWebSocket
      else if input = lit ''polling'' then Ok KPolling
      else Err UnknownTransport)"

fun server_error_string :: "server_error \<Rightarrow> rstring" where
  "server_error_string UnknownTransport = lit ''Transport unknown''"
| "server_error_string UnknownSid = lit ''Session ID unknown''"
| "server_error_string BadHandshakeMethod = lit ''Bad handshake method''"
| "server_error_string BadRequest = lit ''Bad request''"
| "server_error_string Forbidden = lit ''Forbidden''"
| "server_error_string UnknownError = lit ''Unknown''"
| "server_error_string ShuttingDown = lit ''Server is shutting down''"

fun server_error_i8 :: "server_error \<Rightarrow> 8 word" where
  "server_error_i8 UnknownTransport = 0"
| "server_error_i8 UnknownSid = 1"
| "server_error_i8 BadHandshakeMethod = 2"
| "server_error_i8 BadRequest = 3"
| "server_error_i8 Forbidden = 4"
| "server_error_i8 UnknownError = -1"
| "server_error_i8 ShuttingDown = -99"

record server_error_message =
  em_code :: "8 word"
  em_message :: rstring

definition message_from_error :: "server_error \<Rightarrow> server_error_message" where
  "message_from_error server_error =
     \<lparr>em_code = server_error_i8 server_error, em_message = server_error_string server_error\<rparr>"

definition error_from_parse :: "parse_packet_error \<Rightarrow> server_error" where
  "error_from_parse _ = BadRequest"

record cookie_options =
  co_name :: rstring
  co_path :: rstring
  co_http_only :: bool

record set_cookie =
  sc_name :: rstring
  sc_value :: rstring
  sc_path :: rstring
  sc_http_only :: bool
  sc_same_site :: bool

definition from_cookie_options :: "cookie_options option \<Rightarrow> rstring \<Rightarrow> set_cookie option" where
  "from_cookie_options cookie_options value =
     (case cookie_options of
        Some options \<Rightarrow> Some \<lparr>sc_name = co_name options, sc_value = value, sc_path = co_path options,
                              sc_http_only = co_http_only options, sc_same_site = True\<rparr>
      | None \<Rightarrow> None)"

text \<open>The conversion of a cookie to a header value is \<open>todo!()\<close>.\<close>

definition set_cookie_string :: "set_cookie \<Rightarrow> ('e, rstring) outcome" where
  "set_cookie_string _ = Panic"

record request_context =
  rc_query :: "rstring \<rightharpoonup> rstring"
  rc_headers :: "rstring \<rightharpoonup> rstring"
  rc_origin :: "rstring option"
  rc_secure :: bool
  rc_user_agent :: rstring
  rc_content_type :: rstring
  rc_transport_kind :: transport_kind
  rc_http_method :: http_method
  rc_remote_address :: rstring
  rc_request_url :: rstring
  rc_set_cookie :: "set_cookie option"

definition with_set_cookie :: "request_context \<Rightarrow> set_cookie option \<Rightarrow> request_context" where
  "with_set_cookie rc cookie = rc\<lparr>rc_set_cookie := cookie\<rparr>"

datatype send_packet_error = UnknownConnectionId

section \<open>Messages between a transport and its socket\<close>

datatype transport_error = TePacketParseError | TeOtherError

datatype transport_cmd = CmdSend "packet list"

datatype transport_event =
  EvError transport_error | EvPacket request_context packet | EvDrain | EvClose

datatype 'r request_reply = Action transport_event | Response 'r

datatype response_body = Plaintext rstring | Binary bytes

fun into_bytes :: "response_body \<Rightarrow> bytes" where
  "into_bytes (Plaintext t) = as_bytes t"
| "into_bytes (Binary binary) = binary"

text \<open>\<open>str::contains\<close>.\<close>

fun str_contains :: "rstring \<Rightarrow> rstring \<Rightarrow> bool" where
  "str_contains [] pat = (pat = [])"
| "str_contains (c # s) pat = (prefix pat (c # s) \<or> str_contains s pat)"

text \<open>A \<open>HashMap\<close> of headers is the list of its entries, in the order of the insertions.\<close>

definition common_polling_headers :: "request_context \<Rightarrow> bool \<Rightarrow> (rstring \<times> rstring) list" where
  "common_polling_headers rc xhr =
     (let headers = [];
          user_agent = rc_user_agent rc;
          headers = (if str_contains user_agent (lit '';MSIE'') \<or> str_contains user_agent (lit ''Trident/'')
                     then AList.update (lit ''X-XSS-Protection'') (lit ''0'') headers else headers)
      in if xhr
         then (case rc_origin rc of
                 Some origin \<Rightarrow>
                   AList.update (lit ''Access-Control-Allow_origin'') origin
                     (AList.update (lit ''Access-Control-Allow-Credentials'') (lit ''true'') headers)
               | None \<Rightarrow> AList.update (lit ''Access-Control-Allow-Origin'') (lit ''*'') headers)
         else headers)"

section \<open>Transports\<close>

type_synonym 'm broadcast = "'m list list"

definition broadcast_send :: "'m \<Rightarrow> 'm broadcast \<Rightarrow> 'm broadcast" where
  "broadcast_send m ch = map (\<lambda>q. q @ [m]) ch"

definition broadcast_subscribe :: "'m broadcast \<Rightarrow> 'm broadcast" where
  "broadcast_subscribe ch = ch @ [[]]"

record polling_options =
  po_max_http_buffer_size :: nat
  po_http_compression :: "nat option"
  po_jsonp :: bool

record websocket_options =
  wo_per_message_deflate :: bool
  wo_supports_binary :: bool

datatype 'h transport_create_data = CreatePolling bool | CreateWebSocket bool 'h

datatype ('w, 'p) transport = WebSocket 'w | Polling 'p

text \<open>
  What a server asks of its adapter: the two constructors, whether a transport is writable, and how a
  polling transport answers a request (with a new state) and sends packets.
\<close>

record ('w, 'p, 'h, 'b, 'r) adapter =
  websocket_new :: "websocket_options \<Rightarrow> transport_event broadcast \<Rightarrow> 'h \<Rightarrow> request_context \<Rightarrow> 'w"
  polling_new :: "polling_options \<Rightarrow> transport_event broadcast \<Rightarrow> 'p"
  websocket_writable :: "'w \<Rightarrow> bool"
  polling_writable :: "'p \<Rightarrow> bool"
  respond_with_packets :: "'p \<Rightarrow> request_context \<Rightarrow> packet list \<Rightarrow> (server_error, 'r) outcome"
  polling_handle_request :: "request_context \<Rightarrow> 'b option \<Rightarrow> ('p, server_error, 'r request_reply) prog"

fun supports_framing :: "('w, 'p) transport \<Rightarrow> bool" where
  "supports_framing (WebSocket _) = True"
| "supports_framing (Polling _) = False"

fun as_polling_or_fail :: "('w, 'p) transport \<Rightarrow> (server_error, 'p) outcome" where
  "as_polling_or_fail (WebSocket _) = Err BadRequest"
| "as_polling_or_fail (Polling polling) = Ok polling"

fun transport_get_kind :: "('w, 'p) transport \<Rightarrow> transport_kind" where
  "transport_get_kind (WebSocket _) = KWebSocket"
| "transport_get_kind (Polling _) = KPolling"

fun is_writable :: "('w, 'p, 'h, 'b, 'r) adapter \<Rightarrow> ('w, 'p) transport \<Rightarrow> bool" where
  "is_writable A (WebSocket t) = websocket_writable A t"
| "is_writable A (Polling t) = polling_writable A t"

text \<open>The event channel of a new transport has no receiver: the one made with it is dropped at once.\<close>

definition transport_create :: "('w, 'p, 'h, 'b, 'r) adapter \<Rightarrow> request_context \<Rightarrow>
    'h transport_create_data \<Rightarrow> ('w, 'p) transport" where
  "transport_create A rc create_data =
     (let transport_event_sender = []
      in case create_data of
           CreateWebSocket supports_binary socket \<Rightarrow>
             WebSocket (websocket_new A \<lparr>wo_per_message_deflate = True, wo_supports_binary = supports_binary\<rparr>
               transport_event_sender socket rc)
         | CreatePolling jsonp \<Rightarrow>
             Polling (polling_new A
               \<lparr>po_max_http_buffer_size = 1024, po_http_compression = None, po_jsonp = jsonp\<rparr>
               transport_event_sender))"

text \<open>
  For a request with an origin, the headers allow credentials but never the origin itself: the
  header is written under a misspelled name, so \<open>Access-Control-Allow-Origin\<close> is set exactly for
  \<open>XMLHttpRequest\<close>s without an origin.
\<close>

theorem cors_origin_header:
  "map_of (common_polling_headers rc xhr) (lit ''Access-Control-Allow-Origin'') =
   (if xhr \<and> rc_origin rc = None then Some (lit ''*'') else None)"
  by (auto simp: common_polling_headers_def Let_def lit_def split: option.splits)

text \<open>A transport name that parses is the name of the transport, and names are exact.\<close>

theorem transport_kind_parse_iff:
  "transport_kind_parse s = Ok k \<longleftrightarrow>
   s = (case k of KWebSocket \<Rightarrow> lit ''websocket'' | KPolling \<Rightarrow> lit ''polling'')"
  by (cases k) (auto simp: transport_kind_parse_def lit_def)

end
