(* ===== verification/Engine_Socket.thy ===== *)
theory Engine_Socket
  imports Engine_Transport
begin

text \<open>
  \<open>engine_io_server/src/socket.rs\<close>: one Engine.IO connection, its states, its write buffer and the
  callbacks of the packets in it. The adapter \<open>A\<close> is a parameter.

  A callback is an opaque number, and \<open>sk_called\<close> records the calls. \<open>sk_cmds\<close> and \<open>sk_events\<close> are what
  the socket has sent to its transport and to the server. The state is behind a \<open>std::sync::RwLock\<close>:
  a thread that asks for a lock it holds itself blocks or panics, as documented, which is \<open>Panic\<close>
  here, since it does not return in either case.
\<close>

section \<open>State\<close>

type_synonym callback = nat

record server_options =
  so_ping_timeout :: "32 word"
  so_ping_interval :: "32 word"
  so_upgrade_timeout :: "32 word"
  so_transports :: "transport_kind list"
  so_allow_upgrades :: bool
  so_initial_packet :: "packet option"
  so_cookie :: "cookie_options option"
  so_buffer_factor :: nat

datatype upgrade_state = UsInitial | UsUpgrading | UsUpgraded

datatype ready_state = RsOpening | RsOpen | RsClosing bool | RsClosed

datatype socket_error = SkTransportError | SkPacketParseError

datatype close_reason = CrError socket_error | CrTransportClosed | CrTerminatedByServer

datatype socket_event =
    SeOpen rstring
  | SeClose rstring close_reason
  | SeFlush rstring
  | SeDrain rstring
  | SeUpgrade rstring request_context
  | SeHeartbeat rstring
  | SeMessage rstring request_context packet_data
  | SeError rstring

datatype callback_batch = NonFramed "callback list" | Framed callback

datatype rw_lock = LkFree | LkRead | LkWrite

record ('w, 'p) socket =
  sk_id :: rstring
  sk_remote_address :: rstring
  sk_lock :: rw_lock
  sk_upgrade :: upgrade_state
  sk_ready :: ready_state
  sk_transport :: "('w, 'p) transport option"
  sk_write_buffer :: "packet list"
  sk_pending :: "callback list"
  sk_flushed :: "callback_batch list"
  sk_cmds :: "transport_cmd list"
  sk_events :: "socket_event list"
  sk_called :: "callback list"

type_synonym ('w, 'p, 'x) sprog = "(('w, 'p) socket, server_error, 'x) prog"

definition with_write :: "('w, 'p, 'x) sprog \<Rightarrow> ('w, 'p, 'x) sprog" where
  "with_write m = (\<lambda>s.
     if sk_lock s = LkFree
     then (case m (s\<lparr>sk_lock := LkWrite\<rparr>) of
             (Panic, s) \<Rightarrow> (Panic, s)
           | (r, s) \<Rightarrow> (r, s\<lparr>sk_lock := LkFree\<rparr>))
     else (Panic, s))"

definition with_read :: "('w, 'p, 'x) sprog \<Rightarrow> ('w, 'p, 'x) sprog" where
  "with_read m = (\<lambda>s.
     let held = sk_lock s
     in if held = LkWrite then (Panic, s)
        else (case m (s\<lparr>sk_lock := LkRead\<rparr>) of
                (Panic, s) \<Rightarrow> (Panic, s)
              | (r, s) \<Rightarrow> (r, s\<lparr>sk_lock := held\<rparr>)))"

definition send_event :: "socket_event \<Rightarrow> ('w, 'p, unit) sprog" where
  "send_event e = modify (\<lambda>s. s\<lparr>sk_events := sk_events s @ [e]\<rparr>)"

definition send_cmd :: "transport_cmd \<Rightarrow> ('w, 'p, unit) sprog" where
  "send_cmd c = modify (\<lambda>s. s\<lparr>sk_cmds := sk_cmds s @ [c]\<rparr>)"

definition socket_new :: "('w, 'p, 'h, 'b, 'r) adapter \<Rightarrow> rstring \<Rightarrow> request_context \<Rightarrow>
    'h transport_create_data \<Rightarrow> ('w, 'p) socket" where
  "socket_new A i rc create_data =
     \<lparr>sk_id = i, sk_remote_address = rc_remote_address rc, sk_lock = LkFree, sk_upgrade = UsInitial,
      sk_ready = RsOpening, sk_transport = Some (transport_create A rc create_data),
      sk_write_buffer = [], sk_pending = [], sk_flushed = [], sk_cmds = [], sk_events = [],
      sk_called = []\<rparr>"

section \<open>The transport of a socket\<close>

definition set_transport :: "('w, 'p, 'h, 'b, 'r) adapter \<Rightarrow> request_context \<Rightarrow>
    'h transport_create_data \<Rightarrow> ('w, 'p, unit) sprog" where
  "set_transport A rc create_data =
     with_write (modify (\<lambda>s. s\<lparr>sk_transport := Some (transport_create A rc create_data)\<rparr>))"

definition drop_transport :: "('w, 'p) socket \<Rightarrow> ('w, 'p) socket" where
  "drop_transport s = s\<lparr>sk_transport := None\<rparr>"

definition close_transport :: "('w, 'p, unit) sprog" where
  "close_transport = with_write (modify drop_transport)"

definition get_transport_kind :: "('w, 'p, transport_kind option) sprog" where
  "get_transport_kind = with_read (gets (\<lambda>s. map_option transport_get_kind (sk_transport s)))"

definition get_transport_or_fail :: "('w, 'p, ('w, 'p) transport) sprog" where
  "get_transport_or_fail =
     with_read (andthen (gets sk_transport) (\<lambda>t.
       case t of Some transport \<Rightarrow> ret transport | None \<Rightarrow> fail UnknownError))"

text \<open>\<open>get_transport_or_fail().map_or(false, f)\<close>.\<close>

definition transport_test :: "(('w, 'p) transport \<Rightarrow> bool) \<Rightarrow> ('w, 'p, bool) sprog" where
  "transport_test f = (\<lambda>s.
     case get_transport_or_fail s of
       (Ok t, s) \<Rightarrow> (Ok (f t), s)
     | (Err _, s) \<Rightarrow> (Ok False, s)
     | (Panic, s) \<Rightarrow> (Panic, s))"

section \<open>Sending\<close>

definition close_if_closing :: "('w, 'p, unit) sprog" where
  "close_if_closing =
     with_read (andthen (gets sk_ready) (\<lambda>r.
       case r of RsClosing _ \<Rightarrow> close_transport | _ \<Rightarrow> ret ()))"

text \<open>
  The guard of the last \<open>if let\<close> of \<open>flush\<close> lives until the end of its block, so the transport is closed
  with the lock held. The buffer was taken out of its option before, so \<open>None\<close> is what is left.
\<close>

definition flush :: "('w, 'p, 'h, 'b, 'r) adapter \<Rightarrow> ('w, 'p, packet list option) sprog" where
  "flush A =
     andthen (with_read (gets (\<lambda>s. (sk_ready s, length (sk_write_buffer s))))) (\<lambda>(ready, write_buffer_length).
     andthen (if ready \<noteq> RsClosed \<and> write_buffer_length > 0 then transport_test (is_writable A) else ret False)
       (\<lambda>go.
     if go then
       andthen (gets sk_id) (\<lambda>i.
       andthen (send_event (SeFlush i)) (\<lambda>_.
       andthen (with_write (\<lambda>s. (Ok (Some (sk_write_buffer s)), s\<lparr>sk_write_buffer := []\<rparr>))) (\<lambda>buffer.
       andthen (send_cmd (CmdSend (the buffer))) (\<lambda>_.
       let buffer = None in
       andthen (with_write (\<lambda>s. (Ok (sk_pending s), s\<lparr>sk_pending := []\<rparr>))) (\<lambda>callbacks.
       andthen (transport_test supports_framing) (\<lambda>framing.
       let flushed_callbacks = (if framing then map Framed callbacks else [NonFramed callbacks]) in
       andthen (with_write (modify (\<lambda>s. s\<lparr>sk_flushed := sk_flushed s @ flushed_callbacks\<rparr>))) (\<lambda>_.
       andthen (send_event (SeDrain i)) (\<lambda>_.
       andthen close_if_closing (\<lambda>_.
       case buffer of Some b \<Rightarrow> ret (Some b) | None \<Rightarrow> ret None)))))))))
     else ret None))"

definition send_packet :: "('w, 'p, 'h, 'b, 'r) adapter \<Rightarrow> packet \<Rightarrow> callback option \<Rightarrow>
    ('w, 'p, unit) sprog" where
  "send_packet A p cb =
     andthen (with_read (gets sk_ready)) (\<lambda>ready.
     whenp (ready = RsOpening \<or> ready = RsOpen)
       (andthen (with_write (modify (\<lambda>s.
           let s = s\<lparr>sk_write_buffer := sk_write_buffer s @ [p]\<rparr>
           in (case cb of Some c \<Rightarrow> s\<lparr>sk_pending := sk_pending s @ [c]\<rparr> | None \<Rightarrow> s)))) (\<lambda>_.
        andthen (flush A) (\<lambda>_. ret ()))))"

definition socket_send :: "('w, 'p, 'h, 'b, 'r) adapter \<Rightarrow> packet_data \<Rightarrow> callback option \<Rightarrow>
    ('w, 'p, unit) sprog" where
  "socket_send A d cb = andthen (send_packet A \<lparr>ptype = PtMessage, pdata = d\<rparr> cb) (\<lambda>_. ret ())"

definition socket_write :: "('w, 'p, 'h, 'b, 'r) adapter \<Rightarrow> packet_data \<Rightarrow> callback option \<Rightarrow>
    ('w, 'p, unit) sprog" where
  "socket_write A d cb = andthen (send_packet A \<lparr>ptype = PtMessage, pdata = d\<rparr> cb) (\<lambda>_. ret ())"

definition get_available_upgrades :: "('w, 'p, rstring list) sprog" where
  "get_available_upgrades = panic"

definition set_ping_timeout :: "('w, 'p, unit) sprog" where
  "set_ping_timeout = panic"

text \<open>\<open>open_json\<close> is the text that \<open>serde_json\<close> makes of the four fields.\<close>

definition send_open_packet :: "('w, 'p, 'h, 'b, 'r) adapter \<Rightarrow>
    (rstring \<Rightarrow> rstring list \<Rightarrow> 32 word \<Rightarrow> 32 word \<Rightarrow> rstring) \<Rightarrow> server_options \<Rightarrow> ('w, 'p, unit) sprog" where
  "send_open_packet A open_json options =
     andthen (gets sk_id) (\<lambda>sid.
     andthen get_available_upgrades (\<lambda>upgrades.
     let open_packet_data = open_json sid upgrades (so_ping_interval options) (so_ping_timeout options);
         open_packet = \<lparr>ptype = PtOpen, pdata = packet_data_from_str open_packet_data\<rparr>
     in send_packet A open_packet None))"

definition socket_open :: "('w, 'p, 'h, 'b, 'r) adapter \<Rightarrow>
    (rstring \<Rightarrow> rstring list \<Rightarrow> 32 word \<Rightarrow> 32 word \<Rightarrow> rstring) \<Rightarrow> server_options \<Rightarrow> ('w, 'p, unit) sprog" where
  "socket_open A open_json options =
     andthen (with_write (modify (\<lambda>s. s\<lparr>sk_ready := RsOpen\<rparr>))) (\<lambda>_.
     andthen (send_open_packet A open_json options) (\<lambda>_.
     andthen (gets sk_id) (\<lambda>i.
     andthen (send_event (SeOpen i)) (\<lambda>_.
     set_ping_timeout))))"

definition socket_close :: "bool \<Rightarrow> ('w, 'p, unit) sprog" where
  "socket_close discard =
     with_write (andthen (gets sk_ready) (\<lambda>ready.
       whenp (ready = RsOpen)
         (with_write (modify (\<lambda>s.
            let s = s\<lparr>sk_ready := RsClosing discard\<rparr>
            in if sk_write_buffer s = [] then drop_transport s else s)))))"

section \<open>Requests\<close>

text \<open>The polling transport is shared, so the state it has after a request is the one the socket has.\<close>

definition handle_polling_request :: "('w, 'p, 'h, 'b, 'r) adapter \<Rightarrow> request_context \<Rightarrow> 'b option \<Rightarrow>
    ('w, 'p, 'r) sprog" where
  "handle_polling_request A rc body =
     andthen get_transport_or_fail (\<lambda>transport.
     andthen (lift (as_polling_or_fail transport)) (\<lambda>polling.
     let (result, polling) = polling_handle_request A rc body polling in
     andthen (modify (\<lambda>s. s\<lparr>sk_transport := Some (Polling polling)\<rparr>)) (\<lambda>_.
     andthen (lift result) (\<lambda>reply.
       case reply of
         Action event \<Rightarrow>
           (case event of
              EvDrain \<Rightarrow>
                andthen (flush A) (\<lambda>flushed.
                  case flushed of
                    Some packets \<Rightarrow> lift (respond_with_packets A polling rc packets)
                  | None \<Rightarrow> fail BadRequest)
            | _ \<Rightarrow> fail UnknownError)
       | Response response \<Rightarrow> ret response))))"

definition maybe_upgrade :: "('w, 'p, 'h, 'b, 'r) adapter \<Rightarrow> request_context \<Rightarrow>
    'h transport_create_data \<Rightarrow> ('w, 'p, unit) sprog" where
  "maybe_upgrade A rc create_data = set_transport A rc create_data"

section \<open>Events of the transport\<close>

definition on_close :: "close_reason \<Rightarrow> ('w, 'p, unit) sprog" where
  "on_close reason =
     andthen (with_read (gets sk_ready)) (\<lambda>ready.
     andthen (gets sk_id) (\<lambda>i.
     whenp (ready \<noteq> RsClosed)
       (andthen (with_write (modify (\<lambda>s. s\<lparr>sk_ready := RsClosed, sk_write_buffer := [], sk_pending := []\<rparr>))) (\<lambda>_.
        andthen close_transport (\<lambda>_.
        send_event (SeClose i reason))))))"

text \<open>
  The future of the last \<open>send\<close> of \<open>on_transport_error\<close> is not awaited, so it is dropped before it
  runs: \<open>not_awaited\<close>.
\<close>

definition not_awaited :: "('w, 'p, unit) sprog \<Rightarrow> ('w, 'p, unit) sprog" where
  "not_awaited m = ret ()"

definition on_transport_error :: "transport_error \<Rightarrow> ('w, 'p, unit) sprog" where
  "on_transport_error err =
     andthen (with_read (gets sk_ready)) (\<lambda>ready.
     andthen (whenp (ready = RsOpening \<or> ready = RsOpen)
       (case err of
          TePacketParseError \<Rightarrow> on_close (CrError SkPacketParseError)
        | _ \<Rightarrow> on_close (CrError SkTransportError))) (\<lambda>_.
     andthen (gets sk_id) (\<lambda>i.
     not_awaited (send_event (SeError i)))))"

definition on_packet :: "('w, 'p, 'h, 'b, 'r) adapter \<Rightarrow> request_context \<Rightarrow> packet \<Rightarrow>
    ('w, 'p, unit) sprog" where
  "on_packet A rc p =
     andthen (with_read (gets (\<lambda>s. (sk_ready s, sk_upgrade s)))) (\<lambda>(ready, upgrade).
     andthen (gets sk_id) (\<lambda>i.
     whenp (ready = RsOpen)
       (andthen set_ping_timeout (\<lambda>_.
          case ptype p of
            PtPing \<Rightarrow>
              andthen (send_packet A \<lparr>ptype = PtPong, pdata = PdEmpty\<rparr> None) (\<lambda>_.
              send_event (SeHeartbeat i))
          | PtUpgrade \<Rightarrow>
              whenp (ready \<noteq> RsClosed \<and> upgrade = UsUpgrading)
                (andthen close_transport (\<lambda>_.
                 andthen (send_event (SeUpgrade i rc)) (\<lambda>_.
                 andthen set_ping_timeout (\<lambda>_.
                 andthen (flush A) (\<lambda>_. ret ())))))
          | PtMessage \<Rightarrow> send_event (SeMessage i rc (pdata p))
          | _ \<Rightarrow> panic))))"

definition on_flush :: "('w, 'p, 'h, 'b, 'r) adapter \<Rightarrow> ('w, 'p, unit) sprog" where
  "on_flush A = andthen (flush A) (\<lambda>_. ret ())"

definition call_back :: "callback \<Rightarrow> ('w, 'p, unit) sprog" where
  "call_back c = modify (\<lambda>s. s\<lparr>sk_called := sk_called s @ [c]\<rparr>)"

fun call_all :: "callback list \<Rightarrow> ('w, 'p, unit) sprog" where
  "call_all [] = ret ()"
| "call_all (c # cs) = andthen (call_back c) (\<lambda>_. call_all cs)"

definition on_drain :: "('w, 'p, unit) sprog" where
  "on_drain =
     with_write (andthen (gets sk_flushed) (\<lambda>batches.
       case batches of
         [] \<Rightarrow> ret ()
       | first_callback_batch # rest \<Rightarrow>
           andthen (modify (\<lambda>s. s\<lparr>sk_flushed := rest\<rparr>)) (\<lambda>_.
             case first_callback_batch of
               Framed callback \<Rightarrow> call_back callback
             | NonFramed callbacks \<Rightarrow> call_all callbacks)))"

text \<open>The body of the loop of \<open>subscribe_socket_to_transport_events\<close>.\<close>

definition on_transport_event :: "('w, 'p, 'h, 'b, 'r) adapter \<Rightarrow> transport_event \<Rightarrow> ('w, 'p, unit) sprog" where
  "on_transport_event A message =
     (case message of
        EvError err \<Rightarrow> on_transport_error err
      | EvPacket rc p \<Rightarrow> on_packet A rc p
      | EvDrain \<Rightarrow> andthen (on_flush A) (\<lambda>_. on_drain)
      | EvClose \<Rightarrow> on_close CrTransportClosed)"

section \<open>What the operations do when the lock is free\<close>

lemma lock_self [simp]: "sk_lock s = l \<Longrightarrow> s\<lparr>sk_lock := l\<rparr> = s"
  by (cases s) simp

lemma with_read_gets:
  assumes "sk_lock s = LkFree" and "f (s\<lparr>sk_lock := LkRead\<rparr>) = f s"
  shows "with_read (gets f) s = (Ok (f s), s)"
  using assms by (simp add: with_read_def prog_defs)

lemma with_write_modify:
  assumes "sk_lock s = LkFree" and "f (s\<lparr>sk_lock := LkWrite\<rparr>)\<lparr>sk_lock := LkFree\<rparr> = f s"
  shows "with_write (modify f) s = (Ok (), f s)"
  using assms by (simp add: with_write_def prog_defs)

lemma with_write_take:
  assumes "sk_lock s = LkFree" and "g (s\<lparr>sk_lock := LkWrite\<rparr>)\<lparr>sk_lock := LkFree\<rparr> = g s"
    and "f (s\<lparr>sk_lock := LkWrite\<rparr>) = f s"
  shows "with_write (\<lambda>s. (Ok (f s), g s)) s = (Ok (f s), g s)"
  using assms by (simp add: with_write_def)

lemma get_transport_free:
  assumes "sk_lock s = LkFree"
  shows "get_transport_or_fail s =
    (case sk_transport s of Some t \<Rightarrow> Ok t | None \<Rightarrow> Err UnknownError, s)"
  using assms
  by (cases "sk_transport s") (simp_all add: get_transport_or_fail_def with_read_def prog_defs)

lemma transport_test_free:
  assumes "sk_lock s = LkFree"
  shows "transport_test f s = (Ok (case sk_transport s of Some t \<Rightarrow> f t | None \<Rightarrow> False), s)"
  using get_transport_free [OF assms] by (simp add: transport_test_def split: option.splits)

text \<open>When a flush has something to do, and what it does.\<close>

definition flushable :: "('w, 'p, 'h, 'b, 'r) adapter \<Rightarrow> ('w, 'p) socket \<Rightarrow> bool" where
  "flushable A s \<longleftrightarrow> sk_ready s \<noteq> RsClosed \<and> sk_write_buffer s \<noteq> [] \<and>
     (case sk_transport s of Some t \<Rightarrow> is_writable A t | None \<Rightarrow> False)"

definition flushed :: "('w, 'p) socket \<Rightarrow> ('w, 'p) socket" where
  "flushed s = s\<lparr>
     sk_write_buffer := [], sk_cmds := sk_cmds s @ [CmdSend (sk_write_buffer s)], sk_pending := [],
     sk_flushed := sk_flushed s @
       (if (case sk_transport s of Some t \<Rightarrow> supports_framing t | None \<Rightarrow> False)
        then map Framed (sk_pending s) else [NonFramed (sk_pending s)]),
     sk_events := sk_events s @ [SeFlush (sk_id s), SeDrain (sk_id s)]\<rparr>"

lemma close_when_closing:
  assumes "sk_lock s = LkFree"
  shows "close_if_closing s =
    (if \<exists>d. sk_ready s = RsClosing d then (Panic, s\<lparr>sk_lock := LkRead\<rparr>) else (Ok (), s))"
  using assms
  by (cases "sk_ready s") (simp_all add: with_read_def prog_defs close_transport_def with_write_def close_if_closing_def)

lemma flush_free:
  assumes "sk_lock s = LkFree"
  shows "flush A s =
    (if flushable A s
     then (if \<exists>d. sk_ready s = RsClosing d then (Panic, (flushed s)\<lparr>sk_lock := LkRead\<rparr>)
           else (Ok None, flushed s))
     else (Ok None, s))"
proof (cases "flushable A s")
  case False
  then show ?thesis
    using assms
    by (auto simp: flush_def flushable_def with_read_gets transport_test_free andthen_def
        split: option.splits)
next
  case True
  then obtain t where t: "sk_transport s = Some t" "is_writable A t" by (auto simp: flushable_def split: option.splits)
  have "flush A s = andthen close_if_closing (\<lambda>_. ret None) (flushed s)"
    using True t assms
    by (simp add: flush_def flushable_def flushed_def with_read_gets transport_test_free
        with_write_modify with_write_take send_event_def send_cmd_def)
  then show ?thesis
    using True assms by (simp add: close_when_closing flushed_def andthen_def)
qed

definition queued :: "packet \<Rightarrow> callback option \<Rightarrow> ('w, 'p) socket \<Rightarrow> ('w, 'p) socket" where
  "queued p cb s =
     (let s = s\<lparr>sk_write_buffer := sk_write_buffer s @ [p]\<rparr>
      in case cb of Some c \<Rightarrow> s\<lparr>sk_pending := sk_pending s @ [c]\<rparr> | None \<Rightarrow> s)"

definition may_send :: "('w, 'p) socket \<Rightarrow> bool" where
  "may_send s \<longleftrightarrow> sk_ready s = RsOpening \<or> sk_ready s = RsOpen"

definition after_flush :: "('w, 'p, 'h, 'b, 'r) adapter \<Rightarrow> ('w, 'p) socket \<Rightarrow> ('w, 'p) socket" where
  "after_flush A s = (if flushable A s then flushed s else s)"

lemma flush_not_closing:
  "sk_lock s = LkFree \<Longrightarrow> (\<And>d. sk_ready s \<noteq> RsClosing d) \<Longrightarrow> flush A s = (Ok None, after_flush A s)"
  by (simp add: flush_free after_flush_def)

lemma queued_fields [simp]:
  "sk_lock (queued p cb s) = sk_lock s" "sk_ready (queued p cb s) = sk_ready s"
  "sk_write_buffer (queued p cb s) = sk_write_buffer s @ [p]" "sk_cmds (queued p cb s) = sk_cmds s"
  "sk_pending (queued p cb s) = sk_pending s @ (case cb of Some c \<Rightarrow> [c] | None \<Rightarrow> [])"
  "sk_flushed (queued p cb s) = sk_flushed s" "sk_called (queued p cb s) = sk_called s"
  "sk_events (queued p cb s) = sk_events s" "sk_id (queued p cb s) = sk_id s"
  "sk_upgrade (queued p cb s) = sk_upgrade s" "sk_transport (queued p cb s) = sk_transport s"
  by (simp_all add: queued_def Let_def split: option.splits)

lemma send_packet_free:
  assumes "sk_lock s = LkFree"
  shows "send_packet A p cb s = (Ok (), if may_send s then after_flush A (queued p cb s) else s)"
proof -
  have "with_write (modify (\<lambda>s. let s = s\<lparr>sk_write_buffer := sk_write_buffer s @ [p]\<rparr>
           in (case cb of Some c \<Rightarrow> s\<lparr>sk_pending := sk_pending s @ [c]\<rparr> | None \<Rightarrow> s))) s =
    (Ok (), queued p cb s)"
    using assms by (cases cb) (simp_all add: with_write_modify queued_def)
  then show ?thesis
    using assms flush_not_closing [of "queued p cb s" A]
    by (auto simp: send_packet_def with_read_gets may_send_def whenp_def)
qed

definition closed :: "close_reason \<Rightarrow> ('w, 'p) socket \<Rightarrow> ('w, 'p) socket" where
  "closed reason s = s\<lparr>sk_ready := RsClosed, sk_write_buffer := [], sk_pending := [],
     sk_transport := None, sk_events := sk_events s @ [SeClose (sk_id s) reason]\<rparr>"

lemma on_close_free:
  assumes "sk_lock s = LkFree"
  shows "on_close reason s = (Ok (), if sk_ready s = RsClosed then s else closed reason s)"
  using assms
  by (simp add: on_close_def with_read_gets with_write_modify close_transport_def drop_transport_def
      whenp_def send_event_def closed_def)

lemma on_transport_error_free:
  assumes "sk_lock s = LkFree"
  shows "on_transport_error e s = (Ok (), if may_send s
    then closed (CrError (case e of TePacketParseError \<Rightarrow> SkPacketParseError | _ \<Rightarrow> SkTransportError)) s else s)"
  using assms
  by (auto simp: on_transport_error_def with_read_gets on_close_free may_send_def whenp_def
      not_awaited_def split: transport_error.splits)

lemma on_packet_free:
  assumes "sk_lock s = LkFree"
  shows "on_packet A rc p s = (if sk_ready s = RsOpen then (Panic, s) else (Ok (), s))"
  using assms
  by (simp add: on_packet_def with_read_gets set_ping_timeout_def)

lemma socket_open_free:
  assumes "sk_lock s = LkFree"
  shows "socket_open A open_json options s = (Panic, s\<lparr>sk_ready := RsOpen\<rparr>)"
  using assms
  by (simp add: socket_open_def with_write_modify send_open_packet_def get_available_upgrades_def)

lemma socket_close_free:
  assumes "sk_lock s = LkFree"
  shows "socket_close discard s =
    (if sk_ready s = RsOpen then (Panic, s\<lparr>sk_lock := LkWrite\<rparr>) else (Ok (), s))"
  using assms
  by (simp add: socket_close_def with_write_def prog_defs)

fun batch_callbacks :: "callback_batch \<Rightarrow> callback list" where
  "batch_callbacks (Framed c) = [c]"
| "batch_callbacks (NonFramed cs) = cs"

definition drained :: "('w, 'p) socket \<Rightarrow> ('w, 'p) socket" where
  "drained s = (case sk_flushed s of [] \<Rightarrow> s
     | b # bs \<Rightarrow> s\<lparr>sk_flushed := bs, sk_called := sk_called s @ batch_callbacks b\<rparr>)"

lemma call_all_free: "call_all cs s = (Ok (), s\<lparr>sk_called := sk_called s @ cs\<rparr>)"
  by (induction cs arbitrary: s) (simp_all add: prog_defs call_back_def andthen_def)

lemma on_drain_free:
  assumes "sk_lock s = LkFree"
  shows "on_drain s = (Ok (), drained s)"
proof (cases "sk_flushed s")
  case Nil
  with assms show ?thesis by (simp add: on_drain_def with_write_def prog_defs drained_def)
next
  case (Cons b bs)
  with assms show ?thesis
    by (cases b) (simp_all add: on_drain_def with_write_def drained_def call_all_free call_back_def modify_def)
qed

lemma handle_polling_free:
  assumes "sk_lock s = LkFree"
  shows "handle_polling_request A rc body s =
    (case sk_transport s of
       None \<Rightarrow> (Err UnknownError, s)
     | Some (WebSocket _) \<Rightarrow> (Err BadRequest, s)
     | Some (Polling polling) \<Rightarrow>
         (let (r, polling) = polling_handle_request A rc body polling;
              s = s\<lparr>sk_transport := Some (Polling polling)\<rparr>
          in case r of
               Ok (Response x) \<Rightarrow> (Ok x, s)
             | Ok (Action EvDrain) \<Rightarrow>
                 if flushable A s \<and> (\<exists>d. sk_ready s = RsClosing d) then (Panic, (flushed s)\<lparr>sk_lock := LkRead\<rparr>)
                 else (Err BadRequest, after_flush A s)
             | Ok (Action _) \<Rightarrow> (Err UnknownError, s)
             | Err e \<Rightarrow> (Err e, s)
             | Panic \<Rightarrow> (Panic, s)))"
  using assms
  by (auto simp: handle_polling_request_def get_transport_free flush_free after_flush_def Let_def
      split: option.splits transport.splits prod.splits outcome.splits
      request_reply.splits transport_event.splits)

section \<open>Packets and callbacks are kept in order\<close>

text \<open>
  The abstract view of a socket: the packets it has accepted, which are those sent to the transport
  followed by those in the buffer, and the callbacks it has taken, in the order in which they are called.
\<close>

fun cmd_packets :: "transport_cmd \<Rightarrow> packet list" where
  "cmd_packets (CmdSend ps) = ps"

definition accepted :: "('w, 'p) socket \<Rightarrow> packet list" where
  "accepted s = concat (map cmd_packets (sk_cmds s)) @ sk_write_buffer s"

definition callbacks :: "('w, 'p) socket \<Rightarrow> callback list" where
  "callbacks s = sk_called s @ concat (map batch_callbacks (sk_flushed s)) @ sk_pending s"

lemma concat_framed [simp]: "concat (map (batch_callbacks \<circ> Framed) cs) = cs"
  by (induction cs) simp_all

lemma flushed_view [simp]: "accepted (flushed s) = accepted s" "callbacks (flushed s) = callbacks s"
  by (simp_all add: accepted_def callbacks_def flushed_def)

lemma after_flush_view [simp]:
  "accepted (after_flush A s) = accepted s" "callbacks (after_flush A s) = callbacks s"
  by (simp_all add: after_flush_def)

lemma lock_view [simp]: "accepted (s\<lparr>sk_lock := l\<rparr>) = accepted s" "callbacks (s\<lparr>sk_lock := l\<rparr>) = callbacks s"
  by (simp_all add: accepted_def callbacks_def)

text \<open>
  C9: Sending a packet appends it to the packets the socket has accepted, and its callback to the
  callbacks, exactly if the socket is opening or open, and otherwise changes nothing. In neither case
  is an earlier packet or callback lost, repeated or overtaken, whether the buffer is flushed or not.
\<close>

theorem send_packet_refines:
  assumes "sk_lock s = LkFree"
  shows "accepted (snd (send_packet A p cb s)) = accepted s @ (if may_send s then [p] else []) \<and>
    callbacks (snd (send_packet A p cb s)) =
      callbacks s @ (case cb of Some c \<Rightarrow> if may_send s then [c] else [] | None \<Rightarrow> [])"
  using assms
  by (auto simp: send_packet_free accepted_def [of "queued p cb s"] callbacks_def [of "queued p cb s"]
      accepted_def [of s] callbacks_def [of s] split: option.splits)

text \<open>
  Flushing and draining keep the accepted packets and the callbacks as they are. A flush with a
  writable transport empties the buffer into a single command; with a transport that is not
  writable it does nothing. A drain calls the callbacks of one batch.
\<close>

theorem flush_drain_refine:
  assumes "sk_lock s = LkFree"
  shows "accepted (snd (flush A s)) = accepted s \<and> callbacks (snd (flush A s)) = callbacks s \<and>
    accepted (snd (on_drain s)) = accepted s \<and> callbacks (snd (on_drain s)) = callbacks s \<and>
    (if flushable A s then sk_cmds (snd (flush A s)) = sk_cmds s @ [CmdSend (sk_write_buffer s)] \<and>
        sk_write_buffer (snd (flush A s)) = []
     else flush A s = (Ok None, s)) \<and>
    sk_called (snd (on_drain s)) = sk_called s @ batch_callbacks (hd (sk_flushed s @ [NonFramed []]))"
  using assms
  by (cases "sk_flushed s")
    (simp_all add: flush_free on_drain_free drained_def accepted_def callbacks_def flushed_def)

text \<open>
  \<open>flush\<close> never returns the packets it has taken: its result is \<open>None\<close> whenever it returns, because
  the buffer was moved to the transport command.
\<close>

theorem flush_returns_none:
  assumes "flush A s = (Ok r, s')"
  shows "r = None"
  using assms unfolding flush_def
  by (auto simp: andthen_eq_Ok Let_def split: if_splits)

text \<open>
  The packets waiting for a polling client are never handed to it: how the transport would respond
  with packets is irrelevant to the reply, and a poll request is answered with \<open>BadRequest\<close> as long
  as the socket is not closing.
\<close>

theorem polling_never_responds_with_packets:
  assumes "sk_lock s = LkFree"
  shows "handle_polling_request (A\<lparr>respond_with_packets := f\<rparr>) rc body s = handle_polling_request A rc body s \<and>
    (\<forall>pl pl'. sk_transport s = Some (Polling pl) \<and> polling_handle_request A rc body pl = (Ok (Action EvDrain), pl') \<and>
        (\<forall>d. sk_ready s \<noteq> RsClosing d) \<longrightarrow>
      fst (handle_polling_request A rc body s) = Err BadRequest)"
proof -
  have w: "is_writable (A\<lparr>respond_with_packets := f\<rparr>) t = is_writable A t" for t
    by (cases t) simp_all
  then show ?thesis
    using assms
    by (auto simp: handle_polling_free flushable_def after_flush_def Let_def
        split: option.splits transport.splits prod.splits outcome.splits request_reply.splits transport_event.splits)
qed

section \<open>The life of a socket\<close>

text \<open>
  What can happen to a socket, in any order: the calls of the server and the events of the transport.
  \<open>run_op\<close> is the operation, and a step is one operation, whether it returns or not. A socket is
  opened only while it is new, as the handshake does it.
\<close>

datatype ('b, 'h) socket_op =
    OpOpen server_options
  | OpClose bool
  | OpSend packet "callback option"
  | OpRequest request_context "'b option"
  | OpUpgrade request_context "'h transport_create_data"
  | OpEvent transport_event

definition run_op :: "('w, 'p, 'h, 'b, 'r) adapter \<Rightarrow>
    (rstring \<Rightarrow> rstring list \<Rightarrow> 32 word \<Rightarrow> 32 word \<Rightarrow> rstring) \<Rightarrow> ('b, 'h) socket_op \<Rightarrow>
    ('w, 'p, unit) sprog" where
  "run_op A open_json op =
     (case op of
        OpOpen options \<Rightarrow> socket_open A open_json options
      | OpClose discard \<Rightarrow> socket_close discard
      | OpSend p cb \<Rightarrow> send_packet A p cb
      | OpRequest rc body \<Rightarrow> andthen (handle_polling_request A rc body) (\<lambda>_. ret ())
      | OpUpgrade rc create_data \<Rightarrow> maybe_upgrade A rc create_data
      | OpEvent message \<Rightarrow> on_transport_event A message)"

inductive socket_step :: "('w, 'p, 'h, 'b, 'r) adapter \<Rightarrow>
    (rstring \<Rightarrow> rstring list \<Rightarrow> 32 word \<Rightarrow> 32 word \<Rightarrow> rstring) \<Rightarrow>
    ('w, 'p) socket \<Rightarrow> ('w, 'p) socket \<Rightarrow> bool" for A open_json where
  step: "(\<forall>options. op = OpOpen options \<longrightarrow> sk_ready s = RsOpening) \<Longrightarrow>
    socket_step A open_json s (snd (run_op A open_json op s))"

inductive reachable :: "('w, 'p, 'h, 'b, 'r) adapter \<Rightarrow>
    (rstring \<Rightarrow> rstring list \<Rightarrow> 32 word \<Rightarrow> 32 word \<Rightarrow> rstring) \<Rightarrow> ('w, 'p) socket \<Rightarrow> bool"
  for A open_json where
  reach_new: "reachable A open_json (socket_new A i rc create_data)"
| reach_step: "reachable A open_json s \<Longrightarrow> socket_step A open_json s t \<Longrightarrow> reachable A open_json t"

inductive_simps socket_step_iff: "socket_step A open_json s t"

text \<open>
  The invariant. A socket is never closing, because closing it never returns; its lock is free, or
  held for ever after a close; a closed socket has an empty buffer; its events are a flush and a drain
  for each command, and at last a close.
\<close>

definition flush_events :: "('w, 'p) socket \<Rightarrow> socket_event list" where
  "flush_events s = concat (replicate (length (sk_cmds s)) [SeFlush (sk_id s), SeDrain (sk_id s)])"

definition socket_inv :: "('w, 'p) socket \<Rightarrow> bool" where
  "socket_inv s \<longleftrightarrow>
     (sk_lock s = LkFree \<or> sk_lock s = LkWrite) \<and> (\<forall>d. sk_ready s \<noteq> RsClosing d) \<and>
     (sk_ready s = RsClosed \<longrightarrow> sk_write_buffer s = [] \<and> sk_pending s = []) \<and>
     (\<exists>reason. sk_events s = flush_events s @ (if sk_ready s = RsClosed then [SeClose (sk_id s) reason] else []))"

lemma inv_closed: "socket_inv s \<Longrightarrow> sk_ready s \<noteq> RsClosed \<Longrightarrow> socket_inv (closed reason s)"
  by (auto simp: socket_inv_def closed_def flush_events_def)

lemma inv_transport: "socket_inv s \<Longrightarrow> socket_inv (s\<lparr>sk_transport := t\<rparr>)"
  by (auto simp: socket_inv_def flush_events_def)

lemma inv_after_flush: "socket_inv s \<Longrightarrow> socket_inv (after_flush A s)"
  by (auto simp: socket_inv_def after_flush_def flushable_def flushed_def flush_events_def
      replicate_append_same [symmetric])

lemma inv_queued: "socket_inv s \<Longrightarrow> may_send s \<Longrightarrow> socket_inv (queued p cb s)"
  by (auto simp: socket_inv_def may_send_def flush_events_def)

lemma inv_drained: "socket_inv s \<Longrightarrow> socket_inv (drained s)"
  by (auto simp: socket_inv_def drained_def flush_events_def split: list.splits)

lemma may_send_not_closed: "may_send s \<Longrightarrow> sk_ready s \<noteq> RsClosed"
  by (auto simp: may_send_def)

lemma write_locked:
  assumes "sk_lock s = LkWrite"
  shows "with_read m s = (Panic, s)" and "with_write m s = (Panic, s)"
  using assms by (simp_all add: with_read_def with_write_def)

text \<open>After a close, whoever held the lock holds it for ever: nothing returns any more.\<close>

lemma locked_stuck:
  assumes "sk_lock s = LkWrite"
  shows "run_op A open_json op s = (Panic, s)"
  using assms
  by (cases op)
    (auto simp: run_op_def socket_open_def socket_close_def send_packet_def handle_polling_request_def
      get_transport_or_fail_def maybe_upgrade_def set_transport_def on_transport_event_def on_flush_def
      flush_def on_close_def on_transport_error_def on_packet_def write_locked split: transport_event.splits)

lemma event_inv:
  assumes "socket_inv s" and "sk_lock s = LkFree"
  shows "socket_inv (snd (on_transport_event A message s))"
proof (cases message)
  case (EvError e)
  with assms show ?thesis
    by (auto simp: on_transport_event_def on_transport_error_free inv_closed may_send_not_closed)
next
  case (EvPacket rc p)
  with assms show ?thesis by (auto simp: on_transport_event_def on_packet_free)
next
  case EvDrain
  have "flush A s = (Ok None, after_flush A s)"
    using assms by (intro flush_not_closing) (auto simp: socket_inv_def)
  moreover have "sk_lock (after_flush A s) = LkFree"
    using assms(2) by (simp add: after_flush_def flushed_def)
  ultimately show ?thesis
    using EvDrain assms inv_drained [OF inv_after_flush [OF assms(1)]]
    by (simp add: on_transport_event_def on_flush_def on_drain_free)
next
  case EvClose
  with assms show ?thesis
    by (simp add: on_transport_event_def on_close_free inv_closed)
qed

lemma request_inv:
  assumes "socket_inv s" and "sk_lock s = LkFree"
  shows "socket_inv (snd (handle_polling_request A rc body s))"
proof -
  have "\<forall>d. sk_ready s \<noteq> RsClosing d" using assms(1) by (simp add: socket_inv_def)
  with assms show ?thesis
    by (auto simp: handle_polling_free inv_transport inv_after_flush Let_def
        split: option.splits transport.splits prod.splits outcome.splits request_reply.splits transport_event.splits)
qed

lemma snd_then_ret: "snd (andthen m (\<lambda>_. ret ()) s) = snd (m s)"
  by (auto simp: andthen_def split: prod.splits outcome.splits)

lemma run_op_inv:
  assumes "socket_inv s" and "\<forall>options. op = OpOpen options \<longrightarrow> sk_ready s = RsOpening"
  shows "socket_inv (snd (run_op A open_json op s))"
proof (cases "sk_lock s = LkFree")
  case False
  with assms have "sk_lock s = LkWrite" by (auto simp: socket_inv_def)
  with assms show ?thesis by (simp add: locked_stuck)
next
  case True
  show ?thesis
  proof (cases op)
    case (OpOpen options)
    with True assms show ?thesis
      by (auto simp: run_op_def socket_open_free socket_inv_def flush_events_def)
  next
    case (OpClose discard)
    with True assms show ?thesis
      by (auto simp: run_op_def socket_close_free socket_inv_def flush_events_def)
  next
    case (OpSend p cb)
    with True assms show ?thesis
      by (simp add: run_op_def send_packet_free inv_after_flush inv_queued)
  next
    case (OpRequest rc body)
    with True assms show ?thesis by (simp add: run_op_def snd_then_ret request_inv)
  next
    case (OpUpgrade rc create_data)
    with True assms show ?thesis
      by (simp add: run_op_def maybe_upgrade_def set_transport_def with_write_modify inv_transport)
  next
    case (OpEvent message)
    with True assms show ?thesis by (simp add: run_op_def event_inv)
  qed
qed

lemma reachable_inv:
  assumes "reachable A open_json s"
  shows "socket_inv s"
  using assms
proof induction
  case (reach_new i rc create_data)
  show ?case by (simp add: socket_inv_def socket_new_def flush_events_def)
next
  case (reach_step s t)
  then show ?case by (auto simp: socket_step_iff run_op_inv)
qed

text \<open>
  C10: In every order of operations, the events a socket has sent to its server are a flush and a drain
  for each command, and a close at the end once it is closed: no message of the client, no heartbeat,
  no upgrade, no error and not even an open event is ever sent, and the close is sent once.
\<close>

theorem socket_events:
  assumes "reachable A open_json s"
  shows "\<exists>reason. sk_events s =
    concat (replicate (length (sk_cmds s)) [SeFlush (sk_id s), SeDrain (sk_id s)]) @
    (if sk_ready s = RsClosed then [SeClose (sk_id s) reason] else [])"
  using reachable_inv [OF assms] by (simp add: socket_inv_def flush_events_def)

definition unchanged :: "('w, 'p) socket \<Rightarrow> ('w, 'p) socket \<Rightarrow> bool" where
  "unchanged s t \<longleftrightarrow> sk_ready t = sk_ready s \<and> sk_events t = sk_events s \<and> sk_cmds t = sk_cmds s \<and>
     sk_write_buffer t = sk_write_buffer s"

lemma closed_idle: "sk_ready s = RsClosed \<Longrightarrow> flushable A s = False"
  by (simp add: flushable_def)

lemma closed_flush: "sk_ready s = RsClosed \<Longrightarrow> sk_lock s = LkFree \<Longrightarrow> flush A s = (Ok None, s)"
  by (simp add: flush_free closed_idle)

lemma closed_op:
  assumes "sk_ready s = RsClosed" and "sk_lock s = LkFree" and "\<forall>options. op \<noteq> OpOpen options"
  shows "unchanged s (snd (run_op A open_json op s))"
proof (cases op)
  case (OpRequest rc body)
  with assms show ?thesis
    by (auto simp: unchanged_def run_op_def snd_then_ret handle_polling_free after_flush_def closed_idle Let_def
        split: option.splits transport.splits prod.splits outcome.splits request_reply.splits transport_event.splits)
next
  case (OpEvent message)
  with assms show ?thesis
    by (cases message)
      (auto simp: unchanged_def run_op_def on_transport_event_def on_transport_error_free may_send_def on_packet_free
        on_flush_def closed_flush on_drain_free drained_def on_close_free split: list.splits)
qed (use assms in \<open>simp_all add: unchanged_def run_op_def socket_close_free send_packet_free may_send_def
  maybe_upgrade_def set_transport_def with_write_modify\<close>)

lemma closed_step:
  assumes "reachable A open_json s" and "sk_ready s = RsClosed" and "socket_step A open_json s t"
  shows "sk_ready t = RsClosed \<and> sk_events t = sk_events s \<and> sk_cmds t = sk_cmds s \<and> sk_write_buffer t = []"
proof -
  obtain op where op: "t = snd (run_op A open_json op s)" "\<forall>options. op \<noteq> OpOpen options"
    using assms(2,3) by (auto simp: socket_step_iff)
  have inv: "socket_inv s" using assms(1) by (rule reachable_inv)
  have "unchanged s t"
  proof (cases "sk_lock s = LkFree")
    case True
    with closed_op assms(2) op show ?thesis by blast
  next
    case False
    with inv have "sk_lock s = LkWrite" by (auto simp: socket_inv_def)
    with op(1) show ?thesis by (simp add: locked_stuck unchanged_def)
  qed
  with inv assms(2) show ?thesis by (simp add: unchanged_def socket_inv_def)
qed

text \<open>
  Opening a connection never returns: it panics after the state has become open, before the open
  packet is queued. Closing an open one never returns either and leaves the lock held, so no
  operation on the socket returns after it. A packet from the client makes an open socket panic.
\<close>

theorem open_close_packet_panic:
  assumes "sk_lock s = LkFree"
  shows "socket_open A open_json options s = (Panic, s\<lparr>sk_ready := RsOpen\<rparr>) \<and>
    (sk_ready s = RsOpen \<longrightarrow>
      fst (socket_close discard s) = Panic \<and>
      fst (run_op A open_json op (snd (socket_close discard s))) = Panic \<and>
      on_packet A rc p s = (Panic, s))"
  using assms by (simp add: socket_open_free socket_close_free locked_stuck on_packet_free)

text \<open>
  A transport error closes the connection with the matching reason if it is opening or open, and
  the error itself is never reported: no error event is sent in any state.
\<close>

theorem transport_error_closes:
  assumes "sk_lock s = LkFree"
  shows "let t = snd (on_transport_error e s) in
    sk_events t = sk_events s @ (if may_send s
      then [SeClose (sk_id s) (CrError (if e = TePacketParseError then SkPacketParseError else SkTransportError))]
      else []) \<and>
    (may_send s \<longrightarrow> sk_ready t = RsClosed \<and> sk_transport t = None \<and> sk_write_buffer t = [] \<and> sk_pending t = [])"
  using assms by (cases e) (simp_all add: on_transport_error_free closed_def)

section \<open>What a socket never takes back\<close>

text \<open>A socket keeps its id, and what it has sent and called is only added to.\<close>

definition grows :: "('w, 'p) socket \<Rightarrow> ('w, 'p) socket \<Rightarrow> bool" where
  "grows s t \<longleftrightarrow> sk_id t = sk_id s \<and> prefix (sk_events s) (sk_events t) \<and> prefix (sk_cmds s) (sk_cmds t) \<and>
     prefix (sk_called s) (sk_called t)"

interpretation grow: step_relation grows
  by unfold_locales (auto simp: grows_def)

lemma grows_lock [simp]: "grows (s\<lparr>sk_lock := l\<rparr>) t = grows s t" "grows s (t\<lparr>sk_lock := l\<rparr>) = grows s t"
  by (simp_all add: grows_def)

lemma grows_with:
  assumes "keeps grows m"
  shows "keeps grows (with_write m)" and "keeps grows (with_read m)"
proof -
  have *: "m s = (r, t) \<Longrightarrow> grows s t" for s r t
    using keepsD [OF assms, of s] by simp
  have w: "m (s\<lparr>sk_lock := l\<rparr>) = (r, t) \<Longrightarrow> grows s t" for s r t l
    using * [of "s\<lparr>sk_lock := l\<rparr>" r t] by simp
  then show "keeps grows (with_write m)" "keeps grows (with_read m)"
    by (auto simp: keeps_def with_write_def with_read_def Let_def grow.same
        split: prod.splits outcome.splits)
qed

lemma grows_take:
  "(\<And>s. grows s (g s)) \<Longrightarrow> keeps grows (\<lambda>s. (Ok (f s), g s))"
  by (simp add: keeps_def)

lemma grows_prims:
  "keeps grows (send_event e)" "keeps grows (send_cmd c)" "keeps grows (call_back k)"
  "keeps grows get_transport_or_fail" "keeps grows get_transport_kind" "keeps grows close_transport"
  "keeps grows (set_transport A rc d)" "keeps grows (not_awaited m)" "keeps grows close_if_closing"
  "keeps grows get_available_upgrades" "keeps grows set_ping_timeout" "keeps grows (call_all cs)"
proof -
  show *: "keeps grows (send_event e)" "keeps grows (send_cmd c)" "keeps grows (call_back k)" for e c k
    by (simp_all add: send_event_def send_cmd_def call_back_def keeps_def grows_def)
  show "keeps grows get_transport_or_fail" "keeps grows get_transport_kind" "keeps grows (not_awaited m)"
    "keeps grows get_available_upgrades" "keeps grows set_ping_timeout" for m
    by (auto simp: get_transport_or_fail_def get_transport_kind_def not_awaited_def
        get_available_upgrades_def set_ping_timeout_def intro!: grows_with grow.keeps_rules split: option.splits)
  show c: "keeps grows close_transport" "keeps grows (set_transport A rc d)" for A rc d
    by (auto simp: close_transport_def set_transport_def drop_transport_def grows_def
        intro!: grows_with grow.keeps_modify)
  show "keeps grows close_if_closing"
    by (auto simp: close_if_closing_def c intro!: grows_with grow.keeps_rules split: ready_state.splits)
  show "keeps grows (call_all cs)"
  proof (induction cs)
    case Nil
    show ?case unfolding call_all.simps by (rule grow.keeps_prims)
  next
    case (Cons c cs)
    then show ?case unfolding call_all.simps by (intro grow.keeps_andthen *(3))
  qed
qed

lemma grows_test: "keeps grows (transport_test f :: ('w, 'p, bool) sprog)"
  unfolding keeps_def
proof
  fix s :: "('w, 'p) socket"
  have "grows s (snd (get_transport_or_fail s))" by (rule keepsD) (rule grows_prims)
  then show "grows s (snd (transport_test f s))"
    by (auto simp: transport_test_def split: prod.splits outcome.splits)
qed

lemmas grows_rules = grow.keeps_rules grows_with grows_prims grows_test grows_take

lemma grows_flush: "keeps grows (flush A)"
  unfolding flush_def
  by (auto intro!: grows_rules simp: grows_def Let_def split: prod.splits option.splits)

lemma grows_ops:
  "keeps grows (send_packet A p cb)" "keeps grows (on_close reason)" "keeps grows on_drain"
  "keeps grows (socket_close discard)"
proof -
  show "keeps grows (send_packet A p cb)"
    unfolding send_packet_def
    by (auto intro!: grows_rules grows_flush simp: grows_def Let_def split: option.splits)
  show "keeps grows (on_close reason)"
    unfolding on_close_def by (auto intro!: grows_rules simp: grows_def)
  show "keeps grows on_drain"
    unfolding on_drain_def
    by (auto intro!: grows_rules simp: grows_def split: list.splits callback_batch.splits)
  show "keeps grows (socket_close discard)"
    unfolding socket_close_def
    by (auto intro!: grows_rules simp: grows_def Let_def drop_transport_def)
qed

lemma grows_request: "keeps grows (handle_polling_request A rc body)"
  unfolding handle_polling_request_def
  by (auto intro!: grows_rules grows_flush simp: grows_def
      split: prod.splits option.splits request_reply.splits transport_event.splits)

lemma grows_open: "keeps grows (socket_open A open_json options)"
  unfolding socket_open_def send_open_packet_def
  by (auto intro!: grows_rules grows_ops simp: grows_def Let_def)

lemma grows_error: "keeps grows (on_transport_error e)"
  unfolding on_transport_error_def
  by (auto intro!: grows_rules grows_ops split: transport_error.splits)

lemma grows_packet: "keeps grows (on_packet A rc p)"
  unfolding on_packet_def
  by (auto intro!: grows_rules grows_ops grows_flush split: prod.splits packet_type.splits)

lemma grows_event: "keeps grows (on_transport_event A message)"
  unfolding on_transport_event_def on_flush_def
  by (auto intro!: grows_rules grows_ops grows_flush grows_error grows_packet split: transport_event.splits)

lemma grows_run_op: "keeps grows (run_op A open_json op)"
  unfolding run_op_def maybe_upgrade_def
  by (auto intro!: grows_rules grows_ops grows_request grows_event grows_open split: socket_op.splits)

section \<open>The order of the states\<close>

text \<open>The states of a connection in the order in which it goes through them.\<close>

fun phase :: "ready_state \<Rightarrow> nat" where
  "phase RsOpening = 0"
| "phase RsOpen = 1"
| "phase (RsClosing with_discard) = (if with_discard then 3 else 2)"
| "phase RsClosed = 4"

lemma phase_inj: "phase r = phase r' \<Longrightarrow> r = r'"
  by (cases r; cases r') (auto split: if_splits)

instantiation ready_state :: linorder
begin

definition less_eq_ready_state :: "ready_state \<Rightarrow> ready_state \<Rightarrow> bool" where
  "less_eq_ready_state r r' \<longleftrightarrow> phase r \<le> phase r'"

definition less_ready_state :: "ready_state \<Rightarrow> ready_state \<Rightarrow> bool" where
  "less_ready_state r r' \<longleftrightarrow> phase r < phase r'"

instance
  by standard (auto simp: less_eq_ready_state_def less_ready_state_def intro: phase_inj)

end

lemma ready_state_bounds [simp]: "RsOpening \<le> r" "r \<le> RsClosed" "RsClosed \<le> r \<longleftrightarrow> r = RsClosed"
  "r \<le> RsOpening \<longleftrightarrow> r = RsOpening"
  by (cases r; simp add: less_eq_ready_state_def)+

lemma run_op_advances:
  assumes "socket_inv s" and "sk_lock s = LkFree" and "\<forall>options. op = OpOpen options \<longrightarrow> sk_ready s = RsOpening"
  shows "sk_ready s \<le> sk_ready (snd (run_op A open_json op s))"
proof (cases op)
  case (OpRequest rc body)
  with assms show ?thesis
    by (auto simp: run_op_def snd_then_ret handle_polling_free after_flush_def flushed_def Let_def
        split: option.splits transport.splits prod.splits outcome.splits request_reply.splits transport_event.splits)
next
  case (OpEvent message)
  moreover have "flush A s = (Ok None, after_flush A s)"
    using assms by (intro flush_not_closing) (auto simp: socket_inv_def)
  ultimately show ?thesis
    using assms by (cases message)
      (auto simp: run_op_def on_transport_event_def on_transport_error_free on_packet_free closed_def
        on_flush_def after_flush_def flushed_def on_drain_free drained_def on_close_free split: list.splits)
qed (use assms in \<open>auto simp: run_op_def socket_close_free send_packet_free socket_open_free after_flush_def flushed_def queued_def
  maybe_upgrade_def set_transport_def with_write_modify Let_def split: option.splits\<close>)

lemma step_advances:
  assumes "reachable A open_json s" and "socket_step A open_json s t"
  shows "sk_ready s \<le> sk_ready t \<and> grows s t"
proof -
  obtain op where op: "t = snd (run_op A open_json op s)" "\<forall>options. op = OpOpen options \<longrightarrow> sk_ready s = RsOpening"
    using assms(2) by (auto simp: socket_step_iff)
  have inv: "socket_inv s" using assms(1) by (rule reachable_inv)
  have "sk_ready s \<le> sk_ready t"
  proof (cases "sk_lock s = LkFree")
    case True
    with run_op_advances [OF inv] op show ?thesis by blast
  next
    case False
    with inv have "sk_lock s = LkWrite" by (auto simp: socket_inv_def)
    with op(1) show ?thesis by (simp add: locked_stuck)
  qed
  then show ?thesis using keepsD [OF grows_run_op] op(1) by blast
qed

text \<open>
  C31: The life of a socket. Whatever happens to it, in any order and for any time, its state only moves
  on, from opening over open to closed, and what it has sent and called is only added to. Once it is
  closed, it stays closed and silent: it sends neither events nor packets, and accepts no packet.
\<close>

theorem socket_life:
  assumes "reachable A open_json s" and "(socket_step A open_json)\<^sup>*\<^sup>* s t"
  shows "sk_ready s \<le> sk_ready t \<and> prefix (sk_events s) (sk_events t) \<and> prefix (sk_cmds s) (sk_cmds t) \<and>
    prefix (sk_called s) (sk_called t) \<and>
    (sk_ready s = RsClosed \<longrightarrow> sk_ready t = RsClosed \<and> sk_events t = sk_events s \<and> sk_cmds t = sk_cmds s \<and>
       sk_write_buffer t = [])"
proof -
  have "reachable A open_json t \<and> sk_ready s \<le> sk_ready t \<and> grows s t \<and>
    (sk_ready s = RsClosed \<longrightarrow> sk_events t = sk_events s \<and> sk_cmds t = sk_cmds s)"
    using assms(2)
  proof induction
    case base
    show ?case using assms(1) by (simp add: grow.same)
  next
    case (step t u)
    then have "sk_ready t \<le> sk_ready u \<and> grows t u" using step_advances by blast
    with step closed_step [of A open_json t u] show ?case
      by (auto intro: reach_step order_trans grow.steps)
  qed
  then show ?thesis
    using reachable_inv [of A open_json t] by (auto simp: grows_def socket_inv_def)
qed

section \<open>Witnesses\<close>

text \<open>An adapter for the witnesses: WebSockets are writable, polling transports are not.\<close>

definition adapter_ref :: "(unit, unit, unit, unit, unit) adapter" where
  "adapter_ref = \<lparr>websocket_new = (\<lambda>_ _ _ _. ()), polling_new = (\<lambda>_ _. ()), websocket_writable = (\<lambda>_. True),
     polling_writable = (\<lambda>_. False), respond_with_packets = (\<lambda>_ _ _. Ok ()),
     polling_handle_request = (\<lambda>_ _. ret (Action EvDrain))\<rparr>"

definition context_ref :: request_context where
  "context_ref = \<lparr>rc_query = Map.empty, rc_headers = Map.empty, rc_origin = None, rc_secure = False,
     rc_user_agent = [], rc_content_type = [], rc_transport_kind = KPolling, rc_http_method = MGet,
     rc_remote_address = [], rc_request_url = [], rc_set_cookie = None\<rparr>"

abbreviation ws_ref :: "(unit, unit) socket" where
  "ws_ref \<equiv> socket_new adapter_ref (lit ''a'') context_ref (CreateWebSocket True ())"

abbreviation poll_ref :: "(unit, unit) socket" where
  "poll_ref \<equiv> socket_new adapter_ref (lit ''a'') context_ref (CreatePolling False)"

abbreviation noop_ref :: packet where
  "noop_ref \<equiv> \<lparr>ptype = PtNoop, pdata = PdEmpty\<rparr>"

lemma socket_new_fields [simp]:
  "sk_lock (socket_new A i rc d) = LkFree" "sk_ready (socket_new A i rc d) = RsOpening"
  "sk_id (socket_new A i rc d) = i" "sk_write_buffer (socket_new A i rc d) = []"
  "sk_pending (socket_new A i rc d) = []" "sk_flushed (socket_new A i rc d) = []"
  "sk_cmds (socket_new A i rc d) = []" "sk_events (socket_new A i rc d) = []"
  "sk_called (socket_new A i rc d) = []"
  "sk_transport (socket_new A i rc d) = Some (transport_create A rc d)"
  by (simp_all add: socket_new_def)

theorem send_packet_refines_witness:
  "accepted (snd (send_packet adapter_ref noop_ref (Some 3) ws_ref)) = [noop_ref] \<and>
   callbacks (snd (send_packet adapter_ref noop_ref (Some 3) ws_ref)) = [3]"
  using send_packet_refines [of ws_ref adapter_ref noop_ref "Some 3"]
  by (simp add: accepted_def [of ws_ref] callbacks_def [of ws_ref] may_send_def)

theorem flush_drain_refine_witness:
  "accepted (snd (flush adapter_ref (queued noop_ref None ws_ref))) = [noop_ref]"
  using flush_drain_refine [of "queued noop_ref None ws_ref" adapter_ref]
  by (simp add: accepted_def [of "queued noop_ref None ws_ref"])

theorem flush_returns_none_witness: "\<exists>s'. flush adapter_ref ws_ref = (Ok None, s')"
proof -
  have "\<exists>r s'. flush adapter_ref ws_ref = (Ok r, s')"
    using flush_not_closing [of ws_ref adapter_ref] by simp
  then obtain r s' where r: "flush adapter_ref ws_ref = (Ok r, s')" by blast
  then have "r = None" by (rule flush_returns_none)
  with r show ?thesis by blast
qed

theorem polling_never_responds_with_packets_witness:
  "fst (handle_polling_request adapter_ref context_ref None poll_ref) = Err BadRequest"
  using polling_never_responds_with_packets [of poll_ref
      "\<lambda>_ _ _. Err Forbidden" adapter_ref context_ref None]
  by (simp add: transport_create_def adapter_ref_def)

abbreviation json_ref :: "rstring \<Rightarrow> rstring list \<Rightarrow> 32 word \<Rightarrow> 32 word \<Rightarrow> rstring" where
  "json_ref \<equiv> \<lambda>_ _ _ _. []"

lemma closed_reachable:
  "reachable adapter_ref json_ref (closed CrTransportClosed ws_ref)"
proof (rule reach_step)
  show "reachable adapter_ref json_ref ws_ref" by (rule reach_new)
  have "snd (run_op adapter_ref json_ref (OpEvent EvClose) ws_ref) = closed CrTransportClosed ws_ref"
    by (simp add: run_op_def on_transport_event_def on_close_free)
  then show "socket_step adapter_ref json_ref ws_ref (closed CrTransportClosed ws_ref)"
    unfolding socket_step_iff by (metis socket_op.distinct(9))
qed

theorem socket_events_witness:
  "\<exists>reason. sk_events (closed CrTransportClosed ws_ref) = [SeClose (lit ''a'') reason]"
  using socket_events [OF closed_reachable] by (simp add: closed_def)

theorem socket_life_witness:
  "let s = closed CrTransportClosed ws_ref; t = snd (run_op adapter_ref json_ref (OpSend noop_ref None) s)
   in RsClosed \<le> sk_ready t \<and> sk_events t = sk_events s \<and> sk_write_buffer t = []"
proof -
  let ?s = "closed CrTransportClosed ws_ref"
  have "socket_step adapter_ref json_ref ?s (snd (run_op adapter_ref json_ref (OpSend noop_ref None) ?s))"
    by (rule socket_step.step) simp
  from socket_life [OF closed_reachable r_into_rtranclp, OF this] show ?thesis by (simp add: closed_def Let_def)
qed

theorem open_close_packet_panic_witness:
  "\<forall>options. socket_open adapter_ref json_ref options ws_ref = (Panic, ws_ref\<lparr>sk_ready := RsOpen\<rparr>)"
  using open_close_packet_panic [of ws_ref adapter_ref json_ref] by simp

theorem transport_error_closes_witness:
  "sk_ready (snd (on_transport_error TeOtherError ws_ref)) = RsClosed"
  using transport_error_closes [of ws_ref TeOtherError] by (simp add: may_send_def Let_def)

end
