(* ===== verification/Engine_Tasks.thy ===== *)
theory Engine_Tasks
  imports Engine_Socket Turns "HOL-Library.Multiset"
begin

text \<open>
  The asynchronous methods of \<open>engine_io_server/src/socket.rs\<close> as tasks that run at the same time, on the
  threads of a runtime. A task is where it stands in its method, with the local values it still needs,
  and a step runs to the end of the next section with the lock held, or of the next message sent; in
  between any other task may run. The channel to the server has room, so sending an event does not wait,
  and asking a transport whether it is writable is one step with getting hold of it. \<open>Engine_Socket\<close> has
  the same methods in one go.
\<close>

section \<open>Tasks\<close>

text \<open>
  \<open>Send*\<close> is \<open>send_packet\<close>, \<open>Flush*\<close> is \<open>flush\<close>, \<open>DrainCall\<close> is \<open>on_drain\<close>, \<open>Close*\<close> is \<open>on_close\<close>
  and \<open>ErrorReady\<close> is \<open>on_transport_error\<close>, which closes. (\<open>on_packet\<close> panics on an open socket and does
  nothing on any other, see \<open>on_packet_free\<close>, so it is no task here.) The flag of a
  flush says what follows it: the end of \<open>send_packet\<close>, or \<open>on_drain\<close> as in the loop of
  \<open>subscribe_socket_to_transport_events\<close>. \<open>Stuck\<close> is a task that has panicked or waits for ever.
\<close>

datatype task =
    SendReady packet "callback option"
  | SendPush packet "callback option"
  | FlushCheck bool
  | FlushWritable bool
  | FlushEvent bool
  | FlushTake bool
  | FlushSend bool "packet list"
  | FlushCallbacks bool
  | FlushFraming bool "callback list"
  | FlushExtend bool "callback_batch list"
  | FlushDrain bool
  | FlushClosing bool
  | DrainCall
  | ErrorReady transport_error
  | CloseReady close_reason
  | CloseState close_reason
  | CloseTransport close_reason
  | CloseEvent close_reason
  | Finished
  | Stuck

definition section_step :: "('w, 'p, 'x) sprog \<Rightarrow> ('x \<Rightarrow> task) \<Rightarrow> ('w, 'p) socket \<Rightarrow> task \<times> ('w, 'p) socket" where
  "section_step m next_task s = (case m s of (Ok x, s) \<Rightarrow> (next_task x, s) | (_, s) \<Rightarrow> (Stuck, s))"

definition flush_end :: "bool \<Rightarrow> task" where
  "flush_end drain = (if drain then DrainCall else Finished)"

fun task_step :: "('w, 'p, 'h, 'b, 'r) adapter \<Rightarrow> task \<Rightarrow> ('w, 'p) socket \<Rightarrow> task \<times> ('w, 'p) socket" where
  "task_step A (SendReady p cb) = section_step (with_read (gets sk_ready)) (\<lambda>ready.
     if ready = RsOpening \<or> ready = RsOpen then SendPush p cb else Finished)"
| "task_step A (SendPush p cb) = section_step (with_write (modify (\<lambda>s.
       let s = s\<lparr>sk_write_buffer := sk_write_buffer s @ [p]\<rparr>
       in (case cb of Some c \<Rightarrow> s\<lparr>sk_pending := sk_pending s @ [c]\<rparr> | None \<Rightarrow> s)))) (\<lambda>_. FlushCheck False)"
| "task_step A (FlushCheck drain) =
     section_step (with_read (gets (\<lambda>s. (sk_ready s, length (sk_write_buffer s))))) (\<lambda>(ready, write_buffer_length).
     if ready \<noteq> RsClosed \<and> write_buffer_length > 0 then FlushWritable drain else flush_end drain)"
| "task_step A (FlushWritable drain) = section_step (transport_test (is_writable A)) (\<lambda>writable.
     if writable then FlushEvent drain else flush_end drain)"
| "task_step A (FlushEvent drain) =
     section_step (andthen (gets sk_id) (\<lambda>i. send_event (SeFlush i))) (\<lambda>_. FlushTake drain)"
| "task_step A (FlushTake drain) =
     section_step (with_write (\<lambda>s. (Ok (sk_write_buffer s), s\<lparr>sk_write_buffer := []\<rparr>))) (FlushSend drain)"
| "task_step A (FlushSend drain packets) =
     section_step (send_cmd (CmdSend packets)) (\<lambda>_. FlushCallbacks drain)"
| "task_step A (FlushCallbacks drain) =
     section_step (with_write (\<lambda>s. (Ok (sk_pending s), s\<lparr>sk_pending := []\<rparr>))) (FlushFraming drain)"
| "task_step A (FlushFraming drain taken) =
     section_step (transport_test supports_framing) (\<lambda>framing.
       FlushExtend drain (if framing then map Framed taken else [NonFramed taken]))"
| "task_step A (FlushExtend drain flushed_callbacks) =
     section_step (with_write (modify (\<lambda>s. s\<lparr>sk_flushed := sk_flushed s @ flushed_callbacks\<rparr>)))
       (\<lambda>_. FlushDrain drain)"
| "task_step A (FlushDrain drain) =
     section_step (andthen (gets sk_id) (\<lambda>i. send_event (SeDrain i))) (\<lambda>_. FlushClosing drain)"
| "task_step A (FlushClosing drain) = section_step close_if_closing (\<lambda>_. flush_end drain)"
| "task_step A DrainCall = section_step on_drain (\<lambda>_. Finished)"
| "task_step A (ErrorReady err) = section_step (with_read (gets sk_ready)) (\<lambda>ready.
     if ready = RsOpening \<or> ready = RsOpen
     then (case err of
             TePacketParseError \<Rightarrow> CloseReady (CrError SkPacketParseError)
           | _ \<Rightarrow> CloseReady (CrError SkTransportError))
     else Finished)"
| "task_step A (CloseReady reason) = section_step (with_read (gets sk_ready)) (\<lambda>ready.
     if ready \<noteq> RsClosed then CloseState reason else Finished)"
| "task_step A (CloseState reason) =
     section_step (with_write (modify (\<lambda>s. s\<lparr>sk_ready := RsClosed, sk_write_buffer := [], sk_pending := []\<rparr>)))
       (\<lambda>_. CloseTransport reason)"
| "task_step A (CloseTransport reason) = section_step close_transport (\<lambda>_. CloseEvent reason)"
| "task_step A (CloseEvent reason) =
     section_step (andthen (gets sk_id) (\<lambda>i. send_event (SeClose i reason))) (\<lambda>_. Finished)"
| "task_step A Finished = Pair Finished"
| "task_step A Stuck = Pair Stuck"

abbreviation run_task :: "nat \<Rightarrow> ('w, 'p, 'h, 'b, 'r) adapter \<Rightarrow> task \<times> ('w, 'p) socket \<Rightarrow> task \<times> ('w, 'p) socket" where
  "run_task n A \<equiv> run_alone (task_step A) n"

text \<open>
  A schedule is the list of the tasks that take the turns; all tasks are there from the beginning, and
  one that starts later takes its first turn later.
\<close>

definition turn :: "('w, 'p, 'h, 'b, 'r) adapter \<Rightarrow> nat \<Rightarrow> ('w, 'p) socket \<times> task list \<Rightarrow>
    ('w, 'p) socket \<times> task list" where
  "turn A i = take_turn (task_step A) i"

definition interleaved :: "('w, 'p, 'h, 'b, 'r) adapter \<Rightarrow> nat list \<Rightarrow> ('w, 'p) socket \<times> task list \<Rightarrow>
    ('w, 'p) socket \<times> task list" where
  "interleaved A order = take_turns (task_step A) order"

section \<open>Steps with a free lock\<close>

definition idle_lock :: "('w, 'p) socket \<Rightarrow> bool" where
  "idle_lock s \<longleftrightarrow> sk_lock s = LkFree \<and> (\<forall>d. sk_ready s \<noteq> RsClosing d)"

lemma section_step_Ok [simp]: "m s = (Ok x, s') \<Longrightarrow> section_step m k s = (k x, s')"
  by (simp add: section_step_def)

lemma close_idle: "idle_lock s \<Longrightarrow> close_if_closing s = (Ok (), s)"
  by (simp add: idle_lock_def close_when_closing)

text \<open>What a step does to the socket, without the lock.\<close>

definition task_effect :: "task \<Rightarrow> ('w, 'p) socket \<Rightarrow> ('w, 'p) socket" where
  "task_effect t s = (case t of
     SendPush p cb \<Rightarrow> queued p cb s
   | FlushEvent _ \<Rightarrow> s\<lparr>sk_events := sk_events s @ [SeFlush (sk_id s)]\<rparr>
   | FlushTake _ \<Rightarrow> s\<lparr>sk_write_buffer := []\<rparr>
   | FlushSend _ packets \<Rightarrow> s\<lparr>sk_cmds := sk_cmds s @ [CmdSend packets]\<rparr>
   | FlushCallbacks _ \<Rightarrow> s\<lparr>sk_pending := []\<rparr>
   | FlushExtend _ batches \<Rightarrow> s\<lparr>sk_flushed := sk_flushed s @ batches\<rparr>
   | FlushDrain _ \<Rightarrow> s\<lparr>sk_events := sk_events s @ [SeDrain (sk_id s)]\<rparr>
   | DrainCall \<Rightarrow> drained s
   | CloseState _ \<Rightarrow> s\<lparr>sk_ready := RsClosed, sk_write_buffer := [], sk_pending := []\<rparr>
   | CloseTransport _ \<Rightarrow> drop_transport s
   | CloseEvent reason \<Rightarrow> s\<lparr>sk_events := sk_events s @ [SeClose (sk_id s) reason]\<rparr>
   | _ \<Rightarrow> s)"

definition task_next :: "('w, 'p, 'h, 'b, 'r) adapter \<Rightarrow> task \<Rightarrow> ('w, 'p) socket \<Rightarrow> task" where
  "task_next A t s = (case t of
     SendReady p cb \<Rightarrow> if may_send s then SendPush p cb else Finished
   | SendPush p cb \<Rightarrow> FlushCheck False
   | FlushCheck d \<Rightarrow> if sk_ready s \<noteq> RsClosed \<and> sk_write_buffer s \<noteq> [] then FlushWritable d else flush_end d
   | FlushWritable d \<Rightarrow>
       if (case sk_transport s of Some w \<Rightarrow> is_writable A w | None \<Rightarrow> False) then FlushEvent d else flush_end d
   | FlushEvent d \<Rightarrow> FlushTake d
   | FlushTake d \<Rightarrow> FlushSend d (sk_write_buffer s)
   | FlushSend d _ \<Rightarrow> FlushCallbacks d
   | FlushCallbacks d \<Rightarrow> FlushFraming d (sk_pending s)
   | FlushFraming d cs \<Rightarrow> FlushExtend d
       (if (case sk_transport s of Some w \<Rightarrow> supports_framing w | None \<Rightarrow> False) then map Framed cs else [NonFramed cs])
   | FlushExtend d _ \<Rightarrow> FlushDrain d
   | FlushDrain d \<Rightarrow> FlushClosing d
   | FlushClosing d \<Rightarrow> flush_end d
   | ErrorReady err \<Rightarrow> if may_send s
       then CloseReady (CrError (case err of TePacketParseError \<Rightarrow> SkPacketParseError | _ \<Rightarrow> SkTransportError))
       else Finished
   | CloseReady reason \<Rightarrow> if sk_ready s \<noteq> RsClosed then CloseState reason else Finished
   | CloseState reason \<Rightarrow> CloseTransport reason
   | CloseTransport reason \<Rightarrow> CloseEvent reason
   | Stuck \<Rightarrow> Stuck
   | _ \<Rightarrow> Finished)"

lemma task_step_idle: "idle_lock s \<Longrightarrow> task_step A t s = (task_next A t s, task_effect t s)"
proof (cases t)
  case (SendPush p cb)
  assume "idle_lock s"
  then have "with_write (modify (\<lambda>s. let s = s\<lparr>sk_write_buffer := sk_write_buffer s @ [p]\<rparr>
      in (case cb of Some c \<Rightarrow> s\<lparr>sk_pending := sk_pending s @ [c]\<rparr> | None \<Rightarrow> s))) s = (Ok (), queued p cb s)"
    by (cases cb) (simp_all add: with_write_modify queued_def idle_lock_def)
  with SendPush show ?thesis by (simp add: task_next_def task_effect_def)
qed (auto simp: idle_lock_def close_when_closing task_next_def task_effect_def with_read_gets with_write_modify
  with_write_take transport_test_free may_send_def send_event_def send_cmd_def on_drain_free close_transport_def
  drop_transport_def split: transport_error.split)

lemma task_effect_idle: "idle_lock s \<Longrightarrow> idle_lock (task_effect t s)"
  by (auto simp: idle_lock_def task_effect_def drop_transport_def drained_def split: task.splits list.splits)


section \<open>A task alone\<close>

lemma idle_lock_updates [simp]:
  "idle_lock (s\<lparr>sk_events := es\<rparr>) = idle_lock s" "idle_lock (s\<lparr>sk_write_buffer := ps\<rparr>) = idle_lock s"
  "idle_lock (s\<lparr>sk_cmds := cs\<rparr>) = idle_lock s" "idle_lock (s\<lparr>sk_pending := ks\<rparr>) = idle_lock s"
  "idle_lock (s\<lparr>sk_flushed := bs\<rparr>) = idle_lock s" "idle_lock (queued p cb s) = idle_lock s"
  "idle_lock (s\<lparr>sk_called := ks\<rparr>) = idle_lock s" "idle_lock (s\<lparr>sk_transport := w\<rparr>) = idle_lock s"
  by (simp_all add: idle_lock_def)

lemma idle_lock_closed [simp]: "idle_lock s \<Longrightarrow> idle_lock (s\<lparr>sk_ready := RsClosed\<rparr>)"
  by (simp add: idle_lock_def)

lemma run_task_Suc:
  "idle_lock s \<Longrightarrow> run_task (Suc n) A (t, s) = run_task n A (task_next A t s, task_effect t s)"
  by (simp add: task_step_idle)

lemma run_task_Finished [simp]: "run_task n A (Finished, s) = (Finished, s)"
  by (induction n) simp_all

lemma run_task_flush:
  assumes "idle_lock s" and "flushable A s"
  shows "run_task (Suc (Suc (Suc (Suc (Suc (Suc (Suc (Suc (Suc (Suc n)))))))))) A (FlushCheck d, s) =
    run_task n A (flush_end d, flushed s)"
  using assms
  by (cases "sk_transport s")
    (simp_all add: run_task_Suc task_next_def task_effect_def flushable_def flushed_def del: run_alone.simps(2))

lemma run_task_no_flush:
  assumes "idle_lock s" and "\<not> flushable A s"
  shows "run_task (Suc (Suc n)) A (FlushCheck False, s) = (Finished, s)"
    and "run_task (Suc (Suc (Suc n))) A (FlushCheck True, s) = (Finished, drained s)"
  using assms
  by (auto simp: run_task_Suc task_next_def task_effect_def flushable_def flush_end_def simp del: run_alone.simps(2)
      split: option.splits)

text \<open>
  A task that is not interrupted ends after at most thirteen steps, and it has done to the socket what
  the method does in one go: a send, the drain of the transport, a close, and an error of the transport.
\<close>

lemma task_runs:
  assumes "idle_lock s"
  shows "run_task 13 A (SendReady p cb, s) = (Finished, snd (send_packet A p cb s)) \<and>
    run_task 13 A (FlushCheck True, s) = (Finished, snd (on_transport_event A EvDrain s)) \<and>
    run_task 13 A (CloseReady reason, s) = (Finished, snd (on_close reason s)) \<and>
    run_task 13 A (ErrorReady err, s) = (Finished, snd (on_transport_error err s))"
proof (intro conjI)
  have free: "sk_lock s = LkFree" "\<And>d. sk_ready s \<noteq> RsClosing d" using assms by (auto simp: idle_lock_def)
  have n: "(13 :: nat) = Suc (Suc (Suc (Suc (Suc (Suc (Suc (Suc (Suc (Suc (Suc (Suc (Suc 0))))))))))))" by simp
  show "run_task 13 A (SendReady p cb, s) = (Finished, snd (send_packet A p cb s))"
  proof (cases "may_send s")
    case True
    then have "run_task 13 A (SendReady p cb, s) =
        run_task (Suc (Suc (Suc (Suc (Suc (Suc (Suc (Suc (Suc (Suc (Suc 0))))))))))) A (FlushCheck False, queued p cb s)"
      using assms by (simp add: n run_task_Suc task_next_def task_effect_def del: run_alone.simps(2))
    with True assms free show ?thesis
      using run_task_flush [of "queued p cb s" A] run_task_no_flush(1) [of "queued p cb s" A]
      by (cases "flushable A (queued p cb s)")
        (simp_all add: send_packet_free after_flush_def flush_end_def del: run_alone.simps(2))
  next
    case False
    with assms free show ?thesis
      by (simp add: n run_task_Suc task_next_def task_effect_def send_packet_free del: run_alone.simps(2))
  qed
  have "snd (on_transport_event A EvDrain s) = drained (after_flush A s)"
    using free flush_not_closing [of s A]
    by (simp add: on_transport_event_def on_flush_def on_drain_free after_flush_def flushed_def)
  then show "run_task 13 A (FlushCheck True, s) = (Finished, snd (on_transport_event A EvDrain s))"
    using assms run_task_flush [OF assms, of A] run_task_no_flush(2) [OF assms, of A]
    by (cases "flushable A s")
      (simp_all add: n run_task_Suc task_next_def task_effect_def after_flush_def flush_end_def flushed_def
        del: run_alone.simps(2))
  show "run_task 13 A (CloseReady reason, s) = (Finished, snd (on_close reason s))"
    using assms free
    by (cases "sk_ready s = RsClosed")
      (simp_all add: n run_task_Suc task_next_def task_effect_def on_close_free closed_def drop_transport_def
        del: run_alone.simps(2))
  show "run_task 13 A (ErrorReady err, s) = (Finished, snd (on_transport_error err s))"
    using assms free may_send_not_closed [of s]
    by (cases "may_send s")
      (simp_all add: n run_task_Suc task_next_def task_effect_def on_transport_error_free closed_def drop_transport_def
        del: run_alone.simps(2))
qed

section \<open>Every task ends\<close>

fun steps_left :: "task \<Rightarrow> nat" where
  "steps_left (SendReady p cb) = 13"
| "steps_left (SendPush p cb) = 12"
| "steps_left (FlushCheck d) = 11"
| "steps_left (FlushWritable d) = 10"
| "steps_left (FlushEvent d) = 9"
| "steps_left (FlushTake d) = 8"
| "steps_left (FlushSend d ps) = 7"
| "steps_left (FlushCallbacks d) = 6"
| "steps_left (FlushFraming d cs) = 5"
| "steps_left (FlushExtend d bs) = 4"
| "steps_left (FlushDrain d) = 3"
| "steps_left (FlushClosing d) = 2"
| "steps_left DrainCall = 1"
| "steps_left (ErrorReady e) = 5"
| "steps_left (CloseReady r) = 4"
| "steps_left (CloseState r) = 3"
| "steps_left (CloseTransport r) = 2"
| "steps_left (CloseEvent r) = 1"
| "steps_left Finished = 0"
| "steps_left Stuck = 0"

lemma steps_left_bound: "steps_left t \<le> 13"
  by (cases t) simp_all

lemma task_next_not_Stuck: "t \<noteq> Stuck \<Longrightarrow> task_next A t s \<noteq> Stuck"
  by (cases t) (simp_all add: task_next_def flush_end_def)

lemma steps_left_0: "steps_left t = 0 \<Longrightarrow> t \<noteq> Stuck \<Longrightarrow> t = Finished"
  by (cases t) simp_all

lemma turn_idle:
  "idle_lock s \<Longrightarrow> i < length ts \<Longrightarrow> turn A i (s, ts) = (task_effect (ts ! i) s, ts[i := task_next A (ts ! i) s])"
  by (simp add: turn_def take_turn_def task_step_idle)

lemma interleaved_simps [simp]:
  "interleaved A [] c = c" "interleaved A (i # is) c = interleaved A is (turn A i c)"
  "interleaved A (is @ js) c = interleaved A js (interleaved A is c)"
  by (simp_all add: interleaved_def turn_def)

text \<open>An invariant of the socket and its tasks that every turn keeps holds after every schedule.\<close>

lemma interleaved_invariant:
  fixes s :: "('w, 'p) socket"
  assumes "\<And>s ts i. P s ts \<Longrightarrow> i < length ts \<Longrightarrow>
      idle_lock s \<and> P (task_effect (ts ! i) s) (ts[i := task_next A (ts ! i) s])"
    and "P s ts" and "interleaved A order (s, ts) = (s', ts')"
  shows "P s' ts'"
proof (rule take_turns_invariant [of P, OF _ assms(2)])
  show "take_turns (task_step A) order (s, ts) = (s', ts')" using assms(3) by (simp add: interleaved_def)
  fix s0 :: "('w, 'p) socket" and ts0 i assume "P s0 ts0" "i < length ts0"
  from assms(1) [OF this] show "P (snd (task_step A (ts0 ! i) s0)) (ts0[i := fst (task_step A (ts0 ! i) s0)])"
    by (simp add: task_step_idle)
qed

lemma section_steps: "\<forall>x. steps_left (k x) \<le> n \<Longrightarrow> steps_left (fst (section_step m k s)) \<le> n"
  by (auto simp: section_step_def split: prod.split outcome.split)

interpretation task_turns: ending_tasks "task_step A" steps_left for A :: "('w, 'p, 'h, 'b, 'r) adapter"
proof
  fix t and s :: "('w, 'p) socket"
  show "steps_left (fst (task_step A t s)) \<le> steps_left t - 1"
    by (cases t)
      (auto intro!: section_steps simp: flush_end_def simp flip: le_zero_eq simp del: le_zero_eq split: transport_error.split)
  show "steps_left t = 0 \<Longrightarrow> task_step A t s = (t, s)"
    by (cases t) simp_all
qed

lemma interleaved_progress:
  fixes s :: "('w, 'p) socket"
  assumes "idle_lock s" and "Stuck \<notin> set ts" and "interleaved A order (s, ts) = (s', ts')"
  shows "length ts' = length ts \<and> Stuck \<notin> set ts' \<and>
    (i < length ts \<longrightarrow> steps_left (ts' ! i) \<le> steps_left (ts ! i) - count_list order i)"
proof -
  have "idle_lock s' \<and> length ts' = length ts \<and> Stuck \<notin> set ts'"
  proof (rule interleaved_invariant [OF _ _ assms(3)])
    fix s0 :: "('w, 'p) socket" and ts0 i
    assume P: "idle_lock s0 \<and> length ts0 = length ts \<and> Stuck \<notin> set ts0" and i: "i < length ts0"
    then have "ts0 ! i \<noteq> Stuck" by (metis nth_mem)
    from task_next_not_Stuck [OF this, of A s0] P set_update_subset_insert [of ts0 i "task_next A (ts0 ! i) s0"]
    show "idle_lock s0 \<and> idle_lock (task_effect (ts0 ! i) s0) \<and>
      length (ts0[i := task_next A (ts0 ! i) s0]) = length ts \<and> Stuck \<notin> set (ts0[i := task_next A (ts0 ! i) s0])"
      by (auto simp: task_effect_idle)
  qed (use assms in simp)
  then show ?thesis
    using task_turns.turns_left [OF TrueI, of A order s ts s' ts' i] assms(3) by (simp add: interleaved_def)
qed

section \<open>Nothing is lost or doubled\<close>

text \<open>The packets and the callbacks that a task still has to hand over.\<close>

fun held :: "task \<Rightarrow> packet multiset" where
  "held (SendReady p cb) = {#p#}"
| "held (SendPush p cb) = {#p#}"
| "held (FlushSend d ps) = mset ps"
| "held t = {#}"

fun held_callbacks :: "task \<Rightarrow> callback multiset" where
  "held_callbacks (SendReady p cb) = mset (case cb of Some c \<Rightarrow> [c] | None \<Rightarrow> [])"
| "held_callbacks (SendPush p cb) = mset (case cb of Some c \<Rightarrow> [c] | None \<Rightarrow> [])"
| "held_callbacks (FlushFraming d cs) = mset cs"
| "held_callbacks (FlushExtend d bs) = mset (concat (map batch_callbacks bs))"
| "held_callbacks t = {#}"

fun closing :: "task \<Rightarrow> bool" where
  "closing (CloseReady r) = True"
| "closing (CloseState r) = True"
| "closing (CloseTransport r) = True"
| "closing (CloseEvent r) = True"
| "closing (ErrorReady e) = True"
| "closing t = False"

definition all_packets :: "('w, 'p) socket \<Rightarrow> task list \<Rightarrow> packet multiset" where
  "all_packets s ts = mset (accepted s) + sum_list (map held ts)"

definition all_callbacks :: "('w, 'p) socket \<Rightarrow> task list \<Rightarrow> callback multiset" where
  "all_callbacks s ts = mset (callbacks s) + sum_list (map held_callbacks ts)"

lemma drained_view: "accepted (drained s) = accepted s" "callbacks (drained s) = callbacks s"
  by (simp_all add: accepted_def callbacks_def drained_def split: list.splits)

lemma step_packets:
  "mset (accepted (task_effect t s)) + held (task_next A t s) \<subseteq># mset (accepted s) + held t"
  "may_send s \<Longrightarrow> \<not> closing t \<Longrightarrow>
    mset (accepted (task_effect t s)) + held (task_next A t s) = mset (accepted s) + held t"
  by (cases t; simp add: task_effect_def task_next_def flush_end_def accepted_def drained_def drop_transport_def
      split: list.splits)+

lemma step_callbacks:
  "mset (callbacks (task_effect t s)) + held_callbacks (task_next A t s) \<subseteq># mset (callbacks s) + held_callbacks t"
  "may_send s \<Longrightarrow> \<not> closing t \<Longrightarrow>
    mset (callbacks (task_effect t s)) + held_callbacks (task_next A t s) = mset (callbacks s) + held_callbacks t"
  by (cases t; simp add: task_effect_def task_next_def flush_end_def callbacks_def drained_def drop_transport_def
      split: list.splits option.splits)+

lemma step_may_send:
  "may_send s \<Longrightarrow> \<not> closing t \<Longrightarrow> may_send (task_effect t s) \<and> \<not> closing (task_next A t s)"
  by (cases t) (auto simp: task_effect_def task_next_def flush_end_def may_send_def drained_def split: list.splits)


lemma turn_amount:
  fixes f :: "task \<Rightarrow> 'a multiset" and view :: "('w, 'p) socket \<Rightarrow> 'a list"
  assumes i: "i < length ts"
  shows "mset (view s') + f t \<subseteq># mset (view s) + f (ts ! i) \<Longrightarrow>
      mset (view s') + sum_list (map f (ts[i := t])) \<subseteq># mset (view s) + sum_list (map f ts)"
    and "mset (view s') + f t = mset (view s) + f (ts ! i) \<Longrightarrow>
      mset (view s') + sum_list (map f (ts[i := t])) = mset (view s) + sum_list (map f ts)"
proof -
  note sum = sum_list_replace [OF i, of f t]
  show "mset (view s') + sum_list (map f (ts[i := t])) \<subseteq># mset (view s) + sum_list (map f ts)"
    if "mset (view s') + f t \<subseteq># mset (view s) + f (ts ! i)"
  proof -
    have "(mset (view s') + sum_list (map f (ts[i := t]))) + f t =
        (mset (view s') + f t) + sum_list (map f (ts[i := t]))"
      by (simp add: ac_simps)
    also have "\<dots> \<subseteq># (mset (view s) + f (ts ! i)) + sum_list (map f (ts[i := t]))"
      using that by simp
    also have "\<dots> = mset (view s) + (sum_list (map f (ts[i := t])) + f (ts ! i))"
      by (simp only: ac_simps)
    also have "\<dots> = (mset (view s) + sum_list (map f ts)) + f t"
      unfolding sum by (simp only: ac_simps)
    finally show ?thesis by simp
  qed
  show "mset (view s') + sum_list (map f (ts[i := t])) = mset (view s) + sum_list (map f ts)"
    if "mset (view s') + f t = mset (view s) + f (ts ! i)"
  proof -
    have "(mset (view s') + sum_list (map f (ts[i := t]))) + f (ts ! i) =
        (mset (view s) + sum_list (map f ts)) + f (ts ! i)"
      using that sum by (simp add: ac_simps)
    then show ?thesis by simp
  qed
qed

lemma turn_packets:
  assumes "i < length ts"
  shows "all_packets (task_effect (ts ! i) s) (ts[i := task_next A (ts ! i) s]) \<subseteq># all_packets s ts"
    and "may_send s \<Longrightarrow> \<not> closing (ts ! i) \<Longrightarrow>
      all_packets (task_effect (ts ! i) s) (ts[i := task_next A (ts ! i) s]) = all_packets s ts"
    and "all_callbacks (task_effect (ts ! i) s) (ts[i := task_next A (ts ! i) s]) \<subseteq># all_callbacks s ts"
    and "may_send s \<Longrightarrow> \<not> closing (ts ! i) \<Longrightarrow>
      all_callbacks (task_effect (ts ! i) s) (ts[i := task_next A (ts ! i) s]) = all_callbacks s ts"
  unfolding all_packets_def all_callbacks_def
  by (rule turn_amount [OF assms], rule step_packets step_callbacks; assumption?)+

lemma nothing_doubled:
  fixes s :: "('w, 'p) socket"
  assumes "idle_lock s" and "interleaved A order (s, ts) = (s', ts')"
  shows "all_packets s' ts' \<subseteq># all_packets s ts \<and> all_callbacks s' ts' \<subseteq># all_callbacks s ts"
proof -
  let ?P = "\<lambda>s0 ts0. idle_lock s0 \<and> all_packets s0 ts0 \<subseteq># all_packets s ts \<and> all_callbacks s0 ts0 \<subseteq># all_callbacks s ts"
  have "?P s' ts'"
  proof (rule interleaved_invariant [OF _ _ assms(2)])
    fix s0 :: "('w, 'p) socket" and ts0 i assume P: "?P s0 ts0" and i: "i < length ts0"
    with turn_packets(1,3) [OF i, of s0 A] task_effect_idle [of s0 "ts0 ! i"]
    show "idle_lock s0 \<and> ?P (task_effect (ts0 ! i) s0) (ts0[i := task_next A (ts0 ! i) s0])"
      by (meson subset_mset.order_trans)
  qed (simp add: assms(1))
  then show ?thesis by simp
qed

text \<open>
  C11: However tasks that send, flush, drain and close take turns, no packet and no callback is doubled;
  and as long as nobody closes the socket none is lost either: each is with the socket or still with
  its task. Once all tasks have finished, exactly the packets of the senders have been accepted.
\<close>

theorem interleaved_packets:
  fixes s :: "('w, 'p) socket"
  assumes "idle_lock s" and "interleaved A order (s, ts) = (s', ts')"
  shows "all_packets s' ts' \<subseteq># all_packets s ts \<and> all_callbacks s' ts' \<subseteq># all_callbacks s ts \<and>
    (may_send s \<and> \<not> list_ex closing ts \<longrightarrow>
       all_packets s' ts' = all_packets s ts \<and> all_callbacks s' ts' = all_callbacks s ts \<and>
       (\<forall>n. ts' = replicate n Finished \<longrightarrow>
          mset (accepted s') = mset (accepted s) + sum_list (map held ts) \<and>
          mset (callbacks s') = mset (callbacks s) + sum_list (map held_callbacks ts)))"
proof -
  let ?Q = "\<lambda>s0 ts0. idle_lock s0 \<and> may_send s0 \<and> \<not> list_ex closing ts0 \<and>
    all_packets s0 ts0 = all_packets s ts \<and> all_callbacks s0 ts0 = all_callbacks s ts"
  note nothing_doubled [OF assms]
  moreover have "?Q s' ts'" if "may_send s" "\<not> list_ex closing ts"
  proof (rule interleaved_invariant [OF _ _ assms(2)])
    fix s0 :: "('w, 'p) socket" and ts0 i assume Q: "?Q s0 ts0" and i: "i < length ts0"
    then have "\<not> closing (ts0 ! i)" by (auto simp: list_ex_iff)
    moreover from this have "\<not> list_ex closing (ts0[i := task_next A (ts0 ! i) s0])"
      using Q step_may_send [of s0 "ts0 ! i" A] set_update_subset_insert [of ts0 i]
      by (auto simp: list_ex_iff)
    ultimately show "idle_lock s0 \<and> ?Q (task_effect (ts0 ! i) s0) (ts0[i := task_next A (ts0 ! i) s0])"
      using Q step_may_send [of s0 "ts0 ! i" A] task_effect_idle [of s0 "ts0 ! i"] turn_packets(2,4) [OF i, of s0 A]
      by simp
  qed (use that assms(1) in simp)
  moreover have "all_packets s' (replicate n Finished) = mset (accepted s')"
    "all_callbacks s' (replicate n Finished) = mset (callbacks s')" for n
    by (induction n) (simp_all add: all_packets_def all_callbacks_def)
  ultimately show ?thesis
    by (auto simp: all_packets_def [of s] all_callbacks_def [of s])
qed


section \<open>Order is not kept\<close>

lemma interleaved_replicate_0 [simp]: "interleaved A (replicate 0 i) c = c"
  by simp

lemma turn_2 [simp]:
  "idle_lock s \<Longrightarrow> turn A 0 (s, [t, u]) = (task_effect t s, [task_next A t s, u])"
  "idle_lock s \<Longrightarrow> turn A (Suc 0) (s, [t, u]) = (task_effect u s, [t, task_next A u s])"
  by (simp_all add: turn_idle)

text \<open>
  C12: What holds for methods that run in one go is not true of tasks. On an open socket with a writable
  transport and an empty buffer, two senders can take turns so that the packets reach the transport in
  the other order, or so that the transport is given an empty batch; and a sender that is overtaken by
  a close leaves its packet and its callback in the buffer of a closed socket, which is never flushed.
\<close>

theorem interleaving_races:
  assumes "idle_lock s" and "sk_ready s = RsOpen" and "sk_transport s = Some w" and "is_writable A w"
    and "sk_write_buffer s = []"
  shows "(\<exists>order s'. interleaved A order (s, [SendReady p None, SendReady q None]) = (s', [Finished, Finished]) \<and>
      sk_cmds s' = sk_cmds s @ [CmdSend [q], CmdSend [p]]) \<and>
    (\<exists>order s'. interleaved A order (s, [SendReady p None, SendReady q None]) = (s', [Finished, Finished]) \<and>
      sk_cmds s' = sk_cmds s @ [CmdSend [p, q], CmdSend []]) \<and>
    (\<exists>order s'. interleaved A order (s, [SendReady p (Some c), CloseReady reason]) = (s', [Finished, Finished]) \<and>
      sk_ready s' = RsClosed \<and> sk_write_buffer s' = [p] \<and> sk_pending s' = [c])"
proof -
  note steps = task_next_def task_effect_def may_send_def flush_end_def drop_transport_def assms
  have "\<exists>s'. interleaved A (replicate 6 0 @ replicate 12 1 @ replicate 6 0) (s, [SendReady p None, SendReady q None]) =
      (s', [Finished, Finished]) \<and> sk_cmds s' = sk_cmds s @ [CmdSend [q], CmdSend [p]]"
    by (simp add: eval_nat_numeral steps)
  moreover have "\<exists>s'. interleaved A (replicate 4 0 @ replicate 4 1 @ replicate 8 0 @ replicate 8 1)
      (s, [SendReady p None, SendReady q None]) = (s', [Finished, Finished]) \<and>
      sk_cmds s' = sk_cmds s @ [CmdSend [p, q], CmdSend []]"
    by (simp add: eval_nat_numeral steps)
  moreover have "\<exists>s'. interleaved A (0 # replicate 4 1 @ replicate 2 0) (s, [SendReady p (Some c), CloseReady reason]) =
      (s', [Finished, Finished]) \<and> sk_ready s' = RsClosed \<and> sk_write_buffer s' = [p] \<and> sk_pending s' = [c]"
    by (simp add: eval_nat_numeral steps)
  ultimately show ?thesis by blast
qed


section \<open>Witnesses\<close>

abbreviation open_ref :: "(unit, unit) socket" where
  "open_ref \<equiv> ws_ref\<lparr>sk_ready := RsOpen\<rparr>"

lemma open_ref: "idle_lock open_ref" "sk_ready open_ref = RsOpen" "sk_transport open_ref = Some (WebSocket ())"
  "is_writable adapter_ref (WebSocket ())" "sk_write_buffer open_ref = []" "may_send open_ref"
  by (simp_all add: idle_lock_def may_send_def transport_create_def adapter_ref_def)

theorem interleaved_packets_witness:
  "mset (accepted (fst (interleaved adapter_ref (concat (replicate 13 [1, 0]))
     (open_ref, [SendReady noop_ref None, SendReady noop_ref (Some 3)])))) = {#noop_ref, noop_ref#}"
proof -
  let ?ts = "[SendReady noop_ref None, SendReady noop_ref (Some 3)]"
  obtain s' ts' where run: "interleaved adapter_ref (concat (replicate 13 [1, 0])) (open_ref, ?ts) = (s', ts')"
    by fastforce
  have "length ts' = length ?ts \<and> Stuck \<notin> set ts' \<and> steps_left (ts' ! i) = 0" if "i < 2" for i
    using interleaved_progress [OF open_ref(1) _ run, of i] that
    by (cases i) (auto simp: eval_nat_numeral)
  from this [of 0] this [of 1] have "ts' = replicate 2 Finished"
    using steps_left_0 [of "ts' ! 0"] steps_left_0 [of "ts' ! 1"]
    by (auto simp: eval_nat_numeral length_Suc_conv)
  then show ?thesis
    using interleaved_packets [OF open_ref(1) run] run open_ref(6) by (auto simp: accepted_def [of open_ref])
qed

theorem interleaving_races_witness:
  "\<exists>order s'. interleaved adapter_ref order (open_ref, [SendReady noop_ref (Some 3), CloseReady CrTransportClosed]) =
      (s', [Finished, Finished]) \<and>
    sk_ready s' = RsClosed \<and> sk_write_buffer s' = [noop_ref] \<and> sk_pending s' = [3]"
  using interleaving_races [OF open_ref(1-5), of noop_ref noop_ref 3 CrTransportClosed] by blast

end
