(* ===== verification/Engine_Server.thy ===== *)
theory Engine_Server
  imports Engine_Socket
begin

text \<open>
  \<open>engine_io_server/src/server.rs\<close>: the server and its clients. \<open>sv_queue\<close> is the \<open>mpsc\<close> channel all
  sockets send their events to, \<open>sv_listening\<close> whether the task that reads it has been spawned, and
  \<open>sv_spawned\<close> the sockets whose transport listener has been spawned. The channel to the owner of the
  server is made by the crate \<open>bmrng\<close>: it is \<open>sv_owner\<close>, of an open type, and the parameter \<open>emit\<close> is
  what a call of its \<open>send\<close> that is not awaited does to it. Session ids come from \<open>uuid\<close>, so the next
  one is an argument.
\<close>

section \<open>State\<close>

datatype server_event =
    VConnection rstring
  | VClose rstring close_reason
  | VFlush rstring
  | VDrain rstring
  | VMessage rstring request_context packet_data
  | VError rstring

datatype server_state = Unsubscribed | Subscribed

record ('w, 'p, 'q) server =
  sv_state :: server_state
  sv_clients :: "rstring \<rightharpoonup> ('w, 'p) socket"
  sv_queue :: "socket_event list"
  sv_listening :: bool
  sv_spawned :: "rstring list"
  sv_owner :: 'q
  sv_options :: server_options

type_synonym ('w, 'p, 'q, 'e, 'x) vprog = "(('w, 'p, 'q) server, 'e, 'x) prog"

definition cookie_options_default :: cookie_options where
  "cookie_options_default = \<lparr>co_name = lit ''io'', co_path = lit ''/'', co_http_only = True\<rparr>"

definition server_options_default :: server_options where
  "server_options_default =
     \<lparr>so_ping_timeout = 5000, so_ping_interval = 25000, so_upgrade_timeout = 10000,
      so_transports = [KWebSocket, KPolling], so_allow_upgrades = True, so_initial_packet = None,
      so_cookie = Some cookie_options_default, so_buffer_factor = 2\<rparr>"

definition server_new :: "server_options \<Rightarrow> 'q \<Rightarrow> ('w, 'p, 'q) server" where
  "server_new options owner =
     \<lparr>sv_state = Unsubscribed, sv_clients = Map.empty, sv_queue = [], sv_listening = False,
      sv_spawned = [], sv_owner = owner, sv_options = options\<rparr>"

text \<open>
  Creating a server makes two channels first, and a channel panics if its capacity is 0; overflow checks
  make the product panic. Otherwise the server is \<open>server_new\<close>, with which all that follows starts. (A
  capacity beyond what \<open>tokio\<close> can count is not modelled.)
\<close>

definition server_create :: "bool \<Rightarrow> server_options \<Rightarrow> 'q \<Rightarrow> (unit, ('w, 'p, 'q) server) outcome" where
  "server_create oc options owner =
     obind (chk_up oc 64 (so_buffer_factor options * 32)) (\<lambda>capacity.
       if capacity = 0 then Panic else Ok (server_new options owner))"

lemma server_create_Ok: "server_create oc options owner = Ok sv \<Longrightarrow> sv = server_new options owner"
  by (auto simp: server_create_def split: if_splits)

text \<open>A call of a method of a client: the events it sends go to the queue.\<close>

definition run_client :: "rstring \<Rightarrow> ('w, 'p, 'x) sprog \<Rightarrow> ('w, 'p, 'q, server_error, 'x) vprog" where
  "run_client i m = (\<lambda>sv.
     case sv_clients sv i of
       None \<Rightarrow> (Err UnknownSid, sv)
     | Some s \<Rightarrow>
         (case m s of (r, t) \<Rightarrow>
            (r, sv\<lparr>sv_clients := (sv_clients sv)(i \<mapsto> t),
                   sv_queue := sv_queue sv @ drop (length (sk_events s)) (sk_events t)\<rparr>)))"

section \<open>Subscribing\<close>

datatype already_subscribed = AlreadySubscribedError

definition already_subscribed_string :: "already_subscribed \<Rightarrow> rstring" where
  "already_subscribed_string _ = lit ''Already subscribed to this server, cannot subscribe again''"

definition subscribe_to_socket_events :: "('w, 'p, 'q, 'e, unit) vprog" where
  "subscribe_to_socket_events = modify (\<lambda>sv. sv\<lparr>sv_listening := True\<rparr>)"

definition try_subscribe :: "('w, 'p, 'q, already_subscribed, unit) vprog" where
  "try_subscribe =
     andthen (gets sv_state) (\<lambda>old_state.
     andthen (modify (\<lambda>sv. sv\<lparr>sv_state := Subscribed\<rparr>)) (\<lambda>_.
       case old_state of
         Subscribed \<Rightarrow> fail AlreadySubscribedError
       | Unsubscribed \<Rightarrow> subscribe_to_socket_events))"

definition subscribe :: "('w, 'p, 'q, unit, unit) vprog" where
  "subscribe = expect_ok try_subscribe"

text \<open>The body of the loop of \<open>subscribe_to_socket_events\<close>, and one turn of the loop.\<close>

definition on_socket_event :: "(server_event \<Rightarrow> 'q \<Rightarrow> 'q) \<Rightarrow> socket_event \<Rightarrow> ('w, 'p, 'q) server \<Rightarrow>
    ('w, 'p, 'q) server" where
  "on_socket_event emit message sv =
     (case message of
        SeClose i reason \<Rightarrow>
          sv\<lparr>sv_clients := (sv_clients sv)(i := None), sv_owner := emit (VClose i reason) (sv_owner sv)\<rparr>
      | SeFlush i \<Rightarrow> sv\<lparr>sv_owner := emit (VFlush i) (sv_owner sv)\<rparr>
      | SeDrain i \<Rightarrow> sv\<lparr>sv_owner := emit (VDrain i) (sv_owner sv)\<rparr>
      | SeMessage i rc d \<Rightarrow> sv\<lparr>sv_owner := emit (VMessage i rc d) (sv_owner sv)\<rparr>
      | SeError i \<Rightarrow> sv\<lparr>sv_owner := emit (VError i) (sv_owner sv)\<rparr>
      | _ \<Rightarrow> sv)"

definition listen_step :: "(server_event \<Rightarrow> 'q \<Rightarrow> 'q) \<Rightarrow> ('w, 'p, 'q) server \<Rightarrow> ('w, 'p, 'q) server" where
  "listen_step emit sv =
     (case sv_queue sv of
        [] \<Rightarrow> sv
      | message # rest \<Rightarrow>
          if sv_listening sv then on_socket_event emit message (sv\<lparr>sv_queue := rest\<rparr>) else sv)"

section \<open>Clients\<close>

definition server_close :: "('w, 'p, 'q, unit, unit) vprog" where
  "server_close = panic"

definition close_socket :: "rstring \<Rightarrow> ('w, 'p, 'q, unit, unit) vprog" where
  "close_socket connection_id =
     andthen (gets (\<lambda>sv. sv_clients sv connection_id)) (\<lambda>client.
       case client of
         Some socket \<Rightarrow>
           andthen (modify (\<lambda>sv. sv\<lparr>sv_clients := (sv_clients sv)(connection_id := None)\<rparr>)) (\<lambda>_. panic)
       | None \<Rightarrow> ret ())"

text \<open>Sending a packet cannot fail, so the error type of the socket does not matter.\<close>

definition server_send_packet_with_ack :: "('w, 'p, 'h, 'b, 'r) adapter \<Rightarrow> rstring \<Rightarrow> packet \<Rightarrow>
    callback option \<Rightarrow> ('w, 'p, 'q, send_packet_error, unit) vprog" where
  "server_send_packet_with_ack A connection_id p cb =
     andthen (gets (\<lambda>sv. sv_clients sv connection_id)) (\<lambda>client.
       case client of
         Some client \<Rightarrow> prog_err (\<lambda>_. UnknownConnectionId) (run_client connection_id (send_packet A p None))
       | None \<Rightarrow> fail UnknownConnectionId)"

definition server_send_packet :: "('w, 'p, 'h, 'b, 'r) adapter \<Rightarrow> rstring \<Rightarrow> packet \<Rightarrow>
    ('w, 'p, 'q, send_packet_error, unit) vprog" where
  "server_send_packet A connection_id p =
     andthen (gets (\<lambda>sv. sv_clients sv connection_id)) (\<lambda>client.
       case client of
         Some client \<Rightarrow> prog_err (\<lambda>_. UnknownConnectionId) (run_client connection_id (send_packet A p None))
       | None \<Rightarrow> fail UnknownConnectionId)"

definition clients_count :: "('w, 'p, 'q) server \<Rightarrow> nat" where
  "clients_count sv = card (dom (sv_clients sv))"

definition get_client_or_error :: "rstring \<Rightarrow> ('w, 'p, 'q, server_error, ('w, 'p) socket) vprog" where
  "get_client_or_error i =
     andthen (gets (\<lambda>sv. sv_clients sv i)) (\<lambda>client.
       case client of Some client \<Rightarrow> ret client | None \<Rightarrow> fail UnknownSid)"

section \<open>Requests\<close>

definition verify_request :: "rstring option \<Rightarrow> bool \<Rightarrow> transport_kind \<Rightarrow> http_method \<Rightarrow>
    ('w, 'p, 'q, server_error, unit) vprog" where
  "verify_request sid upgrade kind http_method =
     (case sid of
        Some sid \<Rightarrow>
          andthen (gets (\<lambda>sv. sv_clients sv sid)) (\<lambda>client.
            case client of
              Some client \<Rightarrow>
                andthen (run_client sid get_transport_kind) (\<lambda>client_transport_kind.
                  if \<not> upgrade \<and> Some kind \<noteq> client_transport_kind then fail BadRequest else ret ())
            | None \<Rightarrow> fail UnknownSid)
      | None \<Rightarrow> if http_method \<noteq> MGet then fail BadHandshakeMethod else ret ())"

datatype 'h handshake_data = HsPolling | HsWebSocket 'h

definition subscribe_socket_to_transport_events :: "rstring \<Rightarrow> ('w, 'p, 'q, 'e, unit) vprog" where
  "subscribe_socket_to_transport_events i = modify (\<lambda>sv. sv\<lparr>sv_spawned := sv_spawned sv @ [i]\<rparr>)"

text \<open>
  The reply to the handshake: for a WebSocket it is an error, which is returned only after the
  \<open>Connection\<close> event (\<open>None\<close> here); every other error returns before it.
\<close>

definition handshake_response :: "('w, 'p, 'h, 'b, 'r) adapter \<Rightarrow> rstring \<Rightarrow> request_context \<Rightarrow>
    ('w, 'p, 'q, server_error, 'r option) vprog" where
  "handshake_response A sid rc =
     andthen (get_client_or_error sid) (\<lambda>client.
     andthen (run_client sid get_transport_or_fail) (\<lambda>t.
       case t of
         Polling _ \<Rightarrow> andthen (run_client sid (handle_polling_request A rc None)) (\<lambda>r. ret (Some r))
       | _ \<Rightarrow> ret None))"

definition handshake :: "('w, 'p, 'h, 'b, 'r) adapter \<Rightarrow>
    (rstring \<Rightarrow> rstring list \<Rightarrow> 32 word \<Rightarrow> 32 word \<Rightarrow> rstring) \<Rightarrow> (server_event \<Rightarrow> 'q \<Rightarrow> 'q) \<Rightarrow>
    rstring \<Rightarrow> request_context \<Rightarrow> 'h handshake_data \<Rightarrow> ('w, 'p, 'q, server_error, rstring \<times> 'r) vprog" where
  "handshake A open_json emit sid rc hs =
     (let supports_binary = rc_query rc (lit ''b64'') = None;
          jsonp = \<not> supports_binary \<and> rc_query rc (lit ''j'') = None
      in andthen (gets sv_options) (\<lambda>options.
         let rc = with_set_cookie rc (from_cookie_options (so_cookie options) sid);
             create_data = (case hs of
                HsPolling \<Rightarrow> CreatePolling jsonp
              | HsWebSocket socket \<Rightarrow> CreateWebSocket supports_binary socket)
         in andthen (modify (\<lambda>sv. sv\<lparr>sv_clients := (sv_clients sv)(sid \<mapsto> socket_new A sid rc create_data)\<rparr>)) (\<lambda>_.
         andthen (run_client sid (socket_open A open_json options)) (\<lambda>_.
         andthen (case so_initial_packet options of
                    Some p \<Rightarrow> run_client sid (send_packet A p None)
                  | None \<Rightarrow> ret ()) (\<lambda>_.
         andthen (subscribe_socket_to_transport_events sid) (\<lambda>_.
         andthen (handshake_response A sid rc) (\<lambda>response.
         andthen (modify (\<lambda>sv. sv\<lparr>sv_owner := emit (VConnection sid) (sv_owner sv)\<rparr>)) (\<lambda>_.
           case response of Some response \<Rightarrow> ret (sid, response) | None \<Rightarrow> fail BadRequest))))))))"

definition handle_request :: "('w, 'p, 'h, 'b, 'r) adapter \<Rightarrow>
    (rstring \<Rightarrow> rstring list \<Rightarrow> 32 word \<Rightarrow> 32 word \<Rightarrow> rstring) \<Rightarrow> (server_event \<Rightarrow> 'q \<Rightarrow> 'q) \<Rightarrow>
    rstring \<Rightarrow> request_context \<Rightarrow> 'b option \<Rightarrow> ('w, 'p, 'q, server_error, 'r) vprog" where
  "handle_request A open_json emit new_sid rc body =
     (let sid = rc_query rc (lit ''sid'')
      in andthen (verify_request sid False (rc_transport_kind rc) (rc_http_method rc)) (\<lambda>_.
         case sid of
           Some sid \<Rightarrow>
             andthen (get_client_or_error sid) (\<lambda>client.
             andthen (run_client sid (handle_polling_request A rc body)) (\<lambda>response. ret response))
         | None \<Rightarrow>
             andthen (handshake A open_json emit new_sid rc HsPolling) (\<lambda>(sid, response). ret response)))"

definition handle_upgrade :: "('w, 'p, 'h, 'b, 'r) adapter \<Rightarrow>
    (rstring \<Rightarrow> rstring list \<Rightarrow> 32 word \<Rightarrow> 32 word \<Rightarrow> rstring) \<Rightarrow> (server_event \<Rightarrow> 'q \<Rightarrow> 'q) \<Rightarrow>
    rstring \<Rightarrow> request_context \<Rightarrow> 'h \<Rightarrow> ('w, 'p, 'q, unit, unit) vprog" where
  "handle_upgrade A open_json emit new_sid rc socket =
     (case rc_query rc (lit ''sid'') of
        Some sid \<Rightarrow> andthen (expect_ok (get_client_or_error sid)) (\<lambda>client. panic)
      | None \<Rightarrow>
          andthen (ignore_err (handshake A open_json emit new_sid rc (HsWebSocket socket))) (\<lambda>_. panic))"

section \<open>The calls of a client\<close>

lemma run_client_known:
  "sv_clients sv i = Some s \<Longrightarrow> m s = (r, t) \<Longrightarrow>
   run_client i m sv = (r, sv\<lparr>sv_clients := (sv_clients sv)(i \<mapsto> t),
     sv_queue := sv_queue sv @ drop (length (sk_events s)) (sk_events t)\<rparr>)"
  by (simp add: run_client_def)

lemma run_client_read:
  "sv_clients sv i = Some s \<Longrightarrow> m s = (r, s) \<Longrightarrow> run_client i m sv = (r, sv)"
  by (simp add: run_client_def map_upd_triv)

lemma get_transport_kind_free:
  "sk_lock s = LkFree \<Longrightarrow> get_transport_kind s = (Ok (map_option transport_get_kind (sk_transport s)), s)"
  by (simp add: get_transport_kind_def with_read_gets)

section \<open>Requests\<close>

text \<open>
  Who may make a request: without a session id exactly the \<open>GET\<close> requests; with one, the id has to
  be known and, unless it is an upgrade, the transport has to be the one of the client. The errors
  are the ones of the protocol, and checking a request changes nothing.
\<close>

theorem verify_request_table:
  assumes "\<And>i s. sid = Some i \<Longrightarrow> sv_clients sv i = Some s \<Longrightarrow> sk_lock s = LkFree"
  shows "verify_request sid upgrade kind http_method sv =
    (case sid of
       None \<Rightarrow> if http_method = MGet then Ok () else Err BadHandshakeMethod
     | Some i \<Rightarrow>
         (case sv_clients sv i of
            None \<Rightarrow> Err UnknownSid
          | Some s \<Rightarrow>
              if upgrade \<or> map_option transport_get_kind (sk_transport s) = Some kind then Ok ()
              else Err BadRequest), sv)"
  using assms
  by (auto simp: verify_request_def get_transport_kind_free run_client_read andthen_def
      eq_commute [of "Some kind"] split: option.splits)

lemma handshake_fails:
  "\<exists>create_data. handshake A open_json emit sid rc hs sv =
    (Panic, sv\<lparr>sv_clients := (sv_clients sv)(sid \<mapsto>
       (socket_new A sid (with_set_cookie rc (from_cookie_options (so_cookie (sv_options sv)) sid)) create_data)
         \<lparr>sk_ready := RsOpen\<rparr>)\<rparr>)"
proof -
  have "run_client sid (socket_open A open_json (sv_options sv))
      (sv\<lparr>sv_clients := (sv_clients sv)(sid \<mapsto> socket_new A sid rc' d)\<rparr>) =
    (Panic, sv\<lparr>sv_clients := (sv_clients sv)(sid \<mapsto> (socket_new A sid rc' d)\<lparr>sk_ready := RsOpen\<rparr>)\<rparr>)" for rc' d
    by (simp add: run_client_def socket_open_free)
  then show ?thesis
    by (auto simp: handshake_def Let_def)
qed

text \<open>
  A handshake never completes: whatever the request, it panics while it opens the new socket, and
  leaves a client behind that is open, has not been announced to anybody and has an id nobody knows.
\<close>

theorem handshake_panics:
  "\<exists>create_data. handshake A open_json emit sid rc hs sv =
    (Panic, sv\<lparr>sv_clients := (sv_clients sv)(sid \<mapsto>
       (socket_new A sid (with_set_cookie rc (from_cookie_options (so_cookie (sv_options sv)) sid)) create_data)
         \<lparr>sk_ready := RsOpen\<rparr>)\<rparr>)"
  by (rule handshake_fails)

text \<open>
  C40: A request without a session id is either refused, if it is not a \<open>GET\<close> request, with nothing
  changed, or it panics and adds one client to the server.
\<close>

theorem request_without_session:
  assumes "rc_query rc (lit ''sid'') = None" and "finite (dom (sv_clients sv))"
    and "sv_clients sv new_sid = None"
  shows "if rc_http_method rc = MGet
    then fst (handle_request A open_json emit new_sid rc body sv) = Panic \<and>
      clients_count (snd (handle_request A open_json emit new_sid rc body sv)) = Suc (clients_count sv)
    else handle_request A open_json emit new_sid rc body sv = (Err BadHandshakeMethod, sv)"
proof -
  obtain t where "handshake A open_json emit new_sid rc HsPolling sv =
      (Panic, sv\<lparr>sv_clients := (sv_clients sv)(new_sid \<mapsto> t)\<rparr>)"
    using handshake_fails [of A open_json emit new_sid rc HsPolling sv] by blast
  moreover have "new_sid \<notin> dom (sv_clients sv)" using assms(3) by auto
  ultimately show ?thesis
    using assms by (simp add: handle_request_def verify_request_def clients_count_def)
qed

text \<open>
  An upgrade request always panics: with a known or unknown session id, and without one, where it
  leaves the client of the failed handshake behind.
\<close>

theorem upgrade_panics: "fst (handle_upgrade A open_json emit new_sid rc socket sv) = Panic"
proof (cases "rc_query rc (lit ''sid'')")
  case None
  then show ?thesis
    using handshake_fails [of A open_json emit new_sid rc "HsWebSocket socket" sv]
    by (auto simp: handle_upgrade_def ignore_err_def)
next
  case (Some sid)
  then show ?thesis
    by (cases "sv_clients sv sid")
      (simp_all add: handle_upgrade_def expect_ok_def get_client_or_error_def andthen_def)
qed

section \<open>Sending and subscribing\<close>

text \<open>
  The acknowledgement callback of \<open>send_packet_with_ack\<close> is ignored: the call does exactly what
  \<open>send_packet\<close> does, whatever the callback, and an unknown connection is an error that changes nothing.
\<close>

theorem ack_is_ignored:
  "server_send_packet_with_ack A i p cb sv = server_send_packet A i p sv \<and>
   (sv_clients sv i = None \<longrightarrow> server_send_packet A i p sv = (Err UnknownConnectionId, sv))"
  by (simp add: server_send_packet_with_ack_def server_send_packet_def)

text \<open>
  The first subscription succeeds and starts the task that reads the events of the sockets; every
  later one is an error, and \<open>subscribe\<close> panics on it; the first start is never undone.
\<close>

theorem subscribe_once:
  assumes "sv_state sv = Unsubscribed"
  shows "let sv' = snd (try_subscribe sv) in
    fst (try_subscribe sv) = Ok () \<and> fst (subscribe sv) = Ok () \<and> sv_listening sv' \<and>
    fst (try_subscribe sv') = Err AlreadySubscribedError \<and> fst (subscribe sv') = Panic \<and>
    sv_listening (snd (try_subscribe sv'))"
  using assms
  by (simp add: try_subscribe_def subscribe_def subscribe_to_socket_events_def expect_ok_def Let_def)

text \<open>
  Closing the socket of a known connection forgets it, without sending it anything, and panics; for
  an unknown connection nothing happens.
\<close>

theorem close_socket_panics:
  "close_socket i sv = (if sv_clients sv i = None then (Ok (), sv)
     else (Panic, sv\<lparr>sv_clients := (sv_clients sv)(i := None)\<rparr>))"
  by (auto simp: close_socket_def)

section \<open>The events of the sockets\<close>

text \<open>What the owner of the server is told of an event of a socket.\<close>

fun forwarded :: "socket_event \<Rightarrow> server_event option" where
  "forwarded (SeClose i reason) = Some (VClose i reason)"
| "forwarded (SeFlush i) = Some (VFlush i)"
| "forwarded (SeDrain i) = Some (VDrain i)"
| "forwarded (SeMessage i rc d) = Some (VMessage i rc d)"
| "forwarded (SeError i) = Some (VError i)"
| "forwarded _ = None"

definition closes :: "rstring \<Rightarrow> socket_event list \<Rightarrow> bool" where
  "closes i es \<longleftrightarrow> (\<exists>reason. SeClose i reason \<in> set es)"

lemma closes_simps [simp]:
  "\<not> closes i []"
  "closes i (e # es) \<longleftrightarrow> (\<exists>reason. e = SeClose i reason) \<or> closes i es"
  "closes i (es @ fs) \<longleftrightarrow> closes i es \<or> closes i fs"
  by (auto simp: closes_def)

definition listen_all :: "(server_event \<Rightarrow> 'q \<Rightarrow> 'q) \<Rightarrow> ('w, 'p, 'q) server \<Rightarrow> ('w, 'p, 'q) server" where
  "listen_all emit sv = fold (\<lambda>_. listen_step emit) (sv_queue sv) sv"

lemma on_socket_event_queue [simp]:
  "sv_queue (on_socket_event emit e sv) = sv_queue sv"
  "sv_listening (on_socket_event emit e sv) = sv_listening sv"
  by (simp_all add: on_socket_event_def split: socket_event.splits)

lemma listen_all_rec:
  "sv_queue sv = [] \<Longrightarrow> listen_all emit sv = sv"
  "sv_queue sv = e # es \<Longrightarrow> sv_listening sv \<Longrightarrow>
    listen_all emit sv = listen_all emit (on_socket_event emit e (sv\<lparr>sv_queue := es\<rparr>))"
  by (simp_all add: listen_all_def listen_step_def)

lemma listen_all_eq:
  assumes "sv_listening sv"
  shows "listen_all emit sv = sv\<lparr>
    sv_queue := [],
    sv_owner := fold emit (List.map_filter forwarded (sv_queue sv)) (sv_owner sv),
    sv_clients := (\<lambda>i. if closes i (sv_queue sv) then None else sv_clients sv i)\<rparr>"
  using assms
proof (induction "sv_queue sv" arbitrary: sv)
  case Nil
  then show ?case by (cases sv) (simp add: listen_all_rec map_filter_simps)
next
  case (Cons e es)
  let ?t = "on_socket_event emit e (sv\<lparr>sv_queue := es\<rparr>)"
  have "listen_all emit sv = listen_all emit ?t"
    using Cons.prems by (rule listen_all_rec(2) [OF Cons.hyps(2) [symmetric]])
  moreover have "sv_queue ?t = es" "sv_listening ?t"
    using Cons.prems by simp_all
  moreover note Cons.hyps(1) [of ?t]
  ultimately show ?case
    using Cons.hyps(2)
    by (cases e) (auto simp: on_socket_event_def map_filter_simps Cons.hyps(2) [symmetric] fun_eq_iff)
qed

text \<open>
  C39: Reading the whole queue tells the owner the events in the order in which the sockets sent them,
  one for one except for open, upgrade and heartbeat events, which are not forwarded; it removes
  exactly the clients that sent a close, and leaves the others as they are.
\<close>

theorem listen_all_forwards:
  assumes "sv_listening sv"
  shows "listen_all emit sv = sv\<lparr>
    sv_queue := [],
    sv_owner := fold emit (List.map_filter forwarded (sv_queue sv)) (sv_owner sv),
    sv_clients := (\<lambda>i. if closes i (sv_queue sv) then None else sv_clients sv i)\<rparr>"
  using assms by (rule listen_all_eq)

section \<open>Closed clients\<close>

lemma close_is_sent:
  assumes "socket_inv s" and "socket_inv t" and "grows s t" and "sk_ready t = RsClosed" and "sk_ready s \<noteq> RsClosed"
  shows "closes (sk_id s) (drop (length (sk_events s)) (sk_events t))"
proof -
  obtain reason where t: "sk_events t = flush_events t @ [SeClose (sk_id t) reason]" and
    s: "sk_events s = flush_events s"
    using assms by (auto simp: socket_inv_def)
  obtain new where new: "sk_events t = sk_events s @ new"
    using assms(3) by (auto simp: grows_def prefix_def)
  have "\<not> closes (sk_id s) (sk_events s)"
    by (auto simp: s flush_events_def closes_def)
  moreover have "closes (sk_id s) (sk_events t)"
    using assms(3) by (auto simp: t grows_def closes_def)
  ultimately show ?thesis by (simp add: new)
qed

text \<open>The events that the sockets really send.\<close>

fun quiet_event :: "socket_event \<Rightarrow> bool" where
  "quiet_event (SeFlush i) = True"
| "quiet_event (SeDrain i) = True"
| "quiet_event (SeClose i reason) = True"
| "quiet_event _ = False"

lemma quiet_flushes: "list_all quiet_event (concat (replicate n [SeFlush i, SeDrain i]))"
  by (induction n) simp_all

lemma quiet_events: "socket_inv s \<Longrightarrow> list_all quiet_event (sk_events s)"
  using quiet_flushes by (auto simp: socket_inv_def flush_events_def)

definition server_inv :: "('w, 'p, 'q) server \<Rightarrow> bool" where
  "server_inv sv \<longleftrightarrow> list_all quiet_event (sv_queue sv) \<and> (\<forall>i s. sv_clients sv i = Some s \<longrightarrow>
     sk_id s = i \<and> socket_inv s \<and> (sk_ready s = RsClosed \<longrightarrow> closes i (sv_queue sv)))"

definition inv_step :: "('w, 'p, 'q) server \<Rightarrow> ('w, 'p, 'q) server \<Rightarrow> bool" where
  "inv_step sv sv' \<longleftrightarrow> (server_inv sv \<longrightarrow> server_inv sv')"

interpretation inv_steps: step_relation inv_step
  by unfold_locales (simp_all add: inv_step_def)

lemma run_client_keeps:
  fixes m :: "('w, 'p, 'x) sprog"
  assumes "\<And>s. socket_inv s \<Longrightarrow> socket_inv (snd (m s))" and "keeps grows m"
  shows "keeps inv_step (run_client i m :: ('w, 'p, 'q, server_error, 'x) vprog)"
  unfolding keeps_def inv_step_def
proof (intro allI impI)
  fix sv :: "('w, 'p, 'q) server"
  assume inv: "server_inv sv"
  show "server_inv (snd (run_client i m sv))"
  proof (cases "sv_clients sv i")
    case None
    with inv show ?thesis by (simp add: run_client_def)
  next
    case (Some s)
    obtain r t where t: "m s = (r, t)" by force
    have s: "sk_id s = i" "socket_inv s" "sk_ready s = RsClosed \<longrightarrow> closes i (sv_queue sv)"
      using inv Some by (auto simp: server_inv_def)
    have "socket_inv t" "grows s t"
      using assms(1) [OF s(2)] keepsD [OF assms(2), of s] t by simp_all
    moreover from this have "closes i (sv_queue sv @ drop (length (sk_events s)) (sk_events t))" if "sk_ready t = RsClosed"
      using close_is_sent [OF s(2)] s(1,3) that by auto
    moreover have "sk_id t = i" using s(1) calculation(2) by (simp add: grows_def)
    moreover have "list_all quiet_event (drop (length (sk_events s)) (sk_events t))"
      using quiet_events [OF calculation(1)] by (auto simp: list_all_iff dest: in_set_dropD)
    ultimately show ?thesis
      using inv by (auto simp: run_client_known [where m = m, OF Some t] server_inv_def)
  qed
qed

lemma inv_lock: "socket_inv s \<Longrightarrow> sk_lock s \<noteq> LkFree \<Longrightarrow> sk_lock s = LkWrite"
  by (auto simp: socket_inv_def)

lemma socket_inv_kind: "socket_inv s \<Longrightarrow> socket_inv (snd (get_transport_kind s))"
proof (cases "sk_lock s = LkFree")
  case True
  then show "socket_inv s \<Longrightarrow> ?thesis" by (simp add: get_transport_kind_free)
next
  case False
  then show "socket_inv s \<Longrightarrow> ?thesis" using inv_lock [of s] by (simp add: get_transport_kind_def write_locked)
qed

lemma socket_inv_request: "socket_inv s \<Longrightarrow> socket_inv (snd (handle_polling_request A rc body s))"
  using inv_lock [of s] request_inv [of s A rc body]
  by (cases "sk_lock s = LkFree")
    (simp_all add: handle_polling_request_def get_transport_or_fail_def write_locked)

lemma socket_inv_send: "socket_inv s \<Longrightarrow> socket_inv (snd (send_packet A p cb s))"
  using run_op_inv [where op = "OpSend p cb" and A = A and s = s] by (simp add: run_op_def)

lemma snd_prog_err: "snd (prog_err h m s) = snd (m s)"
  by (simp add: prog_err_def split: prod.splits)

lemma prog_err_keeps: "keeps R m \<Longrightarrow> keeps R (prog_err h m)"
  by (simp add: keeps_def snd_prog_err)

lemma server_send_keeps: "keeps inv_step (server_send_packet A i p)"
  unfolding server_send_packet_def
  by (auto intro!: inv_steps.keeps_rules prog_err_keeps run_client_keeps socket_inv_send grows_ops
      split: option.splits)

lemma verify_keeps: "keeps inv_step (verify_request sid upgrade kind http_method)"
  unfolding verify_request_def
  by (auto intro!: inv_steps.keeps_rules run_client_keeps socket_inv_kind grows_prims split: option.splits)

lemma server_inv_insert:
  "server_inv sv \<Longrightarrow> sk_id t = i \<Longrightarrow> socket_inv t \<Longrightarrow> sk_ready t \<noteq> RsClosed \<Longrightarrow>
   server_inv (sv\<lparr>sv_clients := (sv_clients sv)(i \<mapsto> t)\<rparr>)"
  by (simp add: server_inv_def)

lemma handshake_keeps:
  "keeps inv_step (handshake A open_json emit sid rc hs :: ('w, 'p, 'q, server_error, rstring \<times> 'r) vprog)"
  unfolding keeps_def inv_step_def
proof (intro allI impI)
  fix sv :: "('w, 'p, 'q) server"
  assume "server_inv sv"
  moreover have "socket_inv ((socket_new A sid c d)\<lparr>sk_ready := RsOpen\<rparr>)" for c d
    by (simp add: socket_inv_def flush_events_def)
  ultimately show "server_inv (snd (handshake A open_json emit sid rc hs sv))"
    using handshake_fails [of A open_json emit sid rc hs sv] by (auto intro!: server_inv_insert)
qed

lemma handle_request_keeps: "keeps inv_step (handle_request A open_json emit new_sid rc body)"
proof -
  have "keeps inv_step (get_client_or_error i)" for i
    unfolding get_client_or_error_def by (auto intro!: inv_steps.keeps_rules split: option.splits)
  then show ?thesis
    unfolding handle_request_def Let_def
    by (auto intro!: inv_steps.keeps_rules verify_keeps handshake_keeps run_client_keeps socket_inv_request
        grows_request split: option.splits)
qed

section \<open>The life of a server\<close>

text \<open>
  The steps of a server: its public operations, a turn of the task that reads the events of the
  sockets, and an event of the transport of one of its clients.
\<close>

inductive server_step :: "('w, 'p, 'h, 'b, 'r) adapter \<Rightarrow>
    (rstring \<Rightarrow> rstring list \<Rightarrow> 32 word \<Rightarrow> 32 word \<Rightarrow> rstring) \<Rightarrow> (server_event \<Rightarrow> 'q \<Rightarrow> 'q) \<Rightarrow>
    ('w, 'p, 'q) server \<Rightarrow> ('w, 'p, 'q) server \<Rightarrow> bool" for A open_json emit where
  request: "server_step A open_json emit sv (snd (handle_request A open_json emit new_sid rc body sv))"
| upgrade: "server_step A open_json emit sv (snd (handle_upgrade A open_json emit new_sid rc socket sv))"
| send: "server_step A open_json emit sv (snd (server_send_packet_with_ack A i p cb sv))"
| closing: "server_step A open_json emit sv (snd (close_socket i sv))"
| subscribing: "server_step A open_json emit sv (snd (try_subscribe sv))"
| listening: "server_step A open_json emit sv (listen_step emit sv)"
| transport_event:
    "server_step A open_json emit sv (snd (run_client i (on_transport_event A message) sv))"

inductive server_reachable :: "('w, 'p, 'h, 'b, 'r) adapter \<Rightarrow>
    (rstring \<Rightarrow> rstring list \<Rightarrow> 32 word \<Rightarrow> 32 word \<Rightarrow> rstring) \<Rightarrow> (server_event \<Rightarrow> 'q \<Rightarrow> 'q) \<Rightarrow>
    ('w, 'p, 'q) server \<Rightarrow> bool" for A open_json emit where
  start: "server_reachable A open_json emit (server_new options owner)"
| more: "server_reachable A open_json emit sv \<Longrightarrow> server_step A open_json emit sv sv' \<Longrightarrow>
    server_reachable A open_json emit sv'"

lemma server_step_inv:
  assumes "server_step A open_json emit sv sv'"
  shows "inv_step sv sv'"
  using assms
proof cases
  case (request new_sid rc body)
  then show ?thesis using keepsD [OF handle_request_keeps] by blast
next
  case (upgrade new_sid rc socket)
  have "snd (handle_upgrade A open_json emit new_sid rc socket sv) =
    (if rc_query rc (lit ''sid'') = None
     then snd (handshake A open_json emit new_sid rc (HsWebSocket socket) sv) else sv)"
    by (auto simp: handle_upgrade_def expect_ok_def ignore_err_def get_client_or_error_def andthen_def
        split: option.splits prod.splits outcome.splits)
  with upgrade show ?thesis
    using keepsD [OF handshake_keeps] by (auto simp: inv_steps.same)
next
  case (send i p cb)
  have "server_send_packet_with_ack A i p cb sv = server_send_packet A i p sv"
    by (simp add: server_send_packet_with_ack_def server_send_packet_def)
  with send show ?thesis using keepsD [OF server_send_keeps] by metis
next
  case (closing i)
  then show ?thesis
    by (auto simp: close_socket_def inv_step_def server_inv_def split: option.splits)
next
  case subscribing
  then show ?thesis
    by (auto simp: try_subscribe_def subscribe_to_socket_events_def inv_step_def server_inv_def
        split: server_state.splits)
next
  case listening
  then show ?thesis
    by (auto simp: listen_step_def on_socket_event_def inv_step_def server_inv_def
        split: list.splits socket_event.splits if_splits)
next
  case (transport_event i message)
  have "socket_inv s \<Longrightarrow> socket_inv (snd (on_transport_event A message s))" for s
    using run_op_inv [where op = "OpEvent message" and A = A and s = s] by (simp add: run_op_def)
  with transport_event show ?thesis
    using keepsD [OF run_client_keeps [OF _ grows_event]] by metis
qed

lemma server_reachable_inv: "server_reachable A open_json emit sv \<Longrightarrow> server_inv sv"
proof (induction rule: server_reachable.induct)
  case (start options owner)
  show ?case by (simp add: server_inv_def server_new_def)
next
  case (more sv sv')
  then show ?case using server_step_inv [OF more(2)] by (simp add: inv_step_def)
qed

text \<open>
  C18: A client is registered under its own id, and a client that has closed is forgotten: in every
  state a server can reach, its close is in the queue, so once the queue has been read no closed
  client is left, whatever the order of the requests, events and packets was.
\<close>

theorem closed_clients_are_removed:
  assumes "server_reachable A open_json emit sv" and "sv_listening sv"
    and "sv_clients (listen_all emit sv) i = Some s"
  shows "sk_id s = i \<and> sk_ready s \<noteq> RsClosed"
  using server_reachable_inv [OF assms(1)] assms(3)
  by (auto simp: listen_all_eq [OF assms(2)] server_inv_def split: if_splits)

section \<open>Witnesses\<close>

abbreviation server_ref :: "(unit, unit, server_event list) server" where
  "server_ref \<equiv> server_new server_options_default []"

abbreviation emit_ref :: "server_event \<Rightarrow> server_event list \<Rightarrow> server_event list" where
  "emit_ref \<equiv> (\<lambda>e es. es @ [e])"

theorem verify_request_table_witness:
  "verify_request (Some (lit ''x'')) False KPolling MPost server_ref = (Err UnknownSid, server_ref)"
  using verify_request_table [of "Some (lit ''x'')" server_ref False KPolling MPost]
  by (simp add: server_new_def)

theorem request_without_session_witness:
  "fst (handle_request adapter_ref json_ref emit_ref (lit ''s'') context_ref None server_ref) = Panic"
  using request_without_session [of context_ref server_ref "lit ''s''" adapter_ref json_ref emit_ref None]
  by (simp add: context_ref_def server_new_def)

theorem subscribe_once_witness: "fst (try_subscribe server_ref) = Ok ()"
  using subscribe_once [of server_ref] by (simp add: server_new_def Let_def)

theorem ack_is_ignored_witness:
  "server_send_packet adapter_ref (lit ''x'') noop_ref server_ref = (Err UnknownConnectionId, server_ref)"
  using ack_is_ignored [of adapter_ref "lit ''x''" noop_ref None server_ref]
  by (simp add: server_new_def)

theorem listen_all_forwards_witness:
  "sv_owner (listen_all emit_ref (server_ref\<lparr>sv_listening := True, sv_queue := [SeOpen [], SeDrain []]\<rparr>)) =
    [VDrain []]"
  using listen_all_forwards [of "server_ref\<lparr>sv_listening := True, sv_queue := [SeOpen [], SeDrain []]\<rparr>" emit_ref]
  by (simp add: server_new_def map_filter_simps)

theorem closed_clients_are_removed_witness:
  "\<exists>s. sv_clients (listen_all emit_ref (snd (handle_request adapter_ref json_ref emit_ref (lit ''s'')
      context_ref None (snd (try_subscribe server_ref))))) (lit ''s'') = Some s \<and>
    sk_id s = lit ''s'' \<and> sk_ready s \<noteq> RsClosed"
proof -
  let ?sv = "snd (try_subscribe server_ref)"
  let ?w = "snd (handle_request adapter_ref json_ref emit_ref (lit ''s'') context_ref None ?sv)"
  have sub: "sv_listening ?sv" "sv_queue ?sv = []"
    by (simp_all add: try_subscribe_def subscribe_to_socket_events_def server_new_def)
  have r: "server_reachable adapter_ref json_ref emit_ref ?w"
    by (rule server_reachable.more [OF server_reachable.more [OF server_reachable.start
        server_step.subscribing] server_step.request])
  obtain d where d: "handshake adapter_ref json_ref emit_ref (lit ''s'') context_ref HsPolling ?sv =
    (Panic, ?sv\<lparr>sv_clients := (sv_clients ?sv)(lit ''s'' \<mapsto>
       (socket_new adapter_ref (lit ''s'') (with_set_cookie context_ref
          (from_cookie_options (so_cookie (sv_options ?sv)) (lit ''s''))) d)\<lparr>sk_ready := RsOpen\<rparr>)\<rparr>)"
    using handshake_fails [of adapter_ref json_ref emit_ref "lit ''s''" context_ref HsPolling ?sv] by blast
  have w: "?w = snd (handshake adapter_ref json_ref emit_ref (lit ''s'') context_ref HsPolling ?sv)"
    by (simp add: handle_request_def verify_request_def context_ref_def Let_def d [unfolded context_ref_def])
  have l: "sv_listening ?w" "sv_queue ?w = []"
    unfolding w d using sub by simp_all
  then have "sv_clients (listen_all emit_ref ?w) (lit ''s'') = sv_clients ?w (lit ''s'')"
    by (simp add: listen_all_rec)
  moreover have "\<exists>s. sv_clients ?w (lit ''s'') = Some s" unfolding w d by simp
  ultimately obtain s where "sv_clients (listen_all emit_ref ?w) (lit ''s'') = Some s" by metis
  with closed_clients_are_removed [OF r l(1) this] show ?thesis by blast
qed

end
