(* ===== verification/Engine_Hub.thy ===== *)
theory Engine_Hub
  imports Engine_Tasks Engine_Server
begin

text \<open>
  What the tasks of an Engine.IO server share: the table of the clients, which is a \<open>DashMap\<close>, and the
  channel of the events of the sockets, which has room for a fixed number of them. \<open>send_packet\<close> keeps its
  reference into the table until it returns, and sends events meanwhile; the task that reads the events
  removes clients from the table. \<open>shard\<close> says which part of the table an id is in: as \<open>dashmap\<close>
  documents, to remove an entry is to wait until there is no reference into its part (\<open>referred\<close>), and as
  \<open>tokio\<close> documents, to send on a full channel is to wait for room (\<open>waits\<close>). A step of a task that has to
  wait changes nothing.
\<close>

section \<open>State and tasks\<close>

record ('w, 'p, 'q) hub =
  hb_server :: "('w, 'p, 'q) server"
  hb_guards :: "rstring list"
  hb_gone :: "rstring \<rightharpoonup> ('w, 'p) socket"

text \<open>
  \<open>hb_guards\<close> are the ids of the references held into the table, and \<open>hb_gone\<close> the sockets that have been
  removed from it and are still shared. \<open>Caller\<close> is \<open>Server::send_packet\<close>, \<open>Sending\<close> the same with its
  reference, \<open>Method\<close> a method of a socket that is called by the task of its transport, \<open>Listening\<close> the
  loop of \<open>subscribe_to_socket_events\<close>, and \<open>Removing\<close> the same with a close received. \<open>Dropping\<close> is
  \<open>Server::close_socket\<close>, which panics when it has removed a client, and is done either way.
\<close>

datatype hub_task =
    Caller rstring packet
  | Sending rstring task
  | Method rstring task
  | Listening
  | Removing rstring close_reason
  | Dropping rstring
  | HubDone

definition put_socket :: "rstring \<Rightarrow> ('w, 'p) socket \<Rightarrow> ('w, 'p) socket \<Rightarrow> ('w, 'p, 'q) hub \<Rightarrow> ('w, 'p, 'q) hub" where
  "put_socket i s s' hb =
     (let sv = hb_server hb; sv' = sv\<lparr>sv_queue := sv_queue sv @ drop (length (sk_events s)) (sk_events s')\<rparr>
      in if sv_clients sv i = None then hb\<lparr>hb_server := sv', hb_gone := (hb_gone hb)(i \<mapsto> s')\<rparr>
         else hb\<lparr>hb_server := sv'\<lparr>sv_clients := (sv_clients sv)(i \<mapsto> s')\<rparr>\<rparr>)"

definition shared_socket :: "('w, 'p, 'q) hub \<Rightarrow> rstring \<rightharpoonup> ('w, 'p) socket" where
  "shared_socket hb i = (case sv_clients (hb_server hb) i of Some s \<Rightarrow> Some s | None \<Rightarrow> hb_gone hb i)"

definition socket_section :: "('w, 'p, 'h, 'b, 'r) adapter \<Rightarrow> rstring \<Rightarrow> task \<Rightarrow>
    ('w, 'p, 'q) hub \<Rightarrow> task \<times> ('w, 'p, 'q) hub" where
  "socket_section A i t hb =
     (case shared_socket hb i of
        None \<Rightarrow> (Stuck, hb)
      | Some s \<Rightarrow> (case task_step A t s of (t', s') \<Rightarrow> (t', put_socket i s s' hb)))"

fun sends_event :: "task \<Rightarrow> bool" where
  "sends_event (FlushEvent drain) = True"
| "sends_event (FlushDrain drain) = True"
| "sends_event (CloseEvent reason) = True"
| "sends_event t = False"

definition referred :: "(rstring \<Rightarrow> nat) \<Rightarrow> rstring \<Rightarrow> ('w, 'p, 'q) hub \<Rightarrow> bool" where
  "referred shard i hb \<longleftrightarrow> list_ex (\<lambda>g. shard g = shard i) (hb_guards hb)"

definition still_shared :: "rstring \<Rightarrow> ('w, 'p, 'q) hub \<Rightarrow> rstring \<rightharpoonup> ('w, 'p) socket" where
  "still_shared i hb = (case sv_clients (hb_server hb) i of Some s \<Rightarrow> (hb_gone hb)(i \<mapsto> s) | None \<Rightarrow> hb_gone hb)"

definition waits :: "nat \<Rightarrow> task \<Rightarrow> ('w, 'p, 'q) hub \<Rightarrow> bool" where
  "waits room t hb \<longleftrightarrow> sends_event t \<and> room \<le> length (sv_queue (hb_server hb))"

text \<open>The first step of \<open>Server::send_packet\<close>, and \<open>Server::close_socket\<close>.\<close>

definition send_packet_section :: "rstring \<Rightarrow> packet \<Rightarrow> ('w, 'p, 'q) hub \<Rightarrow> hub_task \<times> ('w, 'p, 'q) hub" where
  [simp]: "send_packet_section i p hb =
     (if sv_clients (hb_server hb) i = None then (HubDone, hb)
      else (Sending i (SendReady p None), hb\<lparr>hb_guards := i # hb_guards hb\<rparr>))"

definition close_socket_section :: "(rstring \<Rightarrow> nat) \<Rightarrow> rstring \<Rightarrow> ('w, 'p, 'q) hub \<Rightarrow>
    hub_task \<times> ('w, 'p, 'q) hub" where
  [simp]: "close_socket_section shard i hb =
     (if referred shard i hb then (Dropping i, hb)
      else (HubDone, hb\<lparr>hb_server := snd (close_socket i (hb_server hb)), hb_gone := still_shared i hb\<rparr>))"

fun hub_step :: "nat \<Rightarrow> (rstring \<Rightarrow> nat) \<Rightarrow> ('w, 'p, 'h, 'b, 'r) adapter \<Rightarrow> (server_event \<Rightarrow> 'q \<Rightarrow> 'q) \<Rightarrow>
    hub_task \<Rightarrow> ('w, 'p, 'q) hub \<Rightarrow> hub_task \<times> ('w, 'p, 'q) hub" where
  "hub_step room shard A emit (Caller i p) hb = send_packet_section i p hb"
| "hub_step room shard A emit (Sending i t) hb =
     (if t = Finished \<or> t = Stuck then (HubDone, hb\<lparr>hb_guards := remove1 i (hb_guards hb)\<rparr>)
      else if waits room t hb then (Sending i t, hb)
      else case socket_section A i t hb of (t, hb) \<Rightarrow> (Sending i t, hb))"
| "hub_step room shard A emit (Method i t) hb =
     (if t = Finished \<or> t = Stuck then (HubDone, hb)
      else if waits room t hb then (Method i t, hb)
      else case socket_section A i t hb of (t, hb) \<Rightarrow> (Method i t, hb))"
| "hub_step room shard A emit Listening hb =
     (case sv_queue (hb_server hb) of
        SeClose i reason # rest \<Rightarrow> (Removing i reason, hb\<lparr>hb_server := (hb_server hb)\<lparr>sv_queue := rest\<rparr>\<rparr>)
      | message # rest \<Rightarrow>
          (Listening, hb\<lparr>hb_server := on_socket_event emit message ((hb_server hb)\<lparr>sv_queue := rest\<rparr>)\<rparr>)
      | [] \<Rightarrow> (Listening, hb))"
| "hub_step room shard A emit (Removing i reason) hb =
     (if referred shard i hb then (Removing i reason, hb)
      else (Listening, hb\<lparr>hb_server := on_socket_event emit (SeClose i reason) (hb_server hb),
              hb_gone := still_shared i hb\<rparr>))"
| "hub_step room shard A emit (Dropping i) hb = close_socket_section shard i hb"
| "hub_step room shard A emit HubDone hb = (HubDone, hb)"

section \<open>Steps of sockets in the table\<close>

abbreviation hub_turns where "hub_turns room shard A emit \<equiv> take_turns (hub_step room shard A emit)"

definition after_section :: "rstring \<Rightarrow> ('w, 'p) socket \<Rightarrow> ('w, 'p) socket \<Rightarrow> ('w, 'p, 'q) hub \<Rightarrow> ('w, 'p, 'q) hub" where
  "after_section i s s' hb = hb\<lparr>hb_server := (hb_server hb)\<lparr>sv_clients := (sv_clients (hb_server hb))(i \<mapsto> s'),
     sv_queue := sv_queue (hb_server hb) @ drop (length (sk_events s)) (sk_events s')\<rparr>\<rparr>"

lemma after_section_simps [simp]:
  "sv_clients (hb_server (after_section i s s' hb)) = (sv_clients (hb_server hb))(i \<mapsto> s')"
  "sv_queue (hb_server (after_section i s s' hb)) =
    sv_queue (hb_server hb) @ drop (length (sk_events s)) (sk_events s')"
  "hb_guards (after_section i s s' hb) = hb_guards hb"
  "hb_gone (after_section i s s' hb) = hb_gone hb"
  by (simp_all add: after_section_def)

lemma section_idle:
  "sv_clients (hb_server hb) i = Some s \<Longrightarrow> idle_lock s \<Longrightarrow>
   socket_section A i t hb = (task_next A t s, after_section i s (task_effect t s) hb)"
  by (simp add: socket_section_def put_socket_def shared_socket_def task_step_idle after_section_def Let_def)

lemma task_effect_events: "\<exists>es. sk_events (task_effect t s) = sk_events s @ es"
  by (cases t) (simp_all add: task_effect_def drop_transport_def drained_def split: list.split)

lemma after_section_trans:
  assumes "sk_events s' = sk_events s @ es" and "sk_events s'' = sk_events s' @ fs"
  shows "after_section i s' s'' (after_section i s s' hb) = after_section i s s'' hb"
  using assms by (simp add: after_section_def)

text \<open>A run of a method of a socket, as long as there is room for its events.\<close>

lemma after_section_same: "sv_clients (hb_server hb) i = Some s \<Longrightarrow> after_section i s s hb = hb"
  by (cases hb; cases "hb_server hb") (auto simp: after_section_def map_upd_triv)

section \<open>With room for the events\<close>

text \<open>How many events a task may still send.\<close>

fun events_left :: "task \<Rightarrow> nat" where
  "events_left (SendReady p cb) = 2"
| "events_left (SendPush p cb) = 2"
| "events_left (FlushCheck d) = 2"
| "events_left (FlushWritable d) = 2"
| "events_left (FlushEvent d) = 2"
| "events_left (FlushTake d) = 1"
| "events_left (FlushSend d ps) = 1"
| "events_left (FlushCallbacks d) = 1"
| "events_left (FlushFraming d cs) = 1"
| "events_left (FlushExtend d bs) = 1"
| "events_left (FlushDrain d) = 1"
| "events_left (ErrorReady e) = 1"
| "events_left (CloseReady r) = 1"
| "events_left (CloseState r) = 1"
| "events_left (CloseTransport r) = 1"
| "events_left (CloseEvent r) = 1"
| "events_left t = 0"

lemma events_left_step:
  "length (sk_events (task_effect t s)) + events_left (task_next A t s) \<le> length (sk_events s) + events_left t"
  by (cases t) (simp_all add: task_effect_def task_next_def flush_end_def drop_transport_def drained_def split: list.split)

lemma events_left_sends: "sends_event t \<Longrightarrow> 0 < events_left t"
  by (cases t) simp_all

lemma run_alone_HubDone [simp]: "run_alone (hub_step room shard A emit) n (HubDone, hb) = (HubDone, hb)"
  by (induction n) simp_all

lemma task_next_Stuck [simp]: "task_next A Stuck s = Stuck" "task_next A Finished s = Finished"
  "task_effect Finished s = s"
  by (simp_all add: task_next_def task_effect_def)

lemma run_events: "idle_lock s \<Longrightarrow> \<exists>es. sk_events (snd (run_task n A (t, s))) = sk_events s @ es"
proof (induction n arbitrary: t s)
  case (Suc n)
  obtain es where "sk_events (task_effect t s) = sk_events s @ es" using task_effect_events by blast
  with Suc.IH [OF task_effect_idle [OF Suc.prems, of t], of "task_next A t s"] show ?case
    by (auto simp: task_step_idle [OF Suc.prems])
qed simp

text \<open>
  A task that carries out a method of a client step by step, and goes on when it is done: \<open>running t\<close> is the
  task at the point \<open>t\<close> of the method, and \<open>finish\<close> what it does at the end.
\<close>

locale carrying =
  fixes step :: "'t \<Rightarrow> ('w, 'p, 'q) hub \<Rightarrow> 't \<times> ('w, 'p, 'q) hub" and running :: "task \<Rightarrow> 't" and ended :: 't
    and finish :: "('w, 'p, 'q) hub \<Rightarrow> ('w, 'p, 'q) hub" and room :: nat
    and A :: "('w, 'p, 'h, 'b, 'r) adapter" and i :: rstring
  assumes carry: "t \<noteq> Finished \<Longrightarrow> t \<noteq> Stuck \<Longrightarrow> \<not> waits room t hb \<Longrightarrow>
      step (running t) hb = (case socket_section A i t hb of (t, hb) \<Rightarrow> (running t, hb))"
    and finishes: "step (running Finished) hb = (ended, finish hb)"
    and stays: "step ended hb = (ended, hb)"
begin

lemma run_ended: "run_alone step n (ended, hb) = (ended, hb)"
  by (induction n) (simp_all add: stays)

text \<open>A run that is not interrupted, as long as there is room for its events.\<close>

lemma run_carried:
  assumes "sv_clients (hb_server hb) i = Some s" and "idle_lock s" and "t \<noteq> Stuck" and "steps_left t \<le> n"
    and "length (sv_queue (hb_server hb)) + events_left t \<le> room"
  shows "run_alone step (Suc n) (running t, hb) = (ended, finish (after_section i s (snd (run_task n A (t, s))) hb))"
  using assms
proof (induction n arbitrary: t s hb)
  case 0
  then have "t = Finished" using steps_left_0 by simp
  with 0 show ?case by (simp add: after_section_same finishes)
next
  case (Suc n)
  show ?case
  proof (cases "t = Finished")
    case True
    with Suc.prems(1) show ?thesis by (simp add: after_section_same finishes stays run_ended)
  next
    case False
    let ?t = "task_next A t s" and ?s = "task_effect t s"
    let ?hb = "after_section i s ?s hb"
    have "\<not> waits room t hb" using Suc.prems(5) events_left_sends [of t] by (auto simp: waits_def)
    then have step: "step (running t) hb = (running ?t, ?hb)"
      using False Suc.prems by (simp add: carry section_idle)
    have "length (sv_queue (hb_server ?hb)) + events_left ?t \<le> room"
      using events_left_step [of t s A] Suc.prems(5) task_effect_events [of t s] by auto
    moreover have "steps_left ?t \<le> n"
      using task_turns.ends [of A t s] Suc.prems(2,4) by (simp add: task_step_idle)
    ultimately have "run_alone step (Suc n) (running ?t, ?hb) =
        (ended, finish (after_section i ?s (snd (run_task n A (?t, ?s))) ?hb))"
      using Suc.prems by (intro Suc.IH) (simp_all add: task_effect_idle task_next_not_Stuck)
    then show ?thesis
      using step run_events [OF task_effect_idle [OF Suc.prems(2), of t], of A n ?t] task_effect_events [of t s]
      by (auto simp: task_step_idle [OF Suc.prems(2)] after_section_trans)
  qed
qed

end

interpretation sending: carrying "hub_step room shard A emit" "Sending i" HubDone
    "\<lambda>hb. hb\<lparr>hb_guards := remove1 i (hb_guards hb)\<rparr>" room A i
  for room shard and A :: "('w, 'p, 'h, 'b, 'r) adapter" and emit :: "server_event \<Rightarrow> 'q \<Rightarrow> 'q" and i
  by unfold_locales simp_all

lemma caller_alone:
  assumes "\<And>s. sv_clients (hb_server hb) i = Some s \<Longrightarrow> idle_lock s"
    and "length (sv_queue (hb_server hb)) + 2 \<le> room"
  shows "run_alone (hub_step room shard A emit) 15 (Caller i p, hb) =
      (HubDone, hb\<lparr>hb_server := snd (server_send_packet A i p (hb_server hb))\<rparr>)"
proof (cases "sv_clients (hb_server hb) i")
  case None
  then show ?thesis by (simp add: numeral_eq_Suc server_send_packet_def)
next
  case (Some s)
  note idle = assms(1) [OF Some]
  let ?hb = "hb\<lparr>hb_guards := i # hb_guards hb\<rparr>"
  have "run_alone (hub_step room shard A emit) (Suc 13) (Sending i (SendReady p None), ?hb) =
    (HubDone, (after_section i s (snd (run_task 13 A (SendReady p None, s))) ?hb)\<lparr>hb_guards := remove1 i (hb_guards ?hb)\<rparr>)"
    using sending.run_carried [where hb = ?hb and i = i and s = s and t = "SendReady p None" and n = 13 and room = room]
      Some idle assms(2) by simp
  moreover have "run_task 13 A (SendReady p None, s) = (Finished, snd (send_packet A p None s))"
    using task_runs [OF idle] by blast
  ultimately show ?thesis
    using Some
    by (simp add: numeral_eq_Suc server_send_packet_def run_client_def prog_err_def after_section_def andthen_def
        split: prod.split)
qed

lemma listener_alone:
  assumes "hb_guards hb = []" and "sv_listening (hb_server hb)"
  shows "\<exists>n\<le>2. fst (run_alone (hub_step room shard A emit) n (Listening, hb)) = Listening \<and>
    hb_server (snd (run_alone (hub_step room shard A emit) n (Listening, hb))) = listen_step emit (hb_server hb)"
proof (cases "sv_queue (hb_server hb)")
  case Nil
  then show ?thesis by (intro exI [of _ 0]) (simp add: listen_step_def)
next
  case (Cons e es)
  show ?thesis
  proof (cases "\<exists>j reason. e = SeClose j reason")
    case True
    with Cons assms show ?thesis
      by (intro exI [of _ 2]) (auto simp: numeral_eq_Suc listen_step_def referred_def)
  next
    case False
    with Cons assms(2) show ?thesis
      by (intro exI [of _ 1]) (cases e; auto simp: listen_step_def)
  qed
qed

text \<open>
  The two models of the server agree: while the channel has room for the events, a call of
  \<open>send_packet\<close> that is not interrupted does to the clients and to the channel what \<open>Server::send_packet\<close> does in one go, and gives its reference back; and
  at most two turns of the listener, with no reference in the way, do what one turn of its loop does.
\<close>

theorem hub_alone:
  assumes "\<And>s. sv_clients (hb_server hb) i = Some s \<Longrightarrow> idle_lock s"
    and "length (sv_queue (hb_server hb)) + 2 \<le> room" and "sv_listening (hb_server hb)"
  shows "run_alone (hub_step room shard A emit) 15 (Caller i p, hb) =
      (HubDone, hb\<lparr>hb_server := snd (server_send_packet A i p (hb_server hb))\<rparr>) \<and>
    (hb_guards hb = [] \<longrightarrow>
      (\<exists>n\<le>2. fst (run_alone (hub_step room shard A emit) n (Listening, hb)) = Listening \<and>
        hb_server (snd (run_alone (hub_step room shard A emit) n (Listening, hb))) = listen_step emit (hb_server hb)))"
  using caller_alone [of hb i, OF assms(1,2)] listener_alone [OF _ assms(3)] by blast

section \<open>References keep clients\<close>

fun holds :: "hub_task \<Rightarrow> rstring multiset" where
  "holds (Sending i t) = {#i#}"
| "holds t = {#}"

definition guards_ok :: "('w, 'p, 'q) hub \<Rightarrow> hub_task list \<Rightarrow> bool" where
  "guards_ok hb ts \<longleftrightarrow> mset (hb_guards hb) = sum_list (map holds ts) \<and>
     set (hb_guards hb) \<subseteq> dom (sv_clients (hb_server hb))"

lemma socket_section_kept:
  "socket_section A i t hb = (t', hb') \<Longrightarrow> hb_guards hb' = hb_guards hb \<and>
    dom (sv_clients (hb_server hb')) = dom (sv_clients (hb_server hb))"
  by (auto simp: socket_section_def put_socket_def shared_socket_def Let_def split: option.split_asm prod.split_asm if_split_asm)

lemma on_socket_event_clients:
  "sv_clients (on_socket_event emit e sv) = (case e of SeClose i reason \<Rightarrow> (sv_clients sv)(i := None) | _ \<Rightarrow> sv_clients sv)"
  by (auto simp: on_socket_event_def split: socket_event.split)

lemma close_socket_clients:
  "sv_clients (snd (close_socket i sv)) = (sv_clients sv)(i := None)" "sv_queue (snd (close_socket i sv)) = sv_queue sv"
  by (auto simp: close_socket_def split: option.split)

text \<open>What a step does to the references, and to the clients they are to.\<close>

lemma hub_step_guards:
  assumes "holds t \<subseteq># mset (hb_guards hb)" and "hub_step room shard A emit t hb = (t', hb')"
  shows "mset (hb_guards hb') + holds t = mset (hb_guards hb) + holds t'"
  using assms
  by (cases t) (auto split: if_split_asm prod.split_asm list.split_asm socket_event.split_asm dest!: socket_section_kept)

lemma hub_step_clients:
  assumes "set (hb_guards hb) \<subseteq> dom (sv_clients (hb_server hb))" and "hub_step room shard A emit t hb = (t', hb')"
  shows "set (hb_guards hb') \<subseteq> dom (sv_clients (hb_server hb'))"
  using assms
  by (cases t)
    (auto simp: on_socket_event_clients close_socket_clients referred_def list_ex_iff domIff dest!: socket_section_kept set_remove1_subset [THEN subsetD]
      split: if_split_asm prod.split_asm list.split_asm socket_event.split_asm, (metis domD subsetD)+)

lemma guards_ok_turn:
  assumes "guards_ok hb ts" and "k < length ts"
  shows "guards_ok (snd (hub_step room shard A emit (ts ! k) hb)) (ts[k := fst (hub_step room shard A emit (ts ! k) hb)])"
proof -
  obtain t' hb' where step: "hub_step room shard A emit (ts ! k) hb = (t', hb')" by force
  note sum = sum_list_replace [OF assms(2), of holds t']
  obtain as t bs where "ts = as @ t # bs" "length as = k" using id_take_nth_drop [OF assms(2)] assms(2) by fastforce
  then have "holds (ts ! k) \<subseteq># sum_list (map holds ts)" by (simp add: nth_append)
  then have "mset (hb_guards hb') + holds (ts ! k) = mset (hb_guards hb) + holds t'"
    using hub_step_guards [OF _ step] assms(1) by (simp add: guards_ok_def)
  with sum assms(1) have "mset (hb_guards hb') = sum_list (map holds (ts[k := t']))"
    by (simp add: guards_ok_def) (metis add_right_cancel)
  with step hub_step_clients [OF _ step] assms(1) show ?thesis by (simp add: guards_ok_def)
qed

text \<open>
  C15: A client is not removed while a packet is being sent to it: in every order of the tasks, whatever they
  are, the references held are those of the calls that are under way, and each of them is to a client
  that is still in the table.
\<close>

theorem references_keep_clients:
  assumes "hb_guards hb = []" and "sum_list (map holds ts) = {#}"
    and "hub_turns room shard A emit order (hb, ts) = (hb', ts')"
  shows "mset (hb_guards hb') = sum_list (map holds ts') \<and>
    (\<forall>i t. Sending i t \<in> set ts' \<longrightarrow> sv_clients (hb_server hb') i \<noteq> None)"
proof -
  have ok: "guards_ok hb' ts'"
    by (rule take_turns_invariant [where P = guards_ok, OF guards_ok_turn _ assms(3)])
      (use assms(1,2) in \<open>simp_all add: guards_ok_def\<close>)
  have "i \<in> set (hb_guards hb')" if mem: "Sending i t \<in> set ts'" for i t
  proof -
    obtain as bs where "ts' = as @ Sending i t # bs" using split_list [OF mem] by blast
    then have "i \<in># sum_list (map holds ts')" by simp
    with ok show ?thesis by (simp add: guards_ok_def flip: set_mset_mset)
  qed
  with ok show ?thesis by (auto simp: guards_ok_def)
qed

section \<open>Deadlock\<close>

definition may_close :: "('w, 'p, 'q) hub \<Rightarrow> rstring \<Rightarrow> bool" where
  "may_close hb i \<longleftrightarrow> (case sv_clients (hb_server hb) i of
     Some s \<Rightarrow> idle_lock s \<and> sk_ready s \<noteq> RsClosed \<and> sk_id s = i
   | None \<Rightarrow> False)"

lemma run_closing:
  assumes "sv_clients (hb_server hb) i = Some s" and "idle_lock s" and "sk_ready s \<noteq> RsClosed"
    and "length (sv_queue (hb_server hb)) < room"
  shows "run_alone (hub_step room shard A emit) 5 (Method i (CloseReady reason), hb) =
    (HubDone, after_section i s (closed reason s) hb)"
  using assms
  by (simp add: numeral_eq_Suc waits_def section_idle task_next_def task_effect_def drop_transport_def after_section_def closed_def)

lemma replicate_same: "(replicate n x)[k := x] = replicate n x"
  by (induction n arbitrary: k) (auto split: nat.split)

lemma run_to_flush:
  assumes "sv_clients (hb_server hb) i = Some s" and "idle_lock s" and "may_send s"
    and "sk_transport s = Some w" and "is_writable A w"
  shows "run_alone (hub_step room shard A emit) 5 (Caller i p, hb) =
    (Sending i (FlushEvent False), after_section i s (queued p None s) (hb\<lparr>hb_guards := i # hb_guards hb\<rparr>))"
proof -
  have "sk_ready s \<noteq> RsClosed" using assms(3) by (auto simp: may_send_def)
  with assms show ?thesis
    by (simp add: numeral_eq_Suc waits_def section_idle after_section_same task_next_def task_effect_def)
qed

text \<open>Clients that close, one after the other, while nobody reads the channel.\<close>

lemma closes_fill:
  assumes "distinct js" and "list_all (may_close hb) js"
    and "length (sv_queue (hb_server hb)) + length js \<le> room"
  shows "\<exists>order hb'. hub_turns room shard A emit order (hb, ts @ map (\<lambda>j. Method j (CloseReady reason)) js) =
      (hb', ts @ replicate (length js) HubDone) \<and>
    length (sv_queue (hb_server hb')) = length (sv_queue (hb_server hb)) + length js \<and>
    hb_guards hb' = hb_guards hb \<and> (\<forall>i. i \<notin> set js \<longrightarrow> sv_clients (hb_server hb') i = sv_clients (hb_server hb) i)"
  using assms
proof (induction js arbitrary: hb ts)
  case Nil
  show ?case by (intro exI [of _ "[]"]) simp
next
  case (Cons j js)
  then obtain s where s: "sv_clients (hb_server hb) j = Some s" "idle_lock s" "sk_ready s \<noteq> RsClosed"
    by (auto simp: may_close_def split: option.splits)
  let ?hb = "after_section j s (closed reason s) hb" and ?ts = "ts @ [HubDone]"
  have first: "hub_turns room shard A emit (replicate 5 (length ts)) (hb, ts @ map (\<lambda>j. Method j (CloseReady reason)) (j # js)) =
      (?hb, ?ts @ map (\<lambda>j. Method j (CloseReady reason)) js)"
    using run_closing [OF s, of room shard A emit reason] Cons.prems(3) by (simp add: take_turns_alone nth_append)
  have "list_all (may_close ?hb) js" using Cons.prems(1,2) by (auto simp: list_all_iff may_close_def)
  moreover have "length (sv_queue (hb_server ?hb)) = Suc (length (sv_queue (hb_server hb)))"
    by (simp add: closed_def)
  ultimately obtain order hb' where
    "hub_turns room shard A emit order (?hb, ?ts @ map (\<lambda>j. Method j (CloseReady reason)) js) =
      (hb', ?ts @ replicate (length js) HubDone)"
    "length (sv_queue (hb_server hb')) = length (sv_queue (hb_server hb)) + length (j # js)"
    "hb_guards hb' = hb_guards hb" "\<forall>i. i \<notin> set js \<longrightarrow> sv_clients (hb_server hb') i = sv_clients (hb_server ?hb) i"
    using Cons.IH [of ?hb ?ts] Cons.prems(1,3) by auto
  with first show ?case
    by (intro exI [of _ "replicate 5 (length ts) @ order"] exI [of _ hb']) (simp add: replicate_app_Cons_same)
qed

text \<open>
  C13: The server can come to a standstill for ever. If as many clients as the channel has room for close
  at once, together with one that is just being sent a packet, then there is an order of the tasks in
  which the listener waits for the sender's reference into the table, and the sender waits for room in
  the channel, which only the listener makes: from then on no schedule changes anything, and none of
  the clients that have closed is ever removed.
\<close>

theorem hub_deadlock:
  assumes "sv_queue (hb_server hb) = []" and "hb_guards hb = []" and "0 < room"
    and "may_close hb i" and "sv_clients (hb_server hb) i = Some s" and "may_send s"
    and "sk_transport s = Some w" and "is_writable A w"
    and "distinct (i # js)" and "list_all (may_close hb) js" and "length js = room"
  shows "\<exists>order hb' ts'. hub_turns room shard A emit order
      (hb, [Listening, Caller i p, Method i (CloseReady reason)] @ map (\<lambda>j. Method j (CloseReady reason)) js) =
      (hb', [Removing i reason, Sending i (FlushEvent False), HubDone] @ replicate room HubDone) \<and>
    sv_clients (hb_server hb') i \<noteq> None \<and> length (sv_queue (hb_server hb')) = room \<and>
    (\<forall>order. hub_turns room shard A emit order
       (hb', [Removing i reason, Sending i (FlushEvent False), HubDone] @ replicate room HubDone) =
       (hb', [Removing i reason, Sending i (FlushEvent False), HubDone] @ replicate room HubDone))"
proof -
  let ?stop = "[Removing i reason, Sending i (FlushEvent False), HubDone]"
  let ?more = "map (\<lambda>j. Method j (CloseReady reason)) js"
  let ?s1 = "queued p None s" and ?turns = "hub_turns room shard A emit"
  have s: "idle_lock s" "sk_ready s \<noteq> RsClosed" "sk_id s = i" using assms(4,5) by (simp_all add: may_close_def)
  let ?hb1 = "after_section i s ?s1 (hb\<lparr>hb_guards := [i]\<rparr>)"
  have 1: "?turns (replicate 5 1) (hb, [Listening, Caller i p, Method i (CloseReady reason)] @ ?more) =
      (?hb1, [Listening, Sending i (FlushEvent False), Method i (CloseReady reason)] @ ?more)"
    using run_to_flush [OF assms(5) s(1) assms(6-8), of room shard emit p] assms(2) by (simp add: take_turns_alone)
  let ?hb2 = "after_section i ?s1 (closed reason ?s1) ?hb1"
  have 2: "?turns (replicate 5 2) (?hb1, [Listening, Sending i (FlushEvent False), Method i (CloseReady reason)] @ ?more) =
      (?hb2, [Listening, Sending i (FlushEvent False), HubDone] @ ?more)"
    using run_closing [of ?hb1 i ?s1 room shard A emit reason] s assms(1,3) by (simp add: take_turns_alone numeral_2_eq_2)
  have queue: "sv_queue (hb_server ?hb2) = [SeClose i reason]" using assms(1) s(3) by (simp add: closed_def)
  let ?hb3 = "?hb2\<lparr>hb_server := (hb_server ?hb2)\<lparr>sv_queue := []\<rparr>\<rparr>"
  have 3: "?turns [0] (?hb2, [Listening, Sending i (FlushEvent False), HubDone] @ ?more) = (?hb3, ?stop @ ?more)"
    using queue by (simp add: take_turn_def)
  have "list_all (may_close ?hb3) js" using assms(9,10) by (auto simp: list_all_iff may_close_def)
  then obtain order hb' where 4: "?turns order (?hb3, ?stop @ ?more) = (hb', ?stop @ replicate room HubDone)"
    "length (sv_queue (hb_server hb')) = room" "hb_guards hb' = [i]" "sv_clients (hb_server hb') i \<noteq> None"
    using closes_fill [of js ?hb3 room shard A emit ?stop reason] assms(9,11) by auto
  have "take_turn (hub_step room shard A emit) k (hb', ?stop @ replicate room HubDone) = (hb', ?stop @ replicate room HubDone)" for k
    using 4(2,3) replicate_same
    by (auto simp: take_turn_def waits_def referred_def nth_append nth_Cons split: nat.split)
  then have stuck: "?turns order2 (hb', ?stop @ replicate room HubDone) = (hb', ?stop @ replicate room HubDone)" for order2
    by (rule take_turns_stuck)
  have "?turns (replicate 5 1 @ replicate 5 2 @ [0] @ order)
      (hb, [Listening, Caller i p, Method i (CloseReady reason)] @ ?more) = (hb', ?stop @ replicate room HubDone)"
    unfolding take_turns_simps(3) 1 2 3 4(1) ..
  with stuck 4 show ?thesis by blast
qed


section \<open>Enough room\<close>

text \<open>
  The events that the calls and methods may still send, and the steps they still need. The listener is no
  call, and is never done.
\<close>

fun hub_events :: "hub_task \<Rightarrow> nat" where
  "hub_events (Caller i p) = 2"
| "hub_events (Sending i t) = events_left t"
| "hub_events (Method i t) = events_left t"
| "hub_events t = 0"

fun hub_steps_left :: "hub_task \<Rightarrow> nat" where
  "hub_steps_left (Caller i p) = 15"
| "hub_steps_left (Sending i t) = Suc (steps_left t)"
| "hub_steps_left (Method i t) = Suc (steps_left t)"
| "hub_steps_left t = 0"

lemma hub_steps_left_bound: "hub_steps_left t \<le> 15"
  using steps_left_bound le_SucI by (cases t) (fastforce intro: le_trans)+

definition all_idle :: "('w, 'p, 'q) hub \<Rightarrow> bool" where
  "all_idle hb \<longleftrightarrow> (\<forall>i s. sv_clients (hb_server hb) i = Some s \<or> hb_gone hb i = Some s \<longrightarrow> idle_lock s)"

definition roomy :: "nat \<Rightarrow> ('w, 'p, 'q) hub \<Rightarrow> hub_task list \<Rightarrow> bool" where
  "roomy room hb ts \<longleftrightarrow> all_idle hb \<and>
     length (sv_queue (hb_server hb)) + sum_list (map hub_events ts) \<le> room"

lemma all_idle_section: "all_idle hb \<Longrightarrow> all_idle (snd (socket_section A i t hb))"
  by (auto simp: all_idle_def socket_section_def put_socket_def shared_socket_def Let_def task_step_idle task_effect_idle split: option.splits if_splits)

lemma section_events:
  assumes "all_idle hb" and "socket_section A i t hb = (t', hb')"
  shows "length (sv_queue (hb_server hb')) + events_left t' \<le> length (sv_queue (hb_server hb)) + events_left t"
proof (cases "case sv_clients (hb_server hb) i of Some s \<Rightarrow> Some s | None \<Rightarrow> hb_gone hb i")
  case None
  with assms(2) show ?thesis by (auto simp: socket_section_def put_socket_def shared_socket_def)
next
  case (Some s)
  then have "idle_lock s" using assms(1) by (auto simp: all_idle_def split: option.splits)
  moreover obtain es where "sk_events (task_effect t s) = sk_events s @ es" using task_effect_events by blast
  ultimately show ?thesis
    using Some assms(2) events_left_step [of t s A] by (auto simp: socket_section_def put_socket_def shared_socket_def Let_def task_step_idle)
qed

lemma section_steps_left: "socket_section A i t hb = (t', hb') \<Longrightarrow> steps_left t' \<le> steps_left t - 1"
  using task_turns.ends [of A t] by (auto simp: socket_section_def put_socket_def shared_socket_def Let_def split: option.splits prod.splits if_splits) (metis fst_conv)+

lemma idle_event: "all_idle (hb\<lparr>hb_server := on_socket_event emit e ((hb_server hb)\<lparr>sv_queue := es\<rparr>)\<rparr>)" if "all_idle hb"
  using that by (auto simp: all_idle_def on_socket_event_clients split: socket_event.splits if_splits)

lemma idle_still_shared: "all_idle hb \<Longrightarrow> still_shared i hb j = Some s \<Longrightarrow> idle_lock s"
  by (auto simp: all_idle_def still_shared_def split: option.splits if_splits)

lemma hub_step_room:
  assumes "all_idle hb" and "hub_step room shard A emit t hb = (t', hb')"
  shows "all_idle hb'"
    and "length (sv_queue (hb_server hb')) + hub_events t' \<le> length (sv_queue (hb_server hb)) + hub_events t"
    and "length (sv_queue (hb_server hb)) + hub_events t \<le> room \<Longrightarrow> hub_steps_left t' \<le> hub_steps_left t - 1"
proof -
  have idle: "all_idle (hb\<lparr>hb_guards := gs\<rparr>)" for gs using assms(1) by (simp add: all_idle_def)
  show "all_idle hb'"
  proof (cases t)
    case Listening
    with assms(1) idle_event [OF assms(1), of emit] assms(2) show ?thesis
      by (auto simp: all_idle_def split: list.splits socket_event.splits)
  next
    case (Removing i reason)
    with assms idle_still_shared [OF assms(1)] show ?thesis
      by (auto simp: all_idle_def on_socket_event_clients split: if_splits)
  next
    case (Dropping i)
    with assms idle_still_shared [OF assms(1)] show ?thesis
      by (auto simp: all_idle_def close_socket_clients split: if_splits)
  qed (use assms idle all_idle_section [OF assms(1), of A] in \<open>auto split: if_splits prod.splits\<close>, (metis snd_conv)+)
  show "length (sv_queue (hb_server hb')) + hub_events t' \<le> length (sv_queue (hb_server hb)) + hub_events t"
    using assms(2) section_events [OF assms(1), of A]
    by (cases t) (auto simp: close_socket_clients split: if_splits prod.splits list.splits socket_event.splits)
  show "hub_steps_left t' \<le> hub_steps_left t - 1" if "length (sv_queue (hb_server hb)) + hub_events t \<le> room"
  proof -
    have "\<not> waits room u hb" if "length (sv_queue (hb_server hb)) + events_left u \<le> room" for u
      using that events_left_sends [of u] by (auto simp: waits_def)
    moreover have "steps_left u \<noteq> 0" if "u \<noteq> Finished" "u \<noteq> Stuck" for u using that by (cases u) simp_all
    ultimately show ?thesis
      using assms(2) that by (cases t)
        (fastforce split: if_splits prod.splits list.splits socket_event.splits dest!: section_steps_left)+
  qed
qed

interpretation hub_progress: progressing "hub_step room shard A emit" hub_steps_left "roomy room"
  for room shard and A :: "('w, 'p, 'h, 'b, 'r) adapter" and emit :: "server_event \<Rightarrow> 'q \<Rightarrow> 'q"
proof
  fix hb :: "('w, 'p, 'q) hub" and ts k assume I: "roomy room hb ts" and k: "k < length ts"
  obtain t' hb' where step: "hub_step room shard A emit (ts ! k) hb = (t', hb')" by force
  have sum: "sum_list (map hub_events (ts[k := t'])) + hub_events (ts ! k) = sum_list (map hub_events ts) + hub_events t'"
    using sum_list_replace [OF k, of hub_events t'] by blast
  note room = hub_step_room [OF _ step]
  from I have idle: "all_idle hb" by (simp add: roomy_def)
  show "roomy room (snd (hub_step room shard A emit (ts ! k) hb)) (ts[k := fst (hub_step room shard A emit (ts ! k) hb)])"
    using I room(1,2) [OF idle] sum by (simp add: step roomy_def)
  have "hub_events (ts ! k) \<le> sum_list (map hub_events ts)"
    using k by (auto intro!: member_le_sum_list)
  with I have "length (sv_queue (hb_server hb)) + hub_events (ts ! k) \<le> room" by (simp add: roomy_def)
  from room(3) [OF idle this] show "hub_steps_left (fst (hub_step room shard A emit (ts ! k) hb)) \<le> hub_steps_left (ts ! k) - 1"
    by (simp only: step fst_conv)
qed

text \<open>The tasks that send no events: the listener, and the calls that only remove a client.\<close>

fun table_task :: "hub_task \<Rightarrow> bool" where
  "table_task Listening = True"
| "table_task (Removing i reason) = True"
| "table_task (Dropping i) = True"
| "table_task t = False"

fun is_listener :: "hub_task \<Rightarrow> bool" where
  "is_listener Listening = True"
| "is_listener (Removing i reason) = True"
| "is_listener t = False"

lemma listener_stays: "is_listener t \<Longrightarrow> is_listener (fst (hub_step room shard A emit t hb))"
  by (cases t) (auto split: list.split socket_event.split)

text \<open>With no references in its way, the listener empties the channel.\<close>

lemma listening_empties:
  assumes "hb_guards hb = []" and "2 * length (sv_queue (hb_server hb)) \<le> n"
    and "run_alone (hub_step room shard A emit) n (Listening, hb) = (t', hb')"
  shows "sv_queue (hb_server hb') = [] \<and>
    sv_clients (hb_server hb') = (\<lambda>i. if closes i (sv_queue (hb_server hb)) then None else sv_clients (hb_server hb) i)"
  using assms
proof (induction "sv_queue (hb_server hb)" arbitrary: hb n)
  case Nil
  then have "run_alone (hub_step room shard A emit) n (Listening, hb) = (Listening, hb)" for n
    by (induction n) (simp_all flip: Nil.hyps)
  with Nil show ?case by simp
next
  case (Cons e es)
  let ?sv = "(hb_server hb)\<lparr>sv_queue := es\<rparr>"
  obtain m where n: "n = Suc (Suc m)" using Cons.hyps(2) [symmetric] Cons.prems(2) by (cases n; cases "n - 1") auto
  show ?case
  proof (cases "\<exists>j reason. e = SeClose j reason")
    case True
    then obtain j reason where e: "e = SeClose j reason" by blast
    have "hub_step room shard A emit Listening hb = (Removing j reason, hb\<lparr>hb_server := ?sv\<rparr>)"
      using Cons.hyps(2) [symmetric] e by simp
    moreover obtain hb1 where one: "hub_step room shard A emit (Removing j reason) (hb\<lparr>hb_server := ?sv\<rparr>) = (Listening, hb1)"
      "hb_server hb1 = on_socket_event emit e ?sv" "hb_guards hb1 = []"
      using Cons.prems(1) e by (simp add: referred_def)
    ultimately have "run_alone (hub_step room shard A emit) m (Listening, hb1) = (t', hb')"
      using Cons.prems(3) by (simp add: n)
    from Cons.hyps(1) [OF _ _ _ this] one Cons.prems Cons.hyps(2) [symmetric] n e show ?thesis
      by (auto simp: on_socket_event_clients fun_eq_iff)
  next
    case False
    let ?hb = "hb\<lparr>hb_server := on_socket_event emit e ?sv\<rparr>"
    have "hub_step room shard A emit Listening hb = (Listening, ?hb)"
      using Cons.hyps(2) [symmetric] False by (cases e) auto
    then have "run_alone (hub_step room shard A emit) (Suc m) (Listening, ?hb) = (t', hb')"
      using Cons.prems(3) by (simp only: n run_alone.simps(2))
    from Cons.hyps(1) [OF _ _ _ this] Cons.prems Cons.hyps(2) [symmetric] n False show ?thesis
      by (cases e) (auto simp: on_socket_event_clients fun_eq_iff)
  qed
qed

lemma listener_empties:
  assumes "hb_guards hb = []" and "2 * length (sv_queue (hb_server hb)) \<le> n" and "is_listener t"
    and "run_alone (hub_step room shard A emit) (Suc n) (t, hb) = (t', hb')"
  shows "sv_queue (hb_server hb') = [] \<and> (\<forall>i. closes i (sv_queue (hb_server hb)) \<longrightarrow> sv_clients (hb_server hb') i = None)"
proof (cases t)
  case (Removing i reason)
  then show ?thesis
    using assms listening_empties [of "snd (hub_step room shard A emit t hb)" n room shard A emit t' hb']
    by (simp add: referred_def)
qed (use assms listening_empties [OF assms(1), of "Suc n" room shard A emit t' hb'] in simp_all)

text \<open>
  C14: With enough room in the channel the server cannot come to a standstill: if it has room for all the
  events that the calls and methods under way may still send, two for a call of \<open>send_packet\<close>, then in
  every order that gives each fifteen turns all of them return, and all their references are given back.
  The listener then empties the channel and removes every client that has closed, in at most two turns
  for each event.
\<close>

theorem room_suffices:
  assumes "all_idle hb" and "guards_ok hb ts" and "length (sv_queue (hb_server hb)) + sum_list (map hub_events ts) \<le> room"
    and "\<And>j. j < length ts \<Longrightarrow> 15 \<le> count_list order j"
    and "hub_turns room shard A emit order (hb, ts) = (hb', ts')"
    and "k < length ts" and "is_listener (ts ! k)"
  shows "list_all (\<lambda>t. t = HubDone \<or> table_task t) ts' \<and> hb_guards hb' = [] \<and>
    (\<exists>hb'' ts''. hub_turns room shard A emit (replicate (Suc (2 * room)) k) (hb', ts') = (hb'', ts'') \<and>
       sv_queue (hb_server hb'') = [] \<and>
       (\<forall>i. closes i (sv_queue (hb_server hb')) \<longrightarrow> sv_clients (hb_server hb'') i = None))"
proof -
  have "roomy room hb ts" using assms(1,3) by (simp add: roomy_def)
  from hub_progress.fair_end [OF this assms(5) hub_steps_left_bound assms(4)]
  have ended: "list_all (\<lambda>t. hub_steps_left t = 0) ts'" and room: "length (sv_queue (hb_server hb')) \<le> room"
    and len: "length ts' = length ts"
    by (simp_all add: roomy_def)
  have ok: "guards_ok hb' ts'"
    by (rule take_turns_invariant [where P = guards_ok, OF guards_ok_turn assms(2,5)])
  have "t = HubDone \<or> table_task t" "holds t = {#}" if "hub_steps_left t = 0" for t using that by (cases t; simp)+
  then have finished: "list_all (\<lambda>t. t = HubDone \<or> table_task t) ts'" and "sum_list (map holds ts') = {#}"
    using ended by (induction ts') simp_all
  with ok have free: "hb_guards hb' = []" by (simp add: guards_ok_def)
  have "is_listener (ts' ! k)"
    by (rule take_turns_invariant [where P = "\<lambda>_ ts. is_listener (ts ! k)", OF _ assms(7,5)])
      (metis listener_stays nth_list_update_eq nth_list_update_neq)
  moreover obtain t'' hb'' where run: "run_alone (hub_step room shard A emit) (Suc (2 * room)) (ts' ! k, hb') = (t'', hb'')"
    by force
  ultimately have "sv_queue (hb_server hb'') = [] \<and>
      (\<forall>i. closes i (sv_queue (hb_server hb')) \<longrightarrow> sv_clients (hb_server hb'') i = None)"
    using listener_empties [OF free _ _ run] room by simp
  moreover have "hub_turns room shard A emit (replicate (Suc (2 * room)) k) (hb', ts') = (hb'', ts'[k := t''])"
    using run len assms(6) by (simp only: take_turns_alone prod.case)
  ultimately show ?thesis using finished free by blast
qed

section \<open>Witnesses\<close>

abbreviation client_ref :: "rstring \<Rightarrow> (unit, unit) socket" where
  "client_ref i \<equiv> open_ref\<lparr>sk_id := i\<rparr>"

abbreviation hub_ref :: "(unit, unit, nat) hub" where
  "hub_ref \<equiv> \<lparr>hb_server = (server_new server_options_default 0)
     \<lparr>sv_clients := [lit ''a'' \<mapsto> client_ref (lit ''a''), lit ''b'' \<mapsto> client_ref (lit ''b'')], sv_listening := True\<rparr>,
     hb_guards = [], hb_gone = Map.empty\<rparr>"

lemma client_ref: "idle_lock (client_ref i)" "may_send (client_ref i)" "sk_ready (client_ref i) \<noteq> RsClosed"
  "sk_transport (client_ref i) = Some (WebSocket ())" "is_writable adapter_ref (WebSocket ())"
  by (simp_all add: idle_lock_def may_send_def transport_create_def adapter_ref_def)

theorem hub_alone_witness:
  "run_alone (hub_step 64 length adapter_ref (\<lambda>_. Suc)) 15 (Caller (lit ''a'') noop_ref, hub_ref) =
    (HubDone, hub_ref\<lparr>hb_server := snd (server_send_packet adapter_ref (lit ''a'') noop_ref (hb_server hub_ref))\<rparr>)"
proof (rule hub_alone [THEN conjunct1])
  show "idle_lock s" if "sv_clients (hb_server hub_ref) (lit ''a'') = Some s" for s
    using that client_ref(1) by (auto split: if_splits)
qed (simp_all add: server_new_def)

theorem references_keep_clients_witness:
  "sv_clients (hb_server (fst (hub_turns 1 length adapter_ref (\<lambda>_. Suc) [0, 0]
     (hub_ref, [Caller (lit ''a'') noop_ref])))) (lit ''a'') \<noteq> None"
proof -
  let ?c = "hub_turns 1 length adapter_ref (\<lambda>_. Suc) [0, 0] (hub_ref, [Caller (lit ''a'') noop_ref])"
  have "snd ?c = [Sending (lit ''a'') (SendPush noop_ref None)]"
    using client_ref(1,2) [of "lit ''a''"]
    by (simp add: take_turn_def waits_def section_idle task_next_def lit_def)
  moreover obtain hb' ts' where run: "?c = (hb', ts')" by force
  ultimately show ?thesis
    using references_keep_clients [OF _ _ run] by simp
qed

theorem hub_deadlock_witness:
  "\<exists>order hb'. hub_turns 1 length adapter_ref (\<lambda>_. Suc) order
     (hub_ref, [Listening, Caller (lit ''a'') noop_ref, Method (lit ''a'') (CloseReady CrTransportClosed),
        Method (lit ''b'') (CloseReady CrTransportClosed)]) =
     (hb', [Removing (lit ''a'') CrTransportClosed, Sending (lit ''a'') (FlushEvent False), HubDone, HubDone]) \<and>
     sv_clients (hb_server hb') (lit ''a'') \<noteq> None"
  using hub_deadlock [of hub_ref 1 "lit ''a''" "client_ref (lit ''a'')" "WebSocket ()" adapter_ref "[lit ''b'']"
      length "\<lambda>_. Suc" noop_ref CrTransportClosed] client_ref
  by (auto simp: may_close_def server_new_def lit_def)

theorem room_suffices_witness:
  "hb_guards (fst (hub_turns 64 length adapter_ref (\<lambda>_. Suc) (replicate 15 1 @ replicate 15 0)
     (hub_ref, [Listening, Caller (lit ''a'') noop_ref]))) = []"
proof -
  let ?order = "replicate 15 1 @ replicate 15 (0::nat)" and ?ts = "[Listening, Caller (lit ''a'') noop_ref]"
  obtain hb' ts' where run: "hub_turns 64 length adapter_ref (\<lambda>_. Suc) ?order (hub_ref, ?ts) = (hb', ts')"
    by force
  have "all_idle hub_ref" using client_ref(1) by (auto simp: all_idle_def server_new_def split: if_splits)
  moreover have "guards_ok hub_ref ?ts" by (simp add: guards_ok_def)
  moreover have "15 \<le> count_list ?order k" if "k < length ?ts" for k
    using that by (cases k) (simp_all add: eval_nat_numeral)
  ultimately have "hb_guards hb' = []"
    using room_suffices [OF _ _ _ _ run, of 0] by (simp add: server_new_def)
  with run show ?thesis by simp
qed

end
