(* ===== verification/Engine_Refine.thy ===== *)
theory Engine_Refine
  imports Engine_Hub
begin

text \<open>
  What the tasks of a whole Engine.IO server do to one client is what tasks of its socket alone could do
  (\<open>Engine_Tasks\<close>), in some order: the table, the channel and the other clients only take turns away. So
  what holds for one socket holds for each client of the server.
\<close>

section \<open>The part of one client\<close>

fun part :: "rstring \<Rightarrow> hub_task \<Rightarrow> task" where
  "part i (Caller j p) = (if j = i then SendReady p None else Finished)"
| "part i (Sending j t) = (if j = i then t else Finished)"
| "part i (Method j t) = (if j = i then t else Finished)"
| "part i t = Finished"

text \<open>A call that finds no client is done at once; its part is a task that never gets a turn.\<close>

definition parts_of :: "rstring \<Rightarrow> hub_task list \<Rightarrow> task list \<Rightarrow> bool" where
  "parts_of i ts us \<longleftrightarrow> list_all2 (\<lambda>t u. t = HubDone \<or> u = part i t) ts us"

lemma parts_of_map: "parts_of i ts (map (part i) ts)"
  by (simp add: parts_of_def list_all2_conv_all_nth)

lemma parts_of_update:
  assumes "parts_of i ts us" and "t = HubDone \<or> u = part i t"
  shows "parts_of i (ts[k := t]) (us[k := u])"
  using assms unfolding parts_of_def by (rule list_all2_update_cong)

lemma parts_of_same:
  assumes "parts_of i ts us" and "k < length ts" and "t = HubDone \<or> ts ! k \<noteq> HubDone \<and> part i t = part i (ts ! k)"
  shows "parts_of i (ts[k := t]) us"
proof -
  have "ts ! k = HubDone \<or> us ! k = part i (ts ! k)"
    using assms(1,2) by (simp add: parts_of_def list_all2_conv_all_nth)
  with parts_of_update [OF assms(1), of t "us ! k" k] assms(3) show ?thesis by auto
qed

lemma section_shared:
  "i \<noteq> j \<Longrightarrow> shared_socket (snd (socket_section A j t hb)) i = shared_socket hb i"
  "shared_socket hb i = Some s \<Longrightarrow> fst (socket_section A i t hb) = fst (task_step A t s)"
  "shared_socket hb i = Some s \<Longrightarrow> shared_socket (snd (socket_section A i t hb)) i = Some (snd (task_step A t s))"
  by (auto simp: socket_section_def put_socket_def shared_socket_def Let_def split: option.split prod.split)

lemma removing_shared:
  "shared_socket (hb\<lparr>hb_server := on_socket_event emit e sv, hb_gone := still_shared i hb\<rparr>) j = shared_socket hb j"
  if "sv_clients sv = sv_clients (hb_server hb)" "\<And>j r. e = SeClose j r \<Longrightarrow> j = i"
  using that by (auto simp: shared_socket_def still_shared_def on_socket_event_clients split: option.split socket_event.split)


lemma shared_updates [simp]:
  "shared_socket (hb\<lparr>hb_guards := gs\<rparr>) i = shared_socket hb i"
  "shared_socket (hb\<lparr>hb_server := (hb_server hb)\<lparr>sv_queue := es\<rparr>\<rparr>) i = shared_socket hb i"
  by (simp_all add: shared_socket_def split: option.split)

lemma dropping_shared:
  "shared_socket (hb\<lparr>hb_server := snd (close_socket i (hb_server hb)), hb_gone := still_shared i hb\<rparr>) j = shared_socket hb j"
  by (auto simp: shared_socket_def still_shared_def close_socket_clients split: option.split)

lemma event_shared:
  "\<forall>j reason. e \<noteq> SeClose j reason \<Longrightarrow>
   shared_socket (hb\<lparr>hb_server := on_socket_event emit e ((hb_server hb)\<lparr>sv_queue := es\<rparr>)\<rparr>) i = shared_socket hb i"
  by (auto simp: shared_socket_def on_socket_event_clients split: socket_event.split option.split)

text \<open>A turn of the server is a turn of one task of the client's socket, or none.\<close>

lemma hub_step_part:
  assumes "hub_step room shard A emit t hb = (t', hb')" and "shared_socket hb i = Some s"
  shows "shared_socket hb' i = Some s \<and> (t' = HubDone \<or> t \<noteq> HubDone \<and> part i t' = part i t) \<or>
    t \<noteq> HubDone \<and> shared_socket hb' i = Some (snd (task_step A (part i t) s)) \<and> part i t' = fst (task_step A (part i t) s)"
proof (cases t)
  case (Sending j u)
  with assms section_shared(1) [of i j A u hb] section_shared(2,3) [OF assms(2), of A u] show ?thesis
    by (cases "j = i") (auto split: if_split_asm prod.split_asm)
next
  case (Method j u)
  with assms section_shared(1) [of i j A u hb] section_shared(2,3) [OF assms(2), of A u] show ?thesis
    by (cases "j = i") (auto split: if_split_asm prod.split_asm)
next
  case Listening
  with assms event_shared [where hb = hb and emit = emit and i = i] show ?thesis
    by (auto split: list.split_asm socket_event.split_asm)
next
  case (Removing j reason)
  with assms removing_shared [where hb = hb and sv = "hb_server hb" and e = "SeClose j reason" and i = j and emit = emit and j = i] show ?thesis
    by (auto split: if_split_asm)
qed (use assms in \<open>auto simp: dropping_shared split: if_split_asm\<close>)

lemma server_part:
  assumes "hub_turns room shard A emit order (hb, ts) = (hb', ts')" and "shared_socket hb i = Some s"
    and "parts_of i ts us"
  shows "\<exists>turns s' us'. interleaved A turns (s, us) = (s', us') \<and> shared_socket hb' i = Some s' \<and> parts_of i ts' us'"
  using assms
proof (induction order arbitrary: hb ts s us)
  case Nil
  then show ?case by (intro exI [of _ "[]"]) simp
next
  case (Cons k order)
  show ?case
  proof (cases "k < length ts")
    case False
    with Cons show ?thesis by (simp add: take_turn_def)
  next
    case True
    obtain t1 hb1 where step: "hub_step room shard A emit (ts ! k) hb = (t1, hb1)" by force
    with True Cons.prems(1) have rest: "hub_turns room shard A emit order (hb1, ts[k := t1]) = (hb', ts')"
      by (simp add: take_turn_def)
    have len: "k < length us" and u: "ts ! k = HubDone \<or> us ! k = part i (ts ! k)"
      using True Cons.prems(3) by (auto simp: parts_of_def list_all2_conv_all_nth)
    from hub_step_part [OF step Cons.prems(2)] show ?thesis
    proof
      assume "shared_socket hb1 i = Some s \<and> (t1 = HubDone \<or> ts ! k \<noteq> HubDone \<and> part i t1 = part i (ts ! k))"
      with Cons.IH [OF rest _ parts_of_same [OF Cons.prems(3) True]] show ?thesis by blast
    next
      assume new: "ts ! k \<noteq> HubDone \<and> shared_socket hb1 i = Some (snd (task_step A (part i (ts ! k)) s)) \<and>
        part i t1 = fst (task_step A (part i (ts ! k)) s)"
      let ?u = "fst (task_step A (us ! k) s)" and ?s = "snd (task_step A (us ! k) s)"
      have "parts_of i (ts[k := t1]) (us[k := ?u])"
        using parts_of_update [OF Cons.prems(3)] new u by metis
      moreover have "shared_socket hb1 i = Some ?s" using new u by simp
      ultimately obtain turns s' us' where
        "interleaved A turns (?s, us[k := ?u]) = (s', us')" "shared_socket hb' i = Some s'" "parts_of i ts' us'"
        using Cons.IH [OF rest] by blast
      then show ?thesis
        using len by (intro exI [of _ "k # turns"]) (auto simp: turn_def take_turn_def split: prod.split)
    qed
  qed
qed

text \<open>
  C16: The server is made of its clients. Every run of the tasks of a server does to each client what a run
  of the tasks of its socket alone does, in some order of their turns; so, whatever the other clients do,
  the packets a client has been given are among those sent to it, none is doubled, and the same is true
  of the callbacks.
\<close>

theorem server_refines_sockets:
  assumes "hub_turns room shard A emit order (hb, ts) = (hb', ts')" and "shared_socket hb i = Some s"
  shows "\<exists>turns s' us. interleaved A turns (s, map (part i) ts) = (s', us) \<and>
    shared_socket hb' i = Some s' \<and> parts_of i ts' us \<and>
    (idle_lock s \<longrightarrow>
       mset (accepted s') + sum_list (map held us) \<subseteq># mset (accepted s) + sum_list (map (held \<circ> part i) ts) \<and>
       mset (callbacks s') + sum_list (map held_callbacks us) \<subseteq>#
         mset (callbacks s) + sum_list (map (held_callbacks \<circ> part i) ts))"
proof -
  obtain turns s' us where run: "interleaved A turns (s, map (part i) ts) = (s', us)" and
    part: "shared_socket hb' i = Some s'" "parts_of i ts' us"
    using server_part [OF assms parts_of_map] by blast
  with nothing_doubled [OF _ run] show ?thesis by (auto simp: all_packets_def all_callbacks_def)
qed

section \<open>Witnesses\<close>

theorem server_refines_sockets_witness:
  "\<exists>s'. shared_socket (fst (hub_turns 1 length adapter_ref (\<lambda>_. Suc) [0, 1, 0, 1, 0, 1, 0]
       (hub_ref, [Caller (lit ''a'') noop_ref, Caller (lit ''b'') noop_ref]))) (lit ''a'') = Some s' \<and>
     mset (accepted s') \<subseteq># {#noop_ref#}"
proof -
  let ?ts = "[Caller (lit ''a'') noop_ref, Caller (lit ''b'') noop_ref]"
  obtain hb' ts' where run: "hub_turns 1 length adapter_ref (\<lambda>_. Suc) [0, 1, 0, 1, 0, 1, 0] (hub_ref, ?ts) = (hb', ts')"
    by force
  have start: "shared_socket hub_ref (lit ''a'') = Some (client_ref (lit ''a''))"
    by (simp add: shared_socket_def lit_def)
  have fresh: "accepted (client_ref i) = []" for i by (simp add: accepted_def)
  have other: "lit ''b'' \<noteq> lit ''a''" by (simp add: lit_def)
  from server_refines_sockets [OF run start] client_ref(1)
  obtain s' us where "shared_socket hb' (lit ''a'') = Some s'"
    "mset (accepted s') + sum_list (map held us) \<subseteq># {#noop_ref#}"
    by (auto simp: fresh other)
  with run show ?thesis by (auto dest: subset_mset.order_trans [OF mset_subset_eq_add_left])
qed

end
