(* ===== verification/Engine_Requests.thy ===== *)
theory Engine_Requests
  imports Engine_Hub
begin

text \<open>
  The HTTP requests of an Engine.IO server as tasks (\<open>Server::handle_request\<close>, \<open>handshake\<close> and
  \<open>Socket::handle_polling_request\<close>), next to the other tasks of the server (\<open>Engine_Hub\<close>): a request is
  checked, finds its client and polls its transport in separate steps, and between them the client may
  be closed and removed. Asking the transport of an adapter is one step.
\<close>

section \<open>Tasks\<close>

text \<open>
  \<open>RqVerify\<close> is the begin of \<open>handle_request\<close>, with the id a new client would get, \<open>RqFetch\<close> stands before
  \<open>get_client_or_error\<close>, \<open>RqPoll\<close> is \<open>handle_polling_request\<close> and \<open>RqFlush\<close> its flush, \<open>RqInsert\<close> a handshake
  that adds its client to the table and \<open>RqOpen\<close> the same that opens the client, which panics.
\<close>

datatype ('b, 'r) request_task =
    RqHub hub_task
  | RqVerify rstring request_context "'b option"
  | RqFetch rstring request_context "'b option"
  | RqPoll rstring request_context "'b option"
  | RqFlush rstring task
  | RqInsert rstring request_context
  | RqOpen rstring
  | RqReply "(server_error, 'r) outcome"

text \<open>A section of a method of a client that is held by the task, whether it is still in the table or not.\<close>

definition shared_section :: "rstring \<Rightarrow> ('w, 'p, 'x) sprog \<Rightarrow> ('w, 'p, 'q) hub \<Rightarrow>
    (server_error, 'x) outcome \<times> ('w, 'p, 'q) hub" where
  "shared_section i m hb =
     (case shared_socket hb i of
        None \<Rightarrow> (Panic, hb)
      | Some s \<Rightarrow> (case m s of (r, s') \<Rightarrow> (r, put_socket i s s' hb)))"

text \<open>\<open>handle_polling_request\<close> up to the reply of the transport.\<close>

definition poll_section :: "('w, 'p, 'h, 'b, 'r) adapter \<Rightarrow> request_context \<Rightarrow> 'b option \<Rightarrow>
    ('w, 'p, 'r request_reply) sprog" where
  "poll_section A rc body =
     andthen get_transport_or_fail (\<lambda>transport.
     andthen (lift (as_polling_or_fail transport)) (\<lambda>polling.
     let (result, polling) = polling_handle_request A rc body polling in
     andthen (modify (\<lambda>s. s\<lparr>sk_transport := Some (Polling polling)\<rparr>)) (\<lambda>_. lift result)))"

definition new_client :: "('w, 'p, 'h, 'b, 'r) adapter \<Rightarrow> rstring \<Rightarrow> request_context \<Rightarrow>
    ('w, 'p, 'q) server \<Rightarrow> ('w, 'p) socket" where
  "new_client A sid rc sv =
     (let supports_binary = rc_query rc (lit ''b64'') = None;
          jsonp = \<not> supports_binary \<and> rc_query rc (lit ''j'') = None;
          rc = with_set_cookie rc (from_cookie_options (so_cookie (sv_options sv)) sid)
      in socket_new A sid rc (CreatePolling jsonp))"

definition poll_reply :: "rstring \<Rightarrow> (server_error, 'r request_reply) outcome \<Rightarrow> ('b, 'r) request_task" where
  "poll_reply i r =
     (case r of
        Ok (Response response) \<Rightarrow> RqReply (Ok response)
      | Ok (Action event) \<Rightarrow> (case event of EvDrain \<Rightarrow> RqFlush i (FlushCheck False) | _ \<Rightarrow> RqReply (Err UnknownError))
      | Err e \<Rightarrow> RqReply (Err e)
      | Panic \<Rightarrow> RqReply Panic)"

fun request_step :: "nat \<Rightarrow> (rstring \<Rightarrow> nat) \<Rightarrow> ('w, 'p, 'h, 'b, 'r) adapter \<Rightarrow>
    (rstring \<Rightarrow> rstring list \<Rightarrow> 32 word \<Rightarrow> 32 word \<Rightarrow> rstring) \<Rightarrow> (server_event \<Rightarrow> 'q \<Rightarrow> 'q) \<Rightarrow>
    ('b, 'r) request_task \<Rightarrow> ('w, 'p, 'q) hub \<Rightarrow> ('b, 'r) request_task \<times> ('w, 'p, 'q) hub" where
  "request_step room shard A open_json emit (RqHub t) hb =
     (case hub_step room shard A emit t hb of (t, hb) \<Rightarrow> (RqHub t, hb))"
| "request_step room shard A open_json emit (RqVerify new_sid rc body) hb =
     (let sid = rc_query rc (lit ''sid'')
      in case verify_request sid False (rc_transport_kind rc) (rc_http_method rc) (hb_server hb) of
           (Ok _, sv) \<Rightarrow> (case sid of Some sid \<Rightarrow> RqFetch sid rc body | None \<Rightarrow> RqInsert new_sid rc, hb\<lparr>hb_server := sv\<rparr>)
         | (Err e, sv) \<Rightarrow> (RqReply (Err e), hb\<lparr>hb_server := sv\<rparr>)
         | (Panic, sv) \<Rightarrow> (RqReply Panic, hb\<lparr>hb_server := sv\<rparr>))"
| "request_step room shard A open_json emit (RqFetch sid rc body) hb =
     (if sv_clients (hb_server hb) sid = None then (RqReply (Err UnknownSid), hb) else (RqPoll sid rc body, hb))"
| "request_step room shard A open_json emit (RqPoll sid rc body) hb =
     (case shared_section sid (poll_section A rc body) hb of (r, hb) \<Rightarrow> (poll_reply sid r, hb))"
| "request_step room shard A open_json emit (RqFlush sid t) hb =
     (if t = Finished then (RqReply (Err BadRequest), hb)
      else if t = Stuck then (RqReply Panic, hb)
      else if waits room t hb then (RqFlush sid t, hb)
      else case socket_section A sid t hb of (t, hb) \<Rightarrow> (RqFlush sid t, hb))"
| "request_step room shard A open_json emit (RqInsert sid rc) hb =
     (if referred shard sid hb then (RqInsert sid rc, hb)
      else (RqOpen sid, hb\<lparr>hb_server := (hb_server hb)
              \<lparr>sv_clients := (sv_clients (hb_server hb))(sid \<mapsto> new_client A sid rc (hb_server hb))\<rparr>\<rparr>))"
| "request_step room shard A open_json emit (RqOpen sid) hb =
     (case shared_section sid (socket_open A open_json (sv_options (hb_server hb))) hb of
        (r, hb) \<Rightarrow> (RqReply Panic, hb))"
| "request_step room shard A open_json emit (RqReply r) hb = (RqReply r, hb)"

text \<open>Opening a client never returns, so what a handshake does afterwards is not reached.\<close>

lemma socket_open_never_returns: "fst (socket_open A open_json options s) = Panic"
  by (cases "sk_lock s") (simp_all add: socket_open_def send_open_packet_def get_available_upgrades_def with_write_def prog_defs)


section \<open>A request alone\<close>

interpretation flushing: carrying "request_step room shard A open_json emit" "RqFlush i" "RqReply (Err BadRequest)"
    "\<lambda>hb. hb" room A i
  for room shard and A :: "('w, 'p, 'h, 'b, 'r) adapter" and open_json and emit :: "server_event \<Rightarrow> 'q \<Rightarrow> 'q" and i
  by unfold_locales simp_all

lemma run_reply [simp]:
  "run_alone (request_step room shard A open_json emit) n (RqReply r, hb) = (RqReply r, hb)"
  by (induction n) simp_all

lemma run_request_Suc:
  "request_step room shard A open_json emit t hb = (t', hb') \<Longrightarrow>
   run_alone (request_step room shard A open_json emit) (Suc n) (t, hb) =
   run_alone (request_step room shard A open_json emit) n (t', hb')"
  by simp

lemma poll_section_free:
  assumes "sk_lock s = LkFree"
  shows "poll_section A rc body s =
    (case sk_transport s of
       None \<Rightarrow> (Err UnknownError, s)
     | Some (WebSocket _) \<Rightarrow> (Err BadRequest, s)
     | Some (Polling polling) \<Rightarrow>
         (case polling_handle_request A rc body polling of
            (r, polling) \<Rightarrow> (r, s\<lparr>sk_transport := Some (Polling polling)\<rparr>)))"
  using assms
  by (auto simp: poll_section_def get_transport_free Let_def split: option.splits transport.splits prod.splits)

lemma flush_task: "idle_lock s \<Longrightarrow> snd (run_task 11 A (FlushCheck False, s)) = after_flush A s"
  using run_task_flush [of s A 1 False] run_task_no_flush(1) [of s A]
  by (cases "flushable A s") (simp_all add: after_flush_def flush_end_def eval_nat_numeral)

lemma handshake_polling:
  "handshake A open_json emit sid rc HsPolling sv =
    (Panic, sv\<lparr>sv_clients := (sv_clients sv)(sid \<mapsto> (new_client A sid rc sv)\<lparr>sk_ready := RsOpen\<rparr>)\<rparr>)"
  by (simp add: handshake_def Let_def run_client_def socket_open_free new_client_def)

lemma shared_section_known:
  "sv_clients (hb_server hb) i = Some s \<Longrightarrow> m s = (r, s') \<Longrightarrow> shared_section i m hb = (r, after_section i s s' hb)"
  by (simp add: shared_section_def shared_socket_def put_socket_def after_section_def Let_def)

lemma run_handshake:
  assumes "hb_guards hb = []"
  shows "run_alone (request_step room shard A open_json emit) (Suc (Suc n)) (RqInsert sid rc, hb) =
    (RqReply Panic, hb\<lparr>hb_server := snd (handshake A open_json emit sid rc HsPolling (hb_server hb))\<rparr>)"
proof -
  let ?s = "new_client A sid rc (hb_server hb)"
  let ?hb = "hb\<lparr>hb_server := (hb_server hb)\<lparr>sv_clients := (sv_clients (hb_server hb))(sid \<mapsto> ?s)\<rparr>\<rparr>"
  have "socket_open A open_json (sv_options (hb_server ?hb)) ?s = (Panic, ?s\<lparr>sk_ready := RsOpen\<rparr>)"
    by (simp add: socket_open_free new_client_def Let_def)
  then have "shared_section sid (socket_open A open_json (sv_options (hb_server ?hb))) ?hb =
      (Panic, after_section sid ?s (?s\<lparr>sk_ready := RsOpen\<rparr>) ?hb)"
    by (intro shared_section_known) simp_all
  then show ?thesis
    using assms by (simp add: referred_def handshake_polling after_section_def)
qed

lemma run_poll:
  assumes "sv_clients (hb_server hb) i = Some s" and "idle_lock s" and "length (sv_queue (hb_server hb)) + 2 \<le> room"
  shows "run_alone (request_step room shard A open_json emit) 13 (RqPoll i rc body, hb) =
    (RqReply (fst (handle_polling_request A rc body s)), after_section i s (snd (handle_polling_request A rc body s)) hb)"
proof -
  have free: "sk_lock s = LkFree" "\<And>d. sk_ready s \<noteq> RsClosing d" using assms(2) by (auto simp: idle_lock_def)
  obtain r s1 where poll: "poll_section A rc body s = (r, s1)" by force
  then have s1: "idle_lock s1" "sk_events s1 = sk_events s"
    using assms(2) by (auto simp: poll_section_free [OF free(1)] split: option.splits transport.splits prod.splits)
  have "run_alone (request_step room shard A open_json emit) (Suc 12) (RqPoll i rc body, hb) =
      run_alone (request_step room shard A open_json emit) 12 (poll_reply i r, after_section i s s1 hb)"
    by (rule run_request_Suc) (simp add: shared_section_known [of hb i s "poll_section A rc body", OF assms(1) poll])
  moreover have "run_alone (request_step room shard A open_json emit) (Suc 11) (RqFlush i (FlushCheck False), after_section i s s1 hb) =
      (RqReply (Err BadRequest), after_section i s1 (snd (run_task 11 A (FlushCheck False, s1))) (after_section i s s1 hb))"
    using s1 assms(3) by (intro flushing.run_carried) simp_all
  moreover have "after_section i s1 (after_flush A s1) (after_section i s s1 hb) = after_section i s (after_flush A s1) hb"
    using s1(2) by (intro after_section_trans [of s1 s "[]" _ "drop (length (sk_events s1)) (sk_events (after_flush A s1))"])
      (simp_all add: after_flush_def flushed_def)
  ultimately show ?thesis
    using poll free
    by (auto simp: flush_task [OF s1(1)] poll_reply_def poll_section_free handle_polling_free Let_def
        split: option.splits transport.splits prod.splits outcome.splits request_reply.splits transport_event.splits)
qed

lemma verify_idle:
  assumes "\<And>i s. sv_clients sv i = Some s \<Longrightarrow> idle_lock s"
  obtains r where "verify_request sid False kind http_method sv = (r, sv)"
    and "\<And>i. r = Ok () \<Longrightarrow> sid = Some i \<Longrightarrow> \<exists>s. sv_clients sv i = Some s"
proof
  obtain r where verify: "verify_request sid False kind http_method sv = (r, sv)"
    using verify_request_table [of sid sv False kind http_method] assms by (force simp: idle_lock_def)
  then show "verify_request sid False kind http_method sv = (fst (verify_request sid False kind http_method sv), sv)"
    by simp
  show "\<exists>s. sv_clients sv i = Some s" if "fst (verify_request sid False kind http_method sv) = Ok ()" "sid = Some i" for i
    using that by (auto simp: verify_request_def andthen_def split: option.splits)
qed

text \<open>
  The two models of the server agree: a request that is not interrupted does what \<open>Server::handle_request\<close> does in one go, in every case: it
  is refused, answered by the transport, or starts a handshake; with the same reply, and the same effect
  on the clients and the channel.
\<close>

theorem request_alone:
  assumes "\<And>i s. sv_clients (hb_server hb) i = Some s \<Longrightarrow> idle_lock s"
    and "hb_guards hb = []" and "length (sv_queue (hb_server hb)) + 2 \<le> room"
  shows "run_alone (request_step room shard A open_json emit) 15 (RqVerify new_sid rc body, hb) =
    (case handle_request A open_json emit new_sid rc body (hb_server hb) of
       (r, sv) \<Rightarrow> (RqReply r, hb\<lparr>hb_server := sv\<rparr>))"
proof -
  let ?sid = "rc_query rc (lit ''sid'')" and ?sv = "hb_server hb"
  let ?step = "request_step room shard A open_json emit"
  have n: "run_alone ?step 15 c = run_alone ?step (Suc (Suc 13)) c"
    "run_alone ?step 15 c = run_alone ?step (Suc (Suc (Suc 12))) c" for c by simp_all
  obtain r where verify: "verify_request ?sid False (rc_transport_kind rc) (rc_http_method rc) ?sv = (r, ?sv)"
    and listed: "\<And>i. r = Ok () \<Longrightarrow> ?sid = Some i \<Longrightarrow> \<exists>s. sv_clients ?sv i = Some s"
    by (rule verify_idle [of ?sv ?sid "rc_transport_kind rc" "rc_http_method rc"]) (use assms(1) in blast)+
  note request = handle_request_def Let_def andthen_def
  consider (refused) "r \<noteq> Ok ()" | (new) "r = Ok ()" "?sid = None"
    | (known) i s where "r = Ok ()" "?sid = Some i" "sv_clients ?sv i = Some s"
    using listed by (cases ?sid) blast+
  then show ?thesis
  proof cases
    case refused
    then have "?step (RqVerify new_sid rc body) hb = (RqReply (case r of Err e \<Rightarrow> Err e | _ \<Rightarrow> Panic), hb)"
      using verify by (cases r) simp_all
    then have "run_alone ?step 15 (RqVerify new_sid rc body, hb) = (RqReply (case r of Err e \<Rightarrow> Err e | _ \<Rightarrow> Panic), hb)"
      unfolding n(1) by (simp only: run_request_Suc run_reply)
    with verify refused show ?thesis by (cases r) (simp_all add: request)
  next
    case new
    then have "?step (RqVerify new_sid rc body) hb = (RqInsert new_sid rc, hb)" using verify by simp
    then have "run_alone ?step 15 (RqVerify new_sid rc body, hb) =
        (RqReply Panic, hb\<lparr>hb_server := snd (handshake A open_json emit new_sid rc HsPolling ?sv)\<rparr>)"
      unfolding n(2) by (simp only: run_request_Suc run_handshake [OF assms(2)])
    with verify new show ?thesis by (simp add: request handshake_polling)
  next
    case (known i s)
    then have "?step (RqVerify new_sid rc body) hb = (RqFetch i rc body, hb)"
      "?step (RqFetch i rc body) hb = (RqPoll i rc body, hb)" using verify by simp_all
    then have "run_alone ?step 15 (RqVerify new_sid rc body, hb) = (RqReply (fst (handle_polling_request A rc body s)),
        after_section i s (snd (handle_polling_request A rc body s)) hb)"
      unfolding n(1) by (simp only: run_request_Suc run_poll [OF known(3) assms(1) [OF known(3)] assms(3)])
    with verify known show ?thesis
      by (simp add: request get_client_or_error_def run_client_def after_section_def split: prod.split outcome.split)
  qed
qed

section \<open>Requests and closes\<close>

lemma run_hub:
  "run_alone (request_step room shard A open_json emit) n (RqHub t, hb) =
    (case run_alone (hub_step room shard A emit) n (t, hb) of (t, hb) \<Rightarrow> (RqHub t, hb))"
  by (induction n arbitrary: t hb) (simp_all split: prod.split)

text \<open>A client that closes is removed by the listener, and is then kept by its tasks only.\<close>

lemma close_and_remove:
  assumes "sv_queue (hb_server hb) = []" and "hb_guards hb = []" and "0 < room" and "may_close hb i"
    and "sv_clients (hb_server hb) i = Some s"
  shows "\<exists>hb'. take_turns (request_step room shard A open_json emit) (replicate 5 1 @ replicate 2 2)
      (hb, [t, RqHub (Method i (CloseReady reason)), RqHub Listening]) = (hb', [t, RqHub HubDone, RqHub Listening]) \<and>
    sv_clients (hb_server hb') i = None \<and> shared_socket hb' i = Some (closed reason s)"
proof -
  have s: "idle_lock s" "sk_ready s \<noteq> RsClosed" "sk_id s = i" using assms(4,5) by (simp_all add: may_close_def)
  let ?hb = "after_section i s (closed reason s) hb"
  have 1: "take_turns (request_step room shard A open_json emit) (replicate 5 1)
      (hb, [t, RqHub (Method i (CloseReady reason)), RqHub Listening]) = (?hb, [t, RqHub HubDone, RqHub Listening])"
    using run_closing [OF assms(5) s(1,2), of room shard A emit reason] assms(1,3) by (simp add: take_turns_alone run_hub)
  have "sv_queue (hb_server ?hb) = [SeClose i reason]" using assms(1) s(3) by (simp add: closed_def)
  then obtain hb' where "run_alone (hub_step room shard A emit) 2 (Listening, ?hb) = (Listening, hb')"
    "sv_clients (hb_server hb') i = None" "shared_socket hb' i = Some (closed reason s)"
    using assms(2) by (simp add: numeral_2_eq_2 referred_def on_socket_event_clients shared_socket_def still_shared_def)
  then show ?thesis
    unfolding take_turns_simps(3) 1 by (simp add: take_turns_alone run_hub)
qed

lemma poll_closed:
  assumes "shared_socket hb i = Some (closed reason s)" and "sk_lock s = LkFree" and "sv_clients (hb_server hb) i = None"
  shows "\<exists>hb'. request_step room shard A open_json emit (RqPoll i rc body) hb = (RqReply (Err UnknownError), hb') \<and>
    sv_clients (hb_server hb') i = None"
  using assms
  by (simp add: shared_section_def poll_section_free closed_def poll_reply_def put_socket_def Let_def)

text \<open>
  C17: A request whose client closes meanwhile may be refused although it has been checked and accepted:
  if the client is removed before the request looks it up again, it is answered that the session is
  unknown, and if it is removed after that, that the error is unknown.
\<close>

theorem requests_meet_closes:
  fixes A :: "('w, 'p, 'h, 'b, 'r) adapter" and body :: "'b option"
  assumes "sv_queue (hb_server hb) = []" and "hb_guards hb = []" and "0 < room" and "may_close hb i"
    and "sv_clients (hb_server hb) i = Some s" and "rc_query rc (lit ''sid'') = Some i"
    and "map_option transport_get_kind (sk_transport s) = Some (rc_transport_kind rc)"
  shows "fst (verify_request (rc_query rc (lit ''sid'')) False (rc_transport_kind rc) (rc_http_method rc) (hb_server hb)) = Ok () \<and>
    (\<forall>e \<in> {UnknownSid, UnknownError}. \<exists>order hb'. take_turns (request_step room shard A open_json emit) order
       (hb, [RqVerify new_sid rc body, RqHub (Method i (CloseReady reason)), RqHub Listening]) =
       (hb', [RqReply (Err e), RqHub HubDone, RqHub Listening]) \<and> sv_clients (hb_server hb') i = None)"
proof -
  let ?step = "request_step room shard A open_json emit"
  let ?others = "[RqHub (Method i (CloseReady reason)), RqHub Listening]"
  have free: "\<And>j s. rc_query rc (lit ''sid'') = Some j \<Longrightarrow> sv_clients (hb_server hb) j = Some s \<Longrightarrow> sk_lock s = LkFree"
    using assms(4-6) by (auto simp: may_close_def idle_lock_def)
  have verify: "verify_request (rc_query rc (lit ''sid'')) False (rc_transport_kind rc) (rc_http_method rc) (hb_server hb) =
      (Ok (), hb_server hb)"
    by (subst verify_request_table [OF free]) (use assms(5-7) in simp_all)
  then have check: "take_turns ?step [0] (hb, RqVerify new_sid rc body # ?others) = (hb, RqFetch i rc body # ?others)"
    using assms(6) by (simp add: take_turn_def)
  obtain hb1 where gone: "take_turns ?step (replicate 5 1 @ replicate 2 2) (hb, RqFetch i rc body # ?others) =
      (hb1, [RqFetch i rc body, RqHub HubDone, RqHub Listening])" "sv_clients (hb_server hb1) i = None"
    using close_and_remove [OF assms(1-5)] by blast
  have "take_turns ?step ([0] @ (replicate 5 1 @ replicate 2 2) @ [0]) (hb, RqVerify new_sid rc body # ?others) =
      (hb1, [RqReply (Err UnknownSid), RqHub HubDone, RqHub Listening])"
    unfolding take_turns_simps(3) [of _ "[0]"] check take_turns_simps(3) [of _ "replicate 5 1 @ replicate 2 2"] gone(1)
    using gone(2) by (simp add: take_turn_def)
  with gone(2) have first: "\<exists>order hb'. take_turns ?step order (hb, RqVerify new_sid rc body # ?others) =
      (hb', [RqReply (Err UnknownSid), RqHub HubDone, RqHub Listening]) \<and> sv_clients (hb_server hb') i = None"
    by blast
  have fetch: "take_turns ?step [0] (hb, RqFetch i rc body # ?others) = (hb, RqPoll i rc body # ?others)"
    using assms(5) by (simp add: take_turn_def)
  obtain hb2 where late: "take_turns ?step (replicate 5 1 @ replicate 2 2) (hb, RqPoll i rc body # ?others) =
      (hb2, [RqPoll i rc body, RqHub HubDone, RqHub Listening])" "sv_clients (hb_server hb2) i = None"
      "shared_socket hb2 i = Some (closed reason s)"
    using close_and_remove [OF assms(1-5)] by blast
  obtain hb3 where poll: "?step (RqPoll i rc body) hb2 = (RqReply (Err UnknownError), hb3)" "sv_clients (hb_server hb3) i = None"
    using poll_closed [OF late(3) free [OF assms(6,5)] late(2)] by blast
  have "take_turns ?step ([0] @ [0] @ (replicate 5 1 @ replicate 2 2) @ [0]) (hb, RqVerify new_sid rc body # ?others) =
      (hb3, [RqReply (Err UnknownError), RqHub HubDone, RqHub Listening])"
    unfolding take_turns_simps(3) [of _ "[0]"] check fetch take_turns_simps(3) [of _ "replicate 5 1 @ replicate 2 2"] late(1)
    using poll(1) by (simp add: take_turn_def)
  with poll(2) have second: "\<exists>order hb'. take_turns ?step order (hb, RqVerify new_sid rc body # ?others) =
      (hb', [RqReply (Err UnknownError), RqHub HubDone, RqHub Listening]) \<and> sv_clients (hb_server hb') i = None"
    by blast
  from verify first second show ?thesis by simp
qed

section \<open>Witnesses\<close>

abbreviation request_ref :: request_context where
  "request_ref \<equiv> context_ref\<lparr>rc_query := [lit ''sid'' \<mapsto> lit ''a''], rc_transport_kind := KWebSocket\<rparr>"

theorem request_alone_witness:
  "run_alone (request_step 64 length adapter_ref json_ref (\<lambda>_. Suc)) 15 (RqVerify (lit ''c'') request_ref None, hub_ref) =
    (case handle_request adapter_ref json_ref (\<lambda>_. Suc) (lit ''c'') request_ref None (hb_server hub_ref) of
       (r, sv) \<Rightarrow> (RqReply r, hub_ref\<lparr>hb_server := sv\<rparr>))"
proof (rule request_alone)
  show "idle_lock s" if "sv_clients (hb_server hub_ref) i = Some s" for i s
    using that client_ref(1) by (auto split: if_splits)
qed (simp_all add: server_new_def)

theorem requests_meet_closes_witness:
  "\<exists>order hb'. take_turns (request_step 1 length adapter_ref json_ref (\<lambda>_. Suc)) order
     (hub_ref, [RqVerify (lit ''c'') request_ref None, RqHub (Method (lit ''a'') (CloseReady CrTransportClosed)), RqHub Listening]) =
     (hb', [RqReply (Err UnknownSid), RqHub HubDone, RqHub Listening]) \<and> sv_clients (hb_server hb') (lit ''a'') = None"
proof -
  have s: "sv_clients (hb_server hub_ref) (lit ''a'') = Some (client_ref (lit ''a''))" by (simp add: lit_def)
  then have "may_close hub_ref (lit ''a'')" using client_ref(1,3) [of "lit ''a''"] by (simp add: may_close_def)
  from requests_meet_closes [OF _ _ _ this s, of 1 request_ref length adapter_ref json_ref "\<lambda>_. Suc"]
  show ?thesis by (simp add: server_new_def transport_create_def adapter_ref_def context_ref_def)
qed

end
