(* ===== verification/Warp_Adapter.thy ===== *)
theory Warp_Adapter
  imports Engine_Server Engine_String Engine_Binary Engine_Decoder
begin

text \<open>
  \<open>engine_io_warp/src/polling.rs\<close> and \<open>websocket.rs\<close>: the transports of the warp adapter, which is the
  adapter the Engine.IO server runs with. HTTP requests and responses belong to \<open>warp\<close>: a response is
  its status, its headers in the order in which they are set, and its body, and \<open>header_ok\<close> says which
  strings are valid header values. Building a response from an invalid one makes the builder an
  error, and \<open>headers_mut().unwrap()\<close> panics on it.

  The parsers' parameters come with the adapter: \<open>oc\<close>, the two parser records \<open>N\<close> and \<open>M\<close> for strings
  and for bytes, and \<open>B\<close>.
\<close>

section \<open>The polling transport\<close>

datatype polling_mode = Xhr | Jsonp

record polling_transport =
  wp_mode :: polling_mode
  wp_sender :: "transport_event broadcast"
  wp_writable :: bool
  wp_options :: polling_options

record http_response =
  hr_status :: nat
  hr_headers :: "(rstring \<times> rstring) list"
  hr_body :: bytes

definition warp_polling_is_writable :: "polling_transport \<Rightarrow> bool" where
  "warp_polling_is_writable t = False"

definition warp_polling_new :: "polling_options \<Rightarrow> transport_event broadcast \<Rightarrow> polling_transport" where
  "warp_polling_new options event_sender =
     (let mode = (if po_jsonp options then Jsonp else Xhr)
      in \<lparr>wp_mode = mode, wp_sender = event_sender, wp_writable = False, wp_options = options\<rparr>)"

definition respond :: "(rstring \<Rightarrow> bool) \<Rightarrow> response_body \<Rightarrow> request_context \<Rightarrow> polling_mode \<Rightarrow> bool \<Rightarrow>
    (server_error, http_response) outcome" where
  "respond header_ok content rc mode compress =
     (let content_type = (case content of
            Plaintext _ \<Rightarrow> lit ''text/plain; charset=UTF-8''
          | Binary _ \<Rightarrow> lit ''application/octet-stream'');
          common_headers = common_polling_headers rc (mode = Xhr);
          content = into_bytes content
      in if \<not> list_all (\<lambda>(k, v). header_ok v) common_headers then Panic
         else
           let headers = AList.update (lit ''content-type'') content_type common_headers
           in obind (case rc_set_cookie rc of
                       Some cookie \<Rightarrow>
                         obind (set_cookie_string cookie) (\<lambda>cookie_str.
                           if header_ok cookie_str
                           then Ok (AList.update (lit ''set-cookie'') cookie_str headers) else Panic)
                     | None \<Rightarrow> Ok headers) (\<lambda>headers.
              Ok \<lparr>hr_status = 200, hr_headers = headers, hr_body = content\<rparr>))"

definition warp_respond_with_packets :: "(rstring \<Rightarrow> bool) \<Rightarrow> base64 \<Rightarrow> polling_transport \<Rightarrow>
    request_context \<Rightarrow> packet list \<Rightarrow> (server_error, http_response) outcome" where
  "warp_respond_with_packets header_ok B t rc packets =
     (let content = Plaintext (encode_payload B packets)
      in respond header_ok content rc (wp_mode t) (po_http_compression (wp_options t) \<noteq> None))"

definition handle_poll_request :: "(polling_transport, server_error, http_response request_reply) prog" where
  "handle_poll_request = ret (Action EvDrain)"

definition handle_data_request :: "bool \<Rightarrow> str_nom \<Rightarrow> bin_nom \<Rightarrow> base64 \<Rightarrow> request_context \<Rightarrow> bytes option \<Rightarrow>
    (polling_transport, server_error, http_response request_reply) prog" where
  "handle_data_request oc N M B rc body =
     (let is_binary = rc_content_type rc = lit ''application/octet-stream''
      in andthen (lift (ok_or BadRequest body)) (\<lambda>body.
         andthen (lift (if is_binary then map_err error_from_parse (bin_decode_payload oc M body)
                        else obind (ok_or BadRequest (from_utf8 body)) (\<lambda>body.
                               map_err error_from_parse (decode_payload oc B N body)))) (\<lambda>packets.
         andthen (modify (\<lambda>t. t\<lparr>wp_sender :=
             foldl (\<lambda>ch p. broadcast_send (EvPacket rc p) ch) (wp_sender t) packets\<rparr>)) (\<lambda>_.
         ret (Response \<lparr>hr_status = 200, hr_headers = [(lit ''content-type'', lit ''text/html'')],
                        hr_body = as_bytes (lit ''ok'')\<rparr>)))))"

definition handle_options_request :: "(polling_transport, server_error, http_response request_reply) prog" where
  "handle_options_request =
     ret (Response \<lparr>hr_status = 200, hr_headers = [(lit ''access-control-allow-headers'', lit ''Content-Type'')],
                    hr_body = []\<rparr>)"

definition respond_with_status_code_only :: "nat \<Rightarrow>
    (polling_transport, server_error, http_response request_reply) prog" where
  "respond_with_status_code_only status_code =
     ret (Response \<lparr>hr_status = status_code, hr_headers = [], hr_body = []\<rparr>)"

definition warp_handle_request :: "bool \<Rightarrow> str_nom \<Rightarrow> bin_nom \<Rightarrow> base64 \<Rightarrow> request_context \<Rightarrow> bytes option \<Rightarrow>
    (polling_transport, server_error, http_response request_reply) prog" where
  "warp_handle_request oc N M B rc body =
     andthen (gets wp_mode) (\<lambda>mode.
       case (rc_http_method rc, mode) of
         (MGet, _) \<Rightarrow> handle_poll_request
       | (MPost, _) \<Rightarrow> handle_data_request oc N M B rc body
       | (MOptions, Xhr) \<Rightarrow> handle_options_request
       | (_, _) \<Rightarrow> respond_with_status_code_only 500)"

section \<open>The WebSocket transport\<close>

datatype ws_message = MsgBinary bytes | MsgText rstring | MsgClose | MsgOther

record websocket_transport =
  ww_sender :: "transport_event broadcast"
  ww_options :: websocket_options
  ww_context :: request_context

definition warp_websocket_new :: "websocket_options \<Rightarrow> transport_event broadcast \<Rightarrow> unit \<Rightarrow>
    request_context \<Rightarrow> websocket_transport" where
  "warp_websocket_new options event_sender socket_handle upgrade_request_context =
     \<lparr>ww_sender = event_sender, ww_options = options, ww_context = upgrade_request_context\<rparr>"

definition warp_websocket_is_writable :: "websocket_transport \<Rightarrow> bool" where
  "warp_websocket_is_writable t = True"

text \<open>
  The task that reads the messages of the client, on the messages it is given until the connection
  ends: the events it sends. A message that cannot be parsed is dropped, and the parser can panic.
\<close>

fun websocket_events :: "str_nom \<Rightarrow> bin_nom \<Rightarrow> request_context \<Rightarrow> ws_message list \<Rightarrow>
    (unit, transport_event list) outcome" where
  "websocket_events N M rc [] = Ok [EvClose]"
| "websocket_events N M rc (message # messages) =
     (let encoded = (case message of
            MsgBinary d \<Rightarrow> Some (EncBinary d)
          | MsgText t \<Rightarrow> Some (EncText t)
          | _ \<Rightarrow> None)
      in if message = MsgClose then Ok [EvClose]
         else (case encoded of
                 None \<Rightarrow> websocket_events N M rc messages
               | Some encoded \<Rightarrow>
                   (case decode_encoded N M encoded of
                      Ok p \<Rightarrow> obind (websocket_events N M rc messages) (\<lambda>es. Ok (EvPacket rc p # es))
                    | Err _ \<Rightarrow> websocket_events N M rc messages
                    | Panic \<Rightarrow> Panic)))"

definition websocket_messages :: "base64 \<Rightarrow> websocket_options \<Rightarrow> packet list \<Rightarrow> ws_message list" where
  "websocket_messages B options packets =
     (if wo_supports_binary options then map (\<lambda>p. MsgBinary (bin_encode_packet p)) packets
      else map (\<lambda>p. MsgText (encode_packet B p)) packets)"

section \<open>The adapter\<close>

definition warp_adapter :: "bool \<Rightarrow> str_nom \<Rightarrow> bin_nom \<Rightarrow> base64 \<Rightarrow> (rstring \<Rightarrow> bool) \<Rightarrow>
    (websocket_transport, polling_transport, unit, bytes, http_response) adapter" where
  "warp_adapter oc N M B header_ok =
     \<lparr>websocket_new = warp_websocket_new, polling_new = warp_polling_new,
      websocket_writable = warp_websocket_is_writable, polling_writable = warp_polling_is_writable,
      respond_with_packets = warp_respond_with_packets header_ok B,
      polling_handle_request = warp_handle_request oc N M B\<rparr>"

text \<open>The response of an error is HTML with the status 200.\<close>

definition server_error_to_warp_result :: "server_error \<Rightarrow> http_response" where
  "server_error_to_warp_result err =
     \<lparr>hr_status = 200, hr_headers = [(lit ''content-type'', lit ''text/html; charset=utf-8'')],
      hr_body = as_bytes (server_error_string err)\<rparr>"

text \<open>\<open>handle\<close> is the call of the server's \<open>handle_request\<close> with the body of the request.\<close>

definition on_poll_request :: "(bytes option \<Rightarrow> ('s, server_error, http_response) prog) \<Rightarrow>
    ('s, unit, http_response) prog" where
  "on_poll_request handle = (\<lambda>s.
     case handle None s of
       (Ok response, s) \<Rightarrow> (Ok response, s)
     | (Err err, s) \<Rightarrow> (Ok (server_error_to_warp_result err), s)
     | (Panic, s) \<Rightarrow> (Panic, s))"

definition on_data_request :: "bytes \<Rightarrow> (bytes option \<Rightarrow> ('s, server_error, http_response) prog) \<Rightarrow>
    ('s, unit, http_response) prog" where
  "on_data_request body handle = (\<lambda>s.
     case handle (Some body) s of
       (Ok response, s) \<Rightarrow> (Ok response, s)
     | (Err err, s) \<Rightarrow> (Ok (server_error_to_warp_result err), s)
     | (Panic, s) \<Rightarrow> (Panic, s))"

text \<open>\<open>headers_into_map\<close> is \<open>todo!()\<close>; the rejection of an unknown transport carries the error.\<close>

definition headers_into_map :: "(rstring \<times> rstring) list \<Rightarrow> ('e, rstring \<rightharpoonup> rstring) outcome" where
  "headers_into_map headers = Panic"

definition build_context :: "http_method \<Rightarrow> (rstring \<times> rstring) list \<Rightarrow> rstring \<Rightarrow> (rstring \<rightharpoonup> rstring) \<Rightarrow>
    rstring \<Rightarrow> rstring \<Rightarrow> rstring \<Rightarrow> rstring option \<Rightarrow> (server_error, request_context) outcome" where
  "build_context http_method headers path query user_agent origin content_type address =
     (let transport_name = (case query (lit ''transport'') of Some t \<Rightarrow> t | None \<Rightarrow> lit ''polling'')
      in case transport_kind_parse transport_name of
           Ok kind \<Rightarrow>
             obind (headers_into_map headers) (\<lambda>headers.
             obind (unwrap_opt address) (\<lambda>address.
             Ok \<lparr>rc_query = query, rc_headers = headers, rc_origin = Some origin, rc_secure = False,
                 rc_user_agent = user_agent, rc_content_type = content_type, rc_transport_kind = kind,
                 rc_http_method = http_method, rc_remote_address = address, rc_request_url = path,
                 rc_set_cookie = None\<rparr>))
         | Err err \<Rightarrow> Err err
         | Panic \<Rightarrow> Panic)"

text \<open>
  The closure of the path filter. \<open>split\<close> at the ampersand gives at least one part, and the first one is what comes
  before it; \<open>None\<close> is the rejection.
\<close>

definition path_scheme :: "rstring \<Rightarrow> rstring \<Rightarrow> rstring option" where
  "path_scheme scheme full_path =
     (let scheme = takeWhile (\<lambda>c. c \<noteq> 38) scheme
      in if \<not> prefix scheme full_path then None else Some full_path)"

section \<open>Poll requests\<close>

lemma flush_Ok_None: "flush A s = (Ok r, t) \<Longrightarrow> r = None"
  unfolding flush_def by (auto simp: andthen_eq_Ok Let_def split: if_splits)

text \<open>A polling request succeeds only if the transport answers it itself.\<close>

lemma handle_polling_Ok:
  assumes "handle_polling_request A rc body s = (Ok x, s')"
  shows "\<exists>pl pl'. polling_handle_request A rc body pl = (Ok (Response x), pl')"
proof -
  from assms obtain t st where t: "get_transport_or_fail s = (Ok t, st)"
    unfolding handle_polling_request_def by (auto simp: andthen_eq_Ok)
  with assms obtain pl where pl: "t = Polling pl"
    by (cases t) (auto simp: handle_polling_request_def)
  obtain r pl' where r: "polling_handle_request A rc body pl = (r, pl')" by force
  with assms t pl obtain reply where reply: "r = Ok reply"
    by (cases r) (auto simp: handle_polling_request_def)
  have "\<not> (\<exists>ev. reply = Action ev)"
    using assms t pl r reply
    by (auto simp: handle_polling_request_def andthen_eq_Ok dest!: flush_Ok_None split: transport_event.splits)
  with reply assms t pl r show ?thesis
    by (cases reply) (auto simp: handle_polling_request_def)
qed

text \<open>
  What \<open>handle_poll_request\<close> says of itself: it makes its caller flush and respond. The clients of such
  an adapter never get a response to a \<open>GET\<close> request, since \<open>flush\<close> has nothing to give.
\<close>

locale draining_adapter =
  fixes A :: "('w, 'p, 'h, 'b, 'r) adapter"
  assumes drains: "rc_http_method rc = MGet \<Longrightarrow> fst (polling_handle_request A rc body p) = Ok (Action EvDrain)"
begin

lemma poll_not_Ok:
  assumes "rc_http_method rc = MGet"
  shows "handle_polling_request A rc body s \<noteq> (Ok x, s')"
proof
  assume h: "handle_polling_request A rc body s = (Ok x, s')"
  have "\<exists>pl pl'. polling_handle_request A rc body pl = (Ok (Response x), pl')"
    by (rule handle_polling_Ok [OF h])
  then obtain pl pl' where "polling_handle_request A rc body pl = (Ok (Response x), pl')" by blast
  with drains [OF assms, of body pl] show False by simp
qed

lemma get_request_not_Ok:
  assumes "rc_http_method rc = MGet"
  shows "handle_request A open_json emit new_sid rc body sv \<noteq> (Ok x, sv')"
proof
  assume ok: "handle_request A open_json emit new_sid rc body sv = (Ok x, sv')"
  have client: "run_client i (handle_polling_request A rc body) t \<noteq> (Ok y, t')" for i t y t'
    using poll_not_Ok [OF assms, of body]
    by (auto simp: run_client_def split: option.splits prod.splits)
  have hs: "handshake A open_json emit new_sid rc HsPolling t \<noteq> (Ok y, t')" for t y t'
    using handshake_fails [of A open_json emit new_sid rc HsPolling t] by auto
  from ok show False
    unfolding handle_request_def Let_def
    by (auto simp: andthen_eq_Ok client hs split: option.splits)
qed

end

interpretation warp: draining_adapter "warp_adapter oc N M B header_ok"
  for oc N M B header_ok
  by unfold_locales
    (auto simp: warp_adapter_def warp_handle_request_def handle_poll_request_def split: polling_mode.splits)

text \<open>
  C19: No poll request is ever answered by the server with the warp adapter: whatever the state of the
  server and of its clients, and whatever is waiting to be sent, \<open>handle_request\<close> on a \<open>GET\<close> request
  never returns a response.
\<close>

theorem get_requests_are_never_answered:
  assumes "rc_http_method rc = MGet"
  shows "handle_request (warp_adapter oc N M B header_ok) open_json emit new_sid rc body sv \<noteq> (Ok x, sv')"
  using assms by (rule warp.get_request_not_Ok)

definition decode_body :: "bool \<Rightarrow> str_nom \<Rightarrow> bin_nom \<Rightarrow> base64 \<Rightarrow> rstring \<Rightarrow> bytes option \<Rightarrow>
    (parse_packet_error, packet list) outcome" where
  "decode_body oc N M B content_type body =
     (case body of
        None \<Rightarrow> Err \<lparr>err_message = lit ''no body''\<rparr>
      | Some d \<Rightarrow>
          if content_type = lit ''application/octet-stream'' then bin_decode_payload oc M d
          else (case from_utf8 d of
                  None \<Rightarrow> Err \<lparr>err_message = lit ''not UTF-8''\<rparr>
                | Some s \<Rightarrow> decode_payload oc B N s))"

lemma broadcast_all:
  "foldl (\<lambda>ch p. broadcast_send (f p) ch) ch ps = map (\<lambda>q. q @ map f ps) ch"
  by (induction ps arbitrary: ch) (simp_all add: broadcast_send_def comp_def)

text \<open>
  The body of a \<open>POST\<close> request is decoded as the content type says; a missing body, a body that is
  not UTF-8 and one that does not decode are bad requests and change nothing. The packets of a body
  that decodes are sent, in order, to the receivers of the transport's event channel, and the
  reply is \<open>ok\<close>.
\<close>

theorem data_request_forwards:
  "handle_data_request oc N M B rc body t =
   (case decode_body oc N M B (rc_content_type rc) body of
      Ok ps \<Rightarrow>
        (Ok (Response \<lparr>hr_status = 200, hr_headers = [(lit ''content-type'', lit ''text/html'')],
                        hr_body = as_bytes (lit ''ok'')\<rparr>),
         t\<lparr>wp_sender := map (\<lambda>q. q @ map (EvPacket rc) ps) (wp_sender t)\<rparr>)
    | Err _ \<Rightarrow> (Err BadRequest, t)
    | Panic \<Rightarrow> (Panic, t))"
  by (auto simp: handle_data_request_def decode_body_def error_from_parse_def broadcast_all Let_def
      split: option.splits outcome.splits)

text \<open>
  The packets a client posts are acknowledged and lost: the event channel of a transport made by
  \<open>Transport::create\<close> has no receiver, so a reply \<open>ok\<close> leaves the transport as it was.
\<close>

theorem posted_packets_are_lost:
  assumes "transport_create (warp_adapter oc N M B header_ok) rc0 create_data = Polling t"
    and "polling_handle_request (warp_adapter oc N M B header_ok) rc body t = (Ok r, t')"
  shows "t' = t"
proof -
  have s: "wp_sender t = []"
    using assms(1)
    by (auto simp: transport_create_def warp_adapter_def warp_polling_new_def split: transport_create_data.splits)
  have "t\<lparr>wp_sender := []\<rparr> = t" using s by (cases t) simp
  then have d: "snd (handle_data_request oc N M B rc body t) = t"
    by (auto simp: handle_data_request_def broadcast_all s Let_def split: option.splits outcome.splits)
  with assms(2) show ?thesis
    by (auto simp: warp_adapter_def warp_handle_request_def handle_poll_request_def
        handle_options_request_def respond_with_status_code_only_def
        split: http_method.splits polling_mode.splits)
qed

text \<open>
  A response that carries a cookie is never built: writing the cookie as a header value panics, and
  with the default options every handshake carries one.
\<close>

theorem cookie_response_panics:
  "respond header_ok content (with_set_cookie rc (from_cookie_options (Some co) sid)) mode compress = Panic \<and>
   so_cookie server_options_default \<noteq> None"
  by (simp add: respond_def from_cookie_options_def with_set_cookie_def set_cookie_string_def
      server_options_default_def Let_def)

text \<open>
  No request context is ever built from an HTTP request: an unknown transport is rejected, and every
  other request panics in the conversion of its headers.
\<close>

theorem build_context_never_ok:
  "build_context m headers path query agent origin content_type address =
   (case query (lit ''transport'') of
      Some t \<Rightarrow> if t = lit ''websocket'' \<or> t = lit ''polling'' then Panic else Err UnknownTransport
    | None \<Rightarrow> Panic)"
  by (auto simp: build_context_def headers_into_map_def transport_kind_parse_def lit_def split: option.splits)

fun decoded_packets :: "str_nom \<Rightarrow> bin_nom \<Rightarrow> ws_message \<Rightarrow> packet list" where
  "decoded_packets N M (MsgBinary d) = (case bin_decode_packet M d of Ok p \<Rightarrow> [p] | _ \<Rightarrow> [])"
| "decoded_packets N M (MsgText t) = (case decode_packet N t of Ok p \<Rightarrow> [p] | _ \<Rightarrow> [])"
| "decoded_packets N M _ = []"

text \<open>
  Every event of a WebSocket is a packet of the connection's context, in the order of the messages
  they were decoded from, and a close at the end; messages that do not decode, and those after the
  close, are dropped.
\<close>

theorem websocket_events_in_order:
  assumes "websocket_events N M rc ms = Ok es"
  shows "es = map (EvPacket rc) (concat (map (decoded_packets N M) (takeWhile (\<lambda>m. m \<noteq> MsgClose) ms))) @ [EvClose]"
  using assms
proof (induction ms arbitrary: es)
  case (Cons m ms)
  then show ?case
    by (cases m) (auto split: outcome.splits if_splits)
qed simp

text \<open>
  What a poll response carries is what a \<open>POST\<close> body means: the body of a response to packets that
  frame well, posted back as text, decodes to the same packets.
\<close>

theorem response_body_roundtrip:
  assumes "nom_laws is_digit N" and "list_all (good_string B) ps" and "str_ok (encode_payload B ps)"
    and "rc_set_cookie rc = None" and "list_all (\<lambda>(k, v). header_ok v) (common_polling_headers rc (wp_mode t = Xhr))"
  shows "\<exists>resp. warp_respond_with_packets header_ok B t rc ps = Ok resp \<and> hr_status resp = 200 \<and>
    decode_body oc N M B (lit ''text/plain; charset=UTF-8'') (Some (hr_body resp)) = Ok ps"
  using string_framing.decode_payload [OF assms(1,2)] assms(3-5)
  by (simp add: warp_respond_with_packets_def respond_def decode_body_def Let_def lit_def
      decode_payload_def parse_string_payload_def encode_payload_def serialize_payload_concat)

section \<open>Witnesses\<close>

abbreviation warp_ref :: "(websocket_transport, polling_transport, unit, bytes, http_response) adapter" where
  "warp_ref \<equiv> warp_adapter True (nom_ref is_digit) (nom_ref is_digit_u8) b64_ref (\<lambda>_. True)"

theorem get_requests_are_never_answered_witness:
  "\<forall>x sv'. handle_request warp_ref json_ref emit_ref (lit ''s'') context_ref None
     (server_new server_options_default []) \<noteq> (Ok x, sv')"
  by (intro allI, rule get_requests_are_never_answered) (simp add: context_ref_def)

abbreviation ping_ref :: packet where
  "ping_ref \<equiv> \<lparr>ptype = PtPing, pdata = PdText (lit ''probe'')\<rparr>"

lemma ping_payload:
  "decode_payload True b64_ref (nom_ref is_digit) (encode_payload b64_ref [ping_ref]) = Ok [ping_ref]"
  using string_framing.decode_payload [OF nom_ref_laws, of b64_ref "[ping_ref]" True]
  by (simp add: good_string_def text_framed_def lit_def is_digit_def
      decode_payload_def parse_string_payload_def encode_payload_def serialize_payload_concat)

lemma ping_text: "str_ok (encode_payload b64_ref [ping_ref])"
  by (simp add: encode_payload_def serialize_payload_def payload_chunk_def serialize_packet_def Let_def
      lit_def dec_small scalar_def)

lemma context_ref_text: "rc_content_type context_ref \<noteq> lit ''application/octet-stream''"
  by (simp add: context_ref_def lit_def)

theorem posted_packets_are_lost_witness:
  "\<exists>t r. transport_create warp_ref context_ref (CreatePolling False) = Polling t \<and>
    polling_handle_request warp_ref (context_ref\<lparr>rc_http_method := MPost\<rparr>)
      (Some (as_bytes (encode_payload b64_ref [ping_ref]))) t = (Ok (Response r), t)"
proof -
  let ?rc = "context_ref\<lparr>rc_http_method := MPost\<rparr>"
  obtain t where t: "transport_create warp_ref context_ref (CreatePolling False) = Polling t"
    by (simp add: transport_create_def)
  have "\<exists>r t'. polling_handle_request warp_ref ?rc (Some (as_bytes (encode_payload b64_ref [ping_ref]))) t =
      (Ok (Response r), t')"
    by (simp add: warp_adapter_def warp_handle_request_def handle_data_request_def context_ref_text
        from_utf8_as_bytes [OF ping_text] ping_payload)
  then obtain r t' where r: "polling_handle_request warp_ref ?rc
      (Some (as_bytes (encode_payload b64_ref [ping_ref]))) t = (Ok (Response r), t')"
    by blast
  with posted_packets_are_lost [OF t r] t show ?thesis by blast
qed

theorem websocket_events_in_order_witness:
  "[EvClose] = map (EvPacket context_ref) (concat (map (decoded_packets (nom_ref is_digit) (nom_ref is_digit_u8))
      (takeWhile (\<lambda>m. m \<noteq> MsgClose) [MsgOther, MsgClose, MsgText (lit ''3'')]))) @ [EvClose]"
  by (rule websocket_events_in_order) simp

theorem response_body_roundtrip_witness:
  "\<exists>resp. warp_respond_with_packets (\<lambda>_. True) b64_ref
      (warp_polling_new \<lparr>po_max_http_buffer_size = 1024, po_http_compression = None, po_jsonp = False\<rparr> [])
      context_ref [ping_ref] = Ok resp \<and> hr_status resp = 200 \<and>
    decode_body True (nom_ref is_digit) (nom_ref is_digit_u8) b64_ref (lit ''text/plain; charset=UTF-8'')
      (Some (hr_body resp)) = Ok [ping_ref]"
  by (rule response_body_roundtrip [OF nom_ref_laws _ ping_text])
    (simp_all add: good_string_def text_framed_def lit_def is_digit_def context_ref_def list_all_iff)

end
