(* ===== verification/Warp_Server.thy ===== *)
theory Warp_Server
  imports Warp_Adapter
begin

text \<open>
  The running parts of the warp adapter: the task that writes to a WebSocket (\<open>websocket.rs\<close>), and the
  server with its routes (\<open>adapter_warp.rs\<close>). The sending half of a WebSocket is a sink of the crate
  \<open>warp\<close>, and routes are filters of it: both are parameters, \<open>sink\<close> and \<open>exact\<close>.
\<close>

section \<open>Writing to a WebSocket\<close>

record 'k ws_sink =
  ws_send :: "ws_message \<Rightarrow> ('k, unit, unit) prog"
  ws_close :: "('k, unit, unit) prog"

text \<open>
  \<open>forward\<close> of the crate \<open>futures\<close> gives the sink every item of a stream; when the stream ends the sink is
  flushed and closed, and an error of the sink ends it at once.
\<close>

fun send_all :: "'k ws_sink \<Rightarrow> ws_message list \<Rightarrow> ('k, unit, unit) prog" where
  "send_all sink [] = ret ()"
| "send_all sink (m # ms) = andthen (ws_send sink m) (\<lambda>_. send_all sink ms)"

definition forward :: "'k ws_sink \<Rightarrow> ws_message list \<Rightarrow> ('k, unit, unit) prog" where
  "forward sink ms = andthen (send_all sink ms) (\<lambda>_. ws_close sink)"

definition send_packets :: "'k ws_sink \<Rightarrow> base64 \<Rightarrow> packet list \<Rightarrow> websocket_options \<Rightarrow> ('k, unit, unit) prog" where
  "send_packets sink B packets options = forward sink (websocket_messages B options packets)"

text \<open>The task, on the commands it is given until it is aborted; an error is printed and forgotten.\<close>

fun subscribe_to_socket_commands :: "'k ws_sink \<Rightarrow> base64 \<Rightarrow> websocket_options \<Rightarrow> transport_cmd list \<Rightarrow>
    ('k, unit, unit) prog" where
  "subscribe_to_socket_commands sink B options [] = ret ()"
| "subscribe_to_socket_commands sink B options (CmdSend packets # cmds) =
     andthen (ignore_err (send_packets sink B packets options)) (\<lambda>_.
     subscribe_to_socket_commands sink B options cmds)"

text \<open>
  A WebSocket as documented, on a network without errors: what is sent on an open one arrives in order,
  closing it ends it, and a closed one takes nothing any more. \<open>sent\<close> is what has arrived.
\<close>

definition sink_laws :: "'k ws_sink \<Rightarrow> ('k \<Rightarrow> ws_message list) \<Rightarrow> ('k \<Rightarrow> bool) \<Rightarrow> bool" where
  "sink_laws sink sent is_open \<longleftrightarrow>
     (\<forall>k m. is_open k \<longrightarrow> (\<exists>k'. ws_send sink m k = (Ok (), k') \<and> sent k' = sent k @ [m] \<and> is_open k')) \<and>
     (\<forall>k m. \<not> is_open k \<longrightarrow> (\<exists>k'. ws_send sink m k = (Err (), k') \<and> sent k' = sent k \<and> \<not> is_open k')) \<and>
     (\<forall>k. \<exists>r k'. ws_close sink k = (r, k') \<and> r \<noteq> Panic \<and> sent k' = sent k \<and> \<not> is_open k')"

lemma sink_open:
  assumes "sink_laws sink sent is_open" and "is_open k"
  obtains k' where "ws_send sink m k = (Ok (), k')" "sent k' = sent k @ [m]" "is_open k'"
  using assms unfolding sink_laws_def by blast

lemma sink_closed:
  assumes "sink_laws sink sent is_open" and "\<not> is_open k"
  obtains k' where "ws_send sink m k = (Err (), k')" "sent k' = sent k" "\<not> is_open k'"
  using assms unfolding sink_laws_def by blast

lemma sink_close:
  assumes "sink_laws sink sent is_open"
  obtains r k' where "ws_close sink k = (r, k')" "r \<noteq> Panic" "sent k' = sent k" "\<not> is_open k'"
  using assms unfolding sink_laws_def by blast

lemma forward_open:
  assumes "sink_laws sink sent is_open" and "is_open k"
  shows "\<exists>r k'. forward sink ms k = (r, k') \<and> r \<noteq> Panic \<and> sent k' = sent k @ ms \<and> \<not> is_open k'"
  using assms(2)
proof (induction ms arbitrary: k)
  case Nil
  obtain r k' where "ws_close sink k = (r, k')" "r \<noteq> Panic" "sent k' = sent k" "\<not> is_open k'"
    by (rule sink_close [OF assms(1)])
  then show ?case by (simp add: forward_def)
next
  case (Cons m ms)
  obtain k' where k': "ws_send sink m k = (Ok (), k')" "sent k' = sent k @ [m]" "is_open k'"
    by (rule sink_open [OF assms(1) Cons.prems])
  with Cons.IH [OF k'(3)] show ?case by (simp add: forward_def andthen_assoc)
qed

lemma forward_closed:
  assumes "sink_laws sink sent is_open" and "\<not> is_open k"
  shows "\<exists>r k'. forward sink ms k = (r, k') \<and> r \<noteq> Panic \<and> sent k' = sent k \<and> \<not> is_open k'"
proof (cases ms)
  case Nil
  obtain r k' where "ws_close sink k = (r, k')" "r \<noteq> Panic" "sent k' = sent k" "\<not> is_open k'"
    by (rule sink_close [OF assms(1)])
  with Nil show ?thesis by (simp add: forward_def)
next
  case (Cons m ms')
  obtain k' where "ws_send sink m k = (Err (), k')" "sent k' = sent k" "\<not> is_open k'"
    by (rule sink_closed [OF assms])
  with Cons show ?thesis by (simp add: forward_def andthen_assoc)
qed

lemma ignore_err_eq: "m k = (r, k') \<Longrightarrow> r \<noteq> Panic \<Longrightarrow> ignore_err m k = (Ok () :: (unit, unit) outcome, k')"
  by (cases r) (simp_all add: ignore_err_def)

lemma commands_closed:
  assumes "sink_laws sink sent is_open" and "\<not> is_open k"
  shows "\<exists>k'. subscribe_to_socket_commands sink B options cmds k = (Ok (), k') \<and> sent k' = sent k \<and> \<not> is_open k'"
  using assms(2)
proof (induction cmds arbitrary: k)
  case (Cons cmd cmds)
  obtain packets where cmd: "cmd = CmdSend packets" by (cases cmd)
  obtain r k' where k': "forward sink (websocket_messages B options packets) k = (r, k')" "r \<noteq> Panic"
    "sent k' = sent k" "\<not> is_open k'"
    using forward_closed [OF assms(1) Cons.prems] by blast
  with Cons.IH [OF k'(4)] show ?case
    using ignore_err_eq [of "send_packets sink B packets options" k r k'] by (simp add: cmd send_packets_def)
qed simp

text \<open>
  C20: A WebSocket carries the packets of one command only: sending them closes it, so the client gets
  exactly the packets of the first command that the socket gives to its transport, in order, and the
  packets of all later commands are dropped without a trace. The task itself goes on.
\<close>

theorem websocket_first_batch:
  assumes "sink_laws sink sent is_open" and "is_open k"
  shows "\<exists>k'. subscribe_to_socket_commands sink B options (CmdSend packets # cmds) k = (Ok (), k') \<and>
    sent k' = sent k @ websocket_messages B options packets \<and> \<not> is_open k'"
proof -
  obtain r k' where k': "forward sink (websocket_messages B options packets) k = (r, k')" "r \<noteq> Panic"
    "sent k' = sent k @ websocket_messages B options packets" "\<not> is_open k'"
    using forward_open [OF assms] by blast
  then show ?thesis
    using commands_closed [OF assms(1) k'(4), of B options cmds]
      ignore_err_eq [of "send_packets sink B packets options" k r k'] by (simp add: send_packets_def)
qed


section \<open>The adapter as a server\<close>

record warp_adapter_options =
  wa_socket_addr :: "nat list \<times> nat"
  wa_buffer_factor :: nat
  wa_request_body_content_limit :: nat

definition warp_adapter_options_default :: warp_adapter_options where
  "warp_adapter_options_default =
     \<lparr>wa_socket_addr = ([127, 0, 0, 1], 3000), wa_buffer_factor = 32,
      wa_request_body_content_limit = 1024 * 1024 * 16\<rparr>"

record 'q standalone_adapter =
  sa_server :: "(websocket_transport, polling_transport, 'q) server"
  sa_options :: warp_adapter_options

type_synonym ('q, 'x) aprog = "('q standalone_adapter, unit, 'x) prog"

definition on_server :: "((websocket_transport, polling_transport, 'q) server, unit, 'x) prog \<Rightarrow> ('q, 'x) aprog" where
  "on_server m = (\<lambda>a. case m (sa_server a) of (r, sv) \<Rightarrow> (r, a\<lparr>sa_server := sv\<rparr>))"

definition standalone_new :: "server_options \<Rightarrow> warp_adapter_options \<Rightarrow> 'q \<Rightarrow> 'q standalone_adapter" where
  "standalone_new server_options options owner =
     \<lparr>sa_server = server_new server_options owner, sa_options = options\<rparr>"

definition standalone_subscribe :: "('q, unit) aprog" where
  "standalone_subscribe = on_server subscribe"

definition standalone_close :: "('q, unit) aprog" where
  "standalone_close = panic"

definition standalone_close_socket :: "rstring \<Rightarrow> ('q, unit) aprog" where
  "standalone_close_socket connection_id = on_server (close_socket connection_id)"

section \<open>Routes\<close>

text \<open>
  An HTTP request as the filters of warp see it: \<open>None\<close> is what a filter rejects because it is missing.
  \<open>hq_upgrade\<close> is whether it asks for a WebSocket.
\<close>

record http_request =
  hq_method :: http_method
  hq_upgrade :: bool
  hq_path :: rstring
  hq_query :: "(rstring \<rightharpoonup> rstring) option"
  hq_headers :: "(rstring \<times> rstring) list"
  hq_user_agent :: "rstring option"
  hq_origin :: "rstring option"
  hq_content_type :: "rstring option"
  hq_content_length :: "nat option"
  hq_body :: bytes
  hq_address :: "rstring option"

datatype rejection = RejectedByFilter | WarpError server_error

datatype route = ToUpgrade request_context | ToPoll request_context | ToData bytes request_context

definition required :: "'a option \<Rightarrow> (rejection, 'a) outcome" where
  "required x = ok_or RejectedByFilter x"

text \<open>The filter that builds a request context: the parts it needs, and the closure \<open>build_context\<close>.\<close>

definition context_filter :: "http_method \<Rightarrow> http_request \<Rightarrow> (rejection, request_context) outcome" where
  "context_filter http_method rq =
     obind (required (hq_query rq)) (\<lambda>query.
     obind (required (hq_user_agent rq)) (\<lambda>user_agent.
     obind (required (hq_origin rq)) (\<lambda>origin.
     obind (required (hq_content_type rq)) (\<lambda>content_type.
     map_err WarpError (build_context http_method (hq_headers rq) (hq_path rq) query user_agent origin content_type
       (hq_address rq))))))"

text \<open>
  \<open>exact\<close> is \<open>warp::path\<close>, which makes a filter for one segment of a path, given here by the paths it
  accepts; it panics if the segment is empty or contains a slash.
\<close>

type_synonym exact_filter = "rstring \<Rightarrow> (unit, rstring \<Rightarrow> bool) outcome"

definition exact_laws :: "exact_filter \<Rightarrow> bool" where
  "exact_laws exact \<longleftrightarrow> (\<forall>segment. segment = [] \<or> 47 \<in> set segment \<longrightarrow> exact segment = Panic)"

definition path_from_str :: "exact_filter \<Rightarrow> rstring \<Rightarrow>
    (unit, http_request \<Rightarrow> (rejection, rstring) outcome) outcome" where
  "path_from_str exact scheme =
     obind (exact (lit ''/'')) (\<lambda>matches. Ok (\<lambda>rq.
       if matches (hq_path rq) then required (path_scheme scheme (hq_path rq)) else Err RejectedByFilter))"

definition or_else :: "(http_request \<Rightarrow> (rejection, 'a) outcome) \<Rightarrow> (http_request \<Rightarrow> (rejection, 'a) outcome) \<Rightarrow>
    http_request \<Rightarrow> (rejection, 'a) outcome" where
  "or_else f g rq = (case f rq of Err _ \<Rightarrow> g rq | r \<Rightarrow> r)"

definition listen :: "exact_filter \<Rightarrow> rstring \<Rightarrow> 'q standalone_adapter \<Rightarrow>
    (unit, http_request \<Rightarrow> (rejection, route) outcome) outcome" where
  "listen exact path adapter =
     obind (path_from_str exact path) (\<lambda>ws_path.
     let websocket = (\<lambda>rq.
           obind (ws_path rq) (\<lambda>_.
           if \<not> hq_upgrade rq then Err RejectedByFilter
           else obind (context_filter MGet rq) (\<lambda>rc. Ok (ToUpgrade rc))))
     in obind (path_from_str exact path) (\<lambda>poll_path.
     let poll_endpoint = (\<lambda>rq.
           obind (poll_path rq) (\<lambda>_.
           if hq_method rq \<noteq> MGet then Err RejectedByFilter
           else obind (context_filter MGet rq) (\<lambda>rc. Ok (ToPoll rc))))
     in obind (path_from_str exact path) (\<lambda>data_path.
     let data_endpoint = (\<lambda>rq.
           obind (data_path rq) (\<lambda>_.
           if hq_method rq \<noteq> MPost then Err RejectedByFilter
           else obind (required (hq_content_length rq)) (\<lambda>len.
             if len > wa_request_body_content_limit (sa_options adapter) then Err RejectedByFilter
             else obind (context_filter MPost rq) (\<lambda>rc. Ok (ToData (hq_body rq) rc)))));
         transports = so_transports (sv_options (sa_server adapter));
         has_ws = list_ex (\<lambda>t. t = KWebSocket) transports;
         web_routes = or_else poll_endpoint data_endpoint
     in if has_ws then Ok (or_else websocket web_routes) else Ok web_routes)))"

text \<open>
  What a route does; \<open>request\<close> and \<open>upgrade\<close> are the server's \<open>handle_request\<close> and \<open>handle_upgrade\<close>. The
  reply to an upgrade is made by warp before the task of the upgrade runs, so the route has none.
\<close>

definition on_ws_upgrade :: "(request_context \<Rightarrow> ('s, unit, unit) prog) \<Rightarrow> request_context \<Rightarrow> ('s, unit, unit) prog" where
  "on_ws_upgrade upgrade rc = upgrade rc"

fun take_route :: "(request_context \<Rightarrow> bytes option \<Rightarrow> ('s, server_error, http_response) prog) \<Rightarrow>
    (request_context \<Rightarrow> ('s, unit, unit) prog) \<Rightarrow> route \<Rightarrow> ('s, unit, http_response option) prog" where
  "take_route request upgrade (ToUpgrade rc) = andthen (on_ws_upgrade upgrade rc) (\<lambda>_. ret None)"
| "take_route request upgrade (ToPoll rc) = andthen (on_poll_request (request rc)) (\<lambda>r. ret (Some r))"
| "take_route request upgrade (ToData body rc) = andthen (on_data_request body (request rc)) (\<lambda>r. ret (Some r))"

lemma context_filter_never_ok: "context_filter m rq \<noteq> Ok rc"
  by (auto simp: context_filter_def required_def build_context_never_ok obind_eq_Ok split: option.splits if_splits)

text \<open>
  C21: No request reaches the server through the warp adapter. Listening panics, because the path of the
  routes starts with \<open>warp::path\<close> of a slash, which panics; and whatever the path filters were, every
  request would be rejected or panic before a route is taken, because no context is ever built.
\<close>

theorem no_route_is_taken:
  assumes "exact_laws exact"
  shows "listen exact path adapter = Panic \<and> (listen exact2 path adapter = Ok routes \<longrightarrow> routes rq \<noteq> Ok r)"
proof
  have "exact (lit ''/'') = Panic" using assms by (simp add: exact_laws_def lit_def)
  then show "listen exact path adapter = Panic" by (simp add: listen_def path_from_str_def)
  show "listen exact2 path adapter = Ok routes \<longrightarrow> routes rq \<noteq> Ok r"
    by (auto simp: listen_def obind_eq_Ok Let_def or_else_def context_filter_never_ok
        split: if_splits outcome.splits)
qed

section \<open>Witnesses\<close>

definition sink_ref :: "(ws_message list \<times> bool) ws_sink" where
  "sink_ref = \<lparr>ws_send = (\<lambda>m (ms, is_open). if is_open then (Ok (), (ms @ [m], True)) else (Err (), (ms, False))),
     ws_close = (\<lambda>(ms, is_open). (Ok (), (ms, False)))\<rparr>"

lemma sink_ref_laws: "sink_laws sink_ref fst snd"
  by (auto simp: sink_laws_def sink_ref_def)

theorem websocket_first_batch_witness:
  "\<exists>k'. subscribe_to_socket_commands sink_ref b64_ref \<lparr>wo_per_message_deflate = True, wo_supports_binary = True\<rparr>
      [CmdSend [noop_ref], CmdSend [ping_ref]] ([], True) = (Ok (), k') \<and>
    fst k' = [MsgBinary (bin_encode_packet noop_ref)]"
  using websocket_first_batch [OF sink_ref_laws, of "([], True)" b64_ref
      "\<lparr>wo_per_message_deflate = True, wo_supports_binary = True\<rparr>" "[noop_ref]" "[CmdSend [ping_ref]]"]
  by (auto simp: websocket_messages_def)

definition exact_ref :: exact_filter where
  "exact_ref segment = (if segment = [] \<or> 47 \<in> set segment then Panic else Ok (\<lambda>path. prefix (47 # segment) path))"

theorem no_route_is_taken_witness:
  "listen exact_ref (lit ''/engine.io'') (standalone_new server_options_default warp_adapter_options_default ()) = Panic"
  by (rule no_route_is_taken [THEN conjunct1]) (simp add: exact_laws_def exact_ref_def)

end
