(* ===== verification/Sio_Namespace.thy ===== *)
theory Sio_Namespace
  imports Sio_Decoder Engine_Transport Serde_Ref "HOL-Library.Multiset"
begin

text \<open>
  \<open>socket_io_server/src/error.rs\<close>, \<open>storage.rs\<close> and \<open>namespace.rs\<close>: namespaces, the rooms in them and
  the events sent to them. A storage is the trait \<open>Storage\<close>, which knows the rooms of the sockets and
  sends packets to them: a record of operations on a state of its own. Namespaces are shared objects
  (\<open>Arc\<close>), so they live in a heap, and a reference to one is an address in it. A \<open>HashSet\<close> is a list
  without duplicates, and \<open>order\<close> is the order in which a hash table with some keys is iterated.
\<close>

section \<open>Errors\<close>

datatype emit_error = EmptyEventName | EmitBroadcastError

fun emit_error_string :: "emit_error \<Rightarrow> rstring" where
  "emit_error_string EmptyEventName = lit ''Event name cannot be empty''"
| "emit_error_string EmitBroadcastError = lit ''Broadcast failed''"

datatype broadcast_error = BroadcastError

definition broadcast_error_string :: "broadcast_error \<Rightarrow> rstring" where
  "broadcast_error_string _ = lit ''Broadcast failed''"

definition emit_error_from :: "broadcast_error \<Rightarrow> emit_error" where
  "emit_error_from _ = EmitBroadcastError"

section \<open>Storage\<close>

record flags =
  fl_volatile :: bool
  fl_compress :: bool
  fl_local :: bool

definition flags_default :: flags where
  "flags_default = \<lparr>fl_volatile = False, fl_compress = False, fl_local = False\<rparr>"

record ('s, 'n) storage =
  st_new :: "(unit, 's) outcome"
  st_add_all :: "rstring \<Rightarrow> rstring list \<Rightarrow> ('s, unit, unit) prog"
  st_del :: "rstring \<Rightarrow> rstring \<Rightarrow> ('s, unit, unit) prog"
  st_broadcast :: "'n sio_packet \<Rightarrow> rstring list \<Rightarrow> flags \<Rightarrow> ('s, broadcast_error, unit) prog"

text \<open>Every operation of \<open>DefaultStorage\<close> is \<open>todo!()\<close>.\<close>

definition default_storage :: "(unit, 'n) storage" where
  "default_storage =
     \<lparr>st_new = Panic, st_add_all = (\<lambda>socket_id room_names. panic), st_del = (\<lambda>socket_id room_name. panic),
      st_broadcast = (\<lambda>packet rooms flags. panic)\<rparr>"

section \<open>Simple namespaces\<close>

datatype namespace_event = NsBroadcast | NsConnection rstring

record 's simple_namespace =
  sn_name :: rstring
  sn_socket_ids :: "rstring set"
  sn_ids :: nat
  sn_storage :: 's
  sn_events :: "namespace_event broadcast"

type_synonym ('s, 'e, 'x) nprog = "('s simple_namespace, 'e, 'x) prog"

definition hash_insert :: "rstring \<Rightarrow> rstring list \<Rightarrow> rstring list" where
  "hash_insert x xs = (if x \<in> set xs then xs else xs @ [x])"

definition make_hash_set_from_str :: "rstring \<Rightarrow> rstring list" where
  "make_hash_set_from_str input_str = hash_insert input_str []"

definition make_packet_for_event :: "rstring \<Rightarrow> 'n pvalue \<Rightarrow> rstring \<Rightarrow> 'n sio_packet" where
  "make_packet_for_event event_name d namespace_name =
     \<lparr>sp_type = TEvent, sp_id = None, sp_nsp = namespace_name, sp_data = VArray [VString event_name, d]\<rparr>"

definition simple_new :: "('s, 'n) storage \<Rightarrow> rstring \<Rightarrow> (unit, 's simple_namespace) outcome" where
  "simple_new ST name =
     obind (st_new ST) (\<lambda>storage.
       Ok \<lparr>sn_name = name, sn_socket_ids = {}, sn_ids = 0, sn_storage = storage, sn_events = []\<rparr>)"

definition on_storage :: "('s, 'e, 'x) prog \<Rightarrow> ('s, 'e, 'x) nprog" where
  "on_storage m = (\<lambda>ns. case m (sn_storage ns) of (r, s) \<Rightarrow> (r, ns\<lparr>sn_storage := s\<rparr>))"

text \<open>The number of receivers an event was sent to; without any, the event comes back as the error.\<close>

definition send_namespace_event :: "namespace_event \<Rightarrow> ('s, namespace_event, nat) nprog" where
  "send_namespace_event event = (\<lambda>ns.
     if sn_events ns = [] then (Err event, ns)
     else (Ok (length (sn_events ns)), ns\<lparr>sn_events := broadcast_send event (sn_events ns)\<rparr>))"

definition add_socket_to_room :: "('s, 'n) storage \<Rightarrow> rstring \<Rightarrow> rstring \<Rightarrow> ('s, unit, unit) nprog" where
  "add_socket_to_room ST socket_id room =
     andthen (on_storage (st_add_all ST socket_id (make_hash_set_from_str room))) (\<lambda>_.
     andthen (modify (\<lambda>ns. ns\<lparr>sn_socket_ids := insert socket_id (sn_socket_ids ns)\<rparr>)) (\<lambda>_.
     ignore_err (send_namespace_event (NsConnection socket_id))))"

definition add_socket :: "('s, 'n) storage \<Rightarrow> rstring \<Rightarrow> ('s, unit, unit) nprog" where
  "add_socket ST socket_id = add_socket_to_room ST socket_id socket_id"

definition remove_socket :: "('s, 'n) storage \<Rightarrow> rstring \<Rightarrow> ('s, unit, unit) nprog" where
  "remove_socket ST socket_id =
     andthen (modify (\<lambda>ns. ns\<lparr>sn_socket_ids := sn_socket_ids ns - {socket_id}\<rparr>)) (\<lambda>_.
     on_storage (st_del ST socket_id socket_id))"

definition remove_socket_from_room :: "('s, 'n) storage \<Rightarrow> rstring \<Rightarrow> rstring \<Rightarrow> ('s, unit, unit) nprog" where
  "remove_socket_from_room ST socket_id room = on_storage (st_del ST socket_id room)"

definition simple_subscribe :: "('s, unit, nat) nprog" where
  "simple_subscribe =
     andthen (gets (\<lambda>ns. length (sn_events ns))) (\<lambda>receiver.
     andthen (modify (\<lambda>ns. ns\<lparr>sn_events := broadcast_subscribe (sn_events ns)\<rparr>)) (\<lambda>_. ret receiver))"

definition simple_broadcast_packet :: "('s, 'n) storage \<Rightarrow> rstring \<Rightarrow> 'n pvalue \<Rightarrow> rstring list \<Rightarrow>
    flags \<Rightarrow> ('s, broadcast_error, unit) nprog" where
  "simple_broadcast_packet ST event_name d rooms flags =
     andthen (gets (\<lambda>ns. make_packet_for_event event_name d (sn_name ns))) (\<lambda>packet.
     on_storage (st_broadcast ST packet rooms flags))"

definition message_event_name :: rstring where
  "message_event_name = lit ''message''"

definition simple_emit_with_flags :: "('s, 'n) storage \<Rightarrow> rstring \<Rightarrow> 'n pvalue \<Rightarrow> flags \<Rightarrow>
    ('s, emit_error, unit) nprog" where
  "simple_emit_with_flags ST event_name d flags =
     prog_err emit_error_from (simple_broadcast_packet ST event_name d [] flags)"

definition simple_emit :: "('s, 'n) storage \<Rightarrow> rstring \<Rightarrow> 'n pvalue \<Rightarrow> ('s, emit_error, unit) nprog" where
  "simple_emit ST event_name d = simple_emit_with_flags ST event_name d flags_default"

definition simple_send_with_flags :: "('s, 'n) storage \<Rightarrow> 'n pvalue \<Rightarrow> flags \<Rightarrow>
    ('s, emit_error, unit) nprog" where
  "simple_send_with_flags ST d flags = simple_emit_with_flags ST message_event_name d flags"

definition simple_send :: "('s, 'n) storage \<Rightarrow> 'n pvalue \<Rightarrow> ('s, emit_error, unit) nprog" where
  "simple_send ST d = simple_send_with_flags ST d flags_default"

section \<open>Dynamic namespaces\<close>

type_synonym 's heap = "'s simple_namespace list"

definition run_at :: "nat \<Rightarrow> ('s, 'e, 'x) nprog \<Rightarrow> ('s heap, 'e, 'x) prog" where
  "run_at i m = (\<lambda>h.
     if i < length h then (case m (h ! i) of (r, ns) \<Rightarrow> (r, h[i := ns])) else (Panic, h))"

record dynamic_namespace =
  dn_members :: "(rstring \<times> nat) list"
  dn_events :: "namespace_event broadcast"

definition dynamic_new :: dynamic_namespace where
  "dynamic_new = \<lparr>dn_members = [], dn_events = []\<rparr>"

definition insert_simple_namespace :: "'s heap \<Rightarrow> nat \<Rightarrow> dynamic_namespace \<Rightarrow> dynamic_namespace" where
  "insert_simple_namespace h simple_namespace dn =
     dn\<lparr>dn_members := AList.update (sn_name (h ! simple_namespace)) simple_namespace (dn_members dn)\<rparr>"

definition dynamic_subscribe :: "(dynamic_namespace, unit, nat) prog" where
  "dynamic_subscribe =
     andthen (gets (\<lambda>dn. length (dn_events dn))) (\<lambda>receiver.
     andthen (modify (\<lambda>dn. dn\<lparr>dn_events := broadcast_subscribe (dn_events dn)\<rparr>)) (\<lambda>_. ret receiver))"

fun try_for_each :: "('a \<Rightarrow> ('s, 'e, unit) prog) \<Rightarrow> 'a list \<Rightarrow> ('s, 'e, unit) prog" where
  "try_for_each f [] = ret ()"
| "try_for_each f (x # xs) = andthen (f x) (\<lambda>_. try_for_each f xs)"

definition members_in_order :: "(rstring list \<Rightarrow> rstring list) \<Rightarrow> dynamic_namespace \<Rightarrow> nat list" where
  "members_in_order order dn = List.map_filter (map_of (dn_members dn)) (order (map fst (dn_members dn)))"

definition dynamic_broadcast_packet :: "('s, 'n) storage \<Rightarrow> (rstring list \<Rightarrow> rstring list) \<Rightarrow>
    dynamic_namespace \<Rightarrow> rstring \<Rightarrow> 'n pvalue \<Rightarrow> rstring list \<Rightarrow> flags \<Rightarrow>
    ('s heap, broadcast_error, unit) prog" where
  "dynamic_broadcast_packet ST order dn event_name d rooms flags =
     try_for_each (\<lambda>member.
       run_at member
         (andthen (gets (\<lambda>ns. make_packet_for_event event_name d (sn_name ns))) (\<lambda>packet.
          on_storage (st_broadcast ST packet rooms flags))))
       (members_in_order order dn)"

definition dynamic_emit_with_flags :: "('s, 'n) storage \<Rightarrow> (rstring list \<Rightarrow> rstring list) \<Rightarrow>
    dynamic_namespace \<Rightarrow> rstring \<Rightarrow> 'n pvalue \<Rightarrow> flags \<Rightarrow> ('s heap, emit_error, unit) prog" where
  "dynamic_emit_with_flags ST order dn event_name d flags =
     prog_err emit_error_from (dynamic_broadcast_packet ST order dn event_name d [] flags)"

definition dynamic_emit :: "('s, 'n) storage \<Rightarrow> (rstring list \<Rightarrow> rstring list) \<Rightarrow>
    dynamic_namespace \<Rightarrow> rstring \<Rightarrow> 'n pvalue \<Rightarrow> ('s heap, emit_error, unit) prog" where
  "dynamic_emit ST order dn event_name d = dynamic_emit_with_flags ST order dn event_name d flags_default"

definition dynamic_send :: "('s, 'n) storage \<Rightarrow> (rstring list \<Rightarrow> rstring list) \<Rightarrow>
    dynamic_namespace \<Rightarrow> 'n pvalue \<Rightarrow> ('s heap, emit_error, unit) prog" where
  "dynamic_send ST order dn d = dynamic_emit ST order dn message_event_name d"

definition dynamic_send_with_flags :: "('s, 'n) storage \<Rightarrow> (rstring list \<Rightarrow> rstring list) \<Rightarrow>
    dynamic_namespace \<Rightarrow> 'n pvalue \<Rightarrow> flags \<Rightarrow> ('s heap, emit_error, unit) prog" where
  "dynamic_send_with_flags ST order dn d flags =
     dynamic_emit_with_flags ST order dn message_event_name d flags"

section \<open>Filtered namespaces\<close>

text \<open>
  A (reference to a) namespace and a set of rooms. The namespace is any implementation of the trait \<open>NamespacePriv\<close>:
  \<open>bp\<close> is its \<open>broadcast_packet\<close>, a program on the state the namespace is part of.
\<close>

record 'a filtered =
  fn_namespace :: 'a
  fn_rooms :: "rstring list"

definition filtered_new :: "rstring \<Rightarrow> 'a \<Rightarrow> 'a filtered" where
  "filtered_new room namespace = \<lparr>fn_namespace = namespace, fn_rooms = hash_insert room []\<rparr>"

definition simple_to :: "nat \<Rightarrow> rstring \<Rightarrow> nat filtered" where
  "simple_to namespace room_name = filtered_new room_name namespace"

definition dynamic_to :: "nat \<Rightarrow> rstring \<Rightarrow> nat filtered" where
  "dynamic_to namespace room_name = filtered_new room_name namespace"

definition filtered_to :: "'a filtered \<Rightarrow> rstring \<Rightarrow> 'a filtered" where
  "filtered_to f room_name =
     \<lparr>fn_namespace = fn_namespace f, fn_rooms = make_hash_set_from_str room_name\<rparr>"

definition add_room :: "'a filtered \<Rightarrow> rstring \<Rightarrow> 'a filtered" where
  "add_room f room_name =
     (let rooms = fn_rooms f; rooms = hash_insert room_name rooms
      in \<lparr>fn_namespace = fn_namespace f, fn_rooms = rooms\<rparr>)"

type_synonym ('a, 'c, 'n) broadcaster =
  "'a \<Rightarrow> rstring \<Rightarrow> 'n pvalue \<Rightarrow> rstring list \<Rightarrow> flags \<Rightarrow> ('c, broadcast_error, unit) prog"

definition filtered_emit_with_flags :: "(rstring list \<Rightarrow> rstring list) \<Rightarrow> ('a, 'c, 'n) broadcaster \<Rightarrow>
    'a filtered \<Rightarrow> rstring \<Rightarrow> 'n pvalue \<Rightarrow> flags \<Rightarrow> ('c, emit_error, unit) prog" where
  "filtered_emit_with_flags order bp f event_name d flags =
     (if event_name = [] then fail EmptyEventName
      else let rooms = order (fn_rooms f)
           in prog_err emit_error_from (bp (fn_namespace f) event_name d rooms flags))"

definition filtered_emit :: "(rstring list \<Rightarrow> rstring list) \<Rightarrow> ('a, 'c, 'n) broadcaster \<Rightarrow>
    'a filtered \<Rightarrow> rstring \<Rightarrow> 'n pvalue \<Rightarrow> ('c, emit_error, unit) prog" where
  "filtered_emit order bp f event_name d = filtered_emit_with_flags order bp f event_name d flags_default"

definition filtered_send :: "(rstring list \<Rightarrow> rstring list) \<Rightarrow> ('a, 'c, 'n) broadcaster \<Rightarrow>
    'a filtered \<Rightarrow> 'n pvalue \<Rightarrow> ('c, emit_error, unit) prog" where
  "filtered_send order bp f d = filtered_emit order bp f message_event_name d"

definition filtered_send_with_flags :: "(rstring list \<Rightarrow> rstring list) \<Rightarrow> ('a, 'c, 'n) broadcaster \<Rightarrow>
    'a filtered \<Rightarrow> 'n pvalue \<Rightarrow> flags \<Rightarrow> ('c, emit_error, unit) prog" where
  "filtered_send_with_flags order bp f d flags =
     filtered_emit_with_flags order bp f message_event_name d flags"


section \<open>What emitting leaves as it is\<close>

text \<open>
  The interface \<open>NamespacePriv\<close>, as filtered namespaces use it: whatever is broadcast, \<open>view\<close>, which is
  all of the state but the storage, stays as it is.
\<close>

locale namespace_priv =
  fixes bp :: "('a, 'c, 'n) broadcaster" and view :: "'c \<Rightarrow> 'v"
  assumes broadcast_view: "view (snd (bp a event_name d rooms flags c)) = view c"
begin

lemma filtered_view: "view (snd (filtered_emit_with_flags order bp f event_name d flags c)) = view c"
  by (simp add: filtered_emit_with_flags_def prog_err_def broadcast_view Let_def split: prod.splits)
    (metis broadcast_view snd_conv)

lemma filtered_views:
  "view (snd (filtered_emit order bp f event_name d c)) = view c"
  "view (snd (filtered_send order bp f d c)) = view c"
  "view (snd (filtered_send_with_flags order bp f d flags c)) = view c"
  by (simp_all add: filtered_emit_def filtered_send_def filtered_send_with_flags_def filtered_view)

end

definition roster :: "'s simple_namespace \<Rightarrow> rstring \<times> rstring set \<times> nat \<times> namespace_event broadcast" where
  "roster ns = (sn_name ns, sn_socket_ids ns, sn_ids ns, sn_events ns)"

lemma on_storage_roster [simp]: "roster (snd (on_storage m ns)) = roster ns"
  by (simp add: on_storage_def roster_def split: prod.splits)

lemma simple_broadcast_roster: "roster (snd (simple_broadcast_packet ST event_name d rooms flags ns)) = roster ns"
  by (simp add: simple_broadcast_packet_def)

interpretation simple_priv: namespace_priv "\<lambda>_. simple_broadcast_packet ST" roster for ST
  by unfold_locales (rule simple_broadcast_roster)

lemma run_at_view:
  "(\<And>ns. v (snd (m ns)) = v ns) \<Longrightarrow> map v (snd (run_at i m h)) = map v h"
proof (cases "i < length h")
  case True
  assume "\<And>ns. v (snd (m ns)) = v ns"
  moreover have "map v (h[i := snd (m (h ! i))]) = (map v h)[i := v (snd (m (h ! i)))]"
    by (rule map_update)
  ultimately show ?thesis using True
    by (simp add: run_at_def split: prod.splits) (metis list_update_id nth_map snd_conv)
qed (simp add: run_at_def)

lemma try_for_each_view:
  "(\<And>x c. v (snd (f x c)) = v c) \<Longrightarrow> v (snd (try_for_each f xs c)) = v c"
proof (induction xs arbitrary: c)
  case (Cons x xs)
  then show ?case
    by (simp add: andthen_def split: prod.splits outcome.splits) (metis snd_conv)
qed simp

text \<open>A shared dynamic namespace, which is a reference into the list of all of them.\<close>

definition dynamic_at :: "('s, 'n) storage \<Rightarrow> (rstring list \<Rightarrow> rstring list) \<Rightarrow>
    (nat, 's heap \<times> dynamic_namespace list, 'n) broadcaster" where
  "dynamic_at ST order namespace event_name d rooms flags = (\<lambda>(h, dns).
     case dynamic_broadcast_packet ST order (dns ! namespace) event_name d rooms flags h of
       (r, h) \<Rightarrow> (r, (h, dns)))"

lemma dynamic_broadcast_roster:
  "map roster (snd (dynamic_broadcast_packet ST order dn event_name d rooms flags h)) = map roster h"
  unfolding dynamic_broadcast_packet_def by (rule try_for_each_view, rule run_at_view) simp

interpretation dynamic_priv: namespace_priv "dynamic_at ST order" "\<lambda>(h, dns). (map roster h, dns)" for ST order
proof unfold_locales
  fix namespace event_name d rooms flags c
  show "(case snd (dynamic_at ST order namespace event_name d rooms flags c) of (h, dns) \<Rightarrow> (map roster h, dns)) =
    (case c of (h, dns) \<Rightarrow> (map roster h, dns))"
    using dynamic_broadcast_roster [of ST order "snd c ! namespace" event_name d rooms flags "fst c"]
    by (auto simp: dynamic_at_def split: prod.splits)
qed

section \<open>Who is in a namespace\<close>

datatype membership_op =
    JoinRoom rstring rstring | Join rstring | Leave rstring | LeaveRoom rstring rstring

definition run_membership :: "('s, 'n) storage \<Rightarrow> membership_op \<Rightarrow> ('s, unit, unit) nprog" where
  "run_membership ST op = (case op of
     JoinRoom i r \<Rightarrow> add_socket_to_room ST i r
   | Join i \<Rightarrow> add_socket ST i
   | Leave i \<Rightarrow> remove_socket ST i
   | LeaveRoom i r \<Rightarrow> remove_socket_from_room ST i r)"

fun run_all :: "('a \<Rightarrow> ('s, 'e, unit) prog) \<Rightarrow> 'a list \<Rightarrow> 's \<Rightarrow> 's" where
  "run_all f [] s = s"
| "run_all f (x # xs) s = run_all f xs (snd (f x s))"

lemma run_all_snoc: "run_all f (xs @ [x]) s = snd (f x (run_all f xs s))"
  by (induction xs arbitrary: s) simp_all

text \<open>
  The history of a namespace: the socket an operation lets join, whether an operation lets a socket join
  or leave the namespace, and what it asks of the storage.
\<close>

fun joining :: "membership_op \<Rightarrow> rstring option" where
  "joining (JoinRoom i r) = Some i"
| "joining (Join i) = Some i"
| "joining _ = None"

definition moves :: "rstring \<Rightarrow> membership_op \<Rightarrow> bool" where
  "moves i op \<longleftrightarrow> joining op = Some i \<or> op = Leave i"

datatype storage_call = AddAll rstring "rstring list" | Del rstring rstring

fun storage_call_of :: "membership_op \<Rightarrow> storage_call" where
  "storage_call_of (JoinRoom i r) = AddAll i [r]"
| "storage_call_of (Join i) = AddAll i [i]"
| "storage_call_of (Leave i) = Del i i"
| "storage_call_of (LeaveRoom i r) = Del i r"

primrec call_storage :: "('s, 'n) storage \<Rightarrow> storage_call \<Rightarrow> ('s, unit, unit) prog" where
  "call_storage ST (AddAll i rs) = st_add_all ST i rs"
| "call_storage ST (Del i r) = st_del ST i r"

text \<open>The two operations of the storage return (they have no result, so they can only panic otherwise).\<close>

definition storage_returns :: "('s, 'n) storage \<Rightarrow> bool" where
  "storage_returns ST \<longleftrightarrow> (\<forall>c s. fst (call_storage ST c s) = Ok ())"

lemma storage_returned: "storage_returns ST \<Longrightarrow> call_storage ST c s = (Ok (), snd (call_storage ST c s))"
  by (simp add: storage_returns_def prod_eq_iff)

lemma ignore_send_event:
  "ignore_err (send_namespace_event e) ns = (Ok (), ns\<lparr>sn_events := map (\<lambda>q. q @ [e]) (sn_events ns)\<rparr>)"
  by (cases ns) (simp add: ignore_err_def send_namespace_event_def broadcast_send_def)

lemma run_membership_step:
  assumes "storage_returns ST"
  shows "snd (run_membership ST op ns) =
    ns\<lparr>sn_storage := snd (call_storage ST (storage_call_of op) (sn_storage ns)),
       sn_socket_ids := (case op of Leave i \<Rightarrow> sn_socket_ids ns - {i}
         | _ \<Rightarrow> set_option (joining op) \<union> sn_socket_ids ns),
       sn_events := map (\<lambda>q. q @ map NsConnection (List.map_filter joining [op])) (sn_events ns)\<rparr>"
proof -
  let ?c = "storage_call_of op"
  define s' where "s' = snd (call_storage ST ?c (sn_storage ns))"
  have called: "call_storage ST ?c (sn_storage ns) = (Ok (), s')"
    unfolding s'_def by (rule storage_returned [OF assms])
  have "on_storage (call_storage ST ?c) n = (Ok (), n\<lparr>sn_storage := s'\<rparr>)" if "sn_storage n = sn_storage ns" for n
    by (simp add: on_storage_def that called)
  then show ?thesis
    unfolding s'_def [symmetric]
    by (cases op) (simp_all add: run_membership_def add_socket_def add_socket_to_room_def remove_socket_def
        remove_socket_from_room_def make_hash_set_from_str_def hash_insert_def ignore_send_event
        List.map_filter_def)
qed

text \<open>
  C24: Over every sequence of joining and leaving, if the storage does not panic: a socket is in a
  namespace exactly if the last thing it did was to join it or one of its rooms and not to leave it
  (leaving a room, even the socket's own, is not leaving the namespace); every join has been sent to
  everybody who listens to the namespace, in order, again each time a socket joins that is already in
  (that a listener loses events when it is 128 behind is not modelled); and the storage has been asked,
  in order, to add the socket to the one room that is joined, and to delete it from the one room that
  is left, which for leaving the namespace is the socket's own room.
\<close>

theorem membership_history:
  fixes ns :: "'s simple_namespace"
  assumes "storage_returns ST"
  defines "after \<equiv> \<lambda>ops. run_all (run_membership ST) ops ns"
  shows "(i \<in> sn_socket_ids (after ops) \<longleftrightarrow>
      (case find (moves i) (rev ops) of Some op \<Rightarrow> joining op = Some i | None \<Rightarrow> i \<in> sn_socket_ids ns)) \<and>
    sn_events (after ops) = map (\<lambda>q. q @ map NsConnection (List.map_filter joining ops)) (sn_events ns) \<and>
    sn_storage (after ops) = run_all (call_storage ST) (map storage_call_of ops) (sn_storage ns) \<and>
    sn_name (after ops) = sn_name ns"
proof (induction ops rule: rev_induct)
  case Nil
  then show ?case by (simp add: after_def)
next
  case (snoc op ops)
  have step: "after (ops @ [op]) = snd (run_membership ST op (after ops))"
    by (simp add: after_def run_all_snoc)
  show ?case
    using snoc unfolding step run_membership_step [OF assms(1)]
    by (cases op) (auto simp: moves_def run_all_snoc List.map_filter_def)
qed

section \<open>Broadcasting to the members of a dynamic namespace\<close>

definition members_ok :: "'s heap \<Rightarrow> dynamic_namespace \<Rightarrow> bool" where
  "members_ok h dn \<longleftrightarrow> distinct (map fst (dn_members dn)) \<and>
     (\<forall>(name, i) \<in> set (dn_members dn). i < length h \<and> sn_name (h ! i) = name)"

lemma member_known: "members_ok h dn \<Longrightarrow> map_of (dn_members dn) k = Some i \<longleftrightarrow> (k, i) \<in> set (dn_members dn)"
  by (simp add: members_ok_def)

lemma member_named: "members_ok h dn \<Longrightarrow> (k, i) \<in> set (dn_members dn) \<Longrightarrow> i < length h \<and> sn_name (h ! i) = k"
  by (auto simp: members_ok_def)

lemma map_filter_some:
  "(\<And>k. k \<in> set ks \<Longrightarrow> m k = Some (g k)) \<Longrightarrow> List.map_filter m ks = map g ks"
  by (induction ks) simp_all

lemma members_in_order_ok:
  assumes ok: "members_ok h dn" and order: "\<And>ks. mset (order ks) = mset ks"
  shows "distinct (members_in_order order dn)"
    and "set (members_in_order order dn) = snd ` set (dn_members dn)"
    and "\<forall>i \<in> set (members_in_order order dn). i < length h"
proof -
  let ?ks = "order (map fst (dn_members dn))" and ?at = "\<lambda>k. the (map_of (dn_members dn) k)"
  have ks: "distinct ?ks" "set ?ks = fst ` set (dn_members dn)"
    using ok mset_eq_imp_distinct_iff [OF order] mset_eq_setD [OF order]
    by (simp_all add: members_ok_def)
  have at: "map_of (dn_members dn) k = Some (?at k)" "(k, ?at k) \<in> set (dn_members dn)" if k: "k \<in> set ?ks" for k
  proof -
    obtain i where "(k, i) \<in> set (dn_members dn)" using k unfolding ks(2) by auto
    then show "map_of (dn_members dn) k = Some (?at k)" "(k, ?at k) \<in> set (dn_members dn)"
      using member_known [OF ok, of k i] by simp_all
  qed
  from at(1) have eq: "members_in_order order dn = map ?at ?ks"
    unfolding members_in_order_def by (intro map_filter_some) blast
  have "inj_on ?at (set ?ks)"
  proof (rule inj_onI)
    fix j k
    assume jk: "j \<in> set ?ks" "k \<in> set ?ks" and same: "?at j = ?at k"
    have "j = sn_name (h ! ?at j)" using member_named [OF ok at(2) [OF jk(1)]] by (rule conjunct2 [THEN sym])
    also have "\<dots> = sn_name (h ! ?at k)" by (simp only: same)
    also have "\<dots> = k" using member_named [OF ok at(2) [OF jk(2)]] by (rule conjunct2)
    finally show "j = k" .
  qed
  with ks(1) show "distinct (members_in_order order dn)"
    by (simp add: eq distinct_map)
  have "?at (fst x) = snd x" if "x \<in> set (dn_members dn)" for x
    using that member_known [OF ok, of "fst x" "snd x"] by simp
  then show eqs: "set (members_in_order order dn) = snd ` set (dn_members dn)"
    unfolding eq set_map ks(2) image_image by (intro image_cong) simp_all
  show "\<forall>i \<in> set (members_in_order order dn). i < length h"
    unfolding eqs using member_named [OF ok] by auto
qed

text \<open>
  What the storage of a member does with the packet, and what becomes of the member; \<open>reached\<close> are the
  members the packet gets to, up to and including the first one whose storage fails.
\<close>

definition member_broadcast :: "('s, 'n) storage \<Rightarrow> rstring \<Rightarrow> 'n pvalue \<Rightarrow> rstring list \<Rightarrow> flags \<Rightarrow>
    's simple_namespace \<Rightarrow> (broadcast_error, unit) outcome \<times> 's simple_namespace" where
  "member_broadcast ST event_name d rooms flags ns =
     on_storage (st_broadcast ST (make_packet_for_event event_name d (sn_name ns)) rooms flags) ns"

fun reached :: "('a \<Rightarrow> bool) \<Rightarrow> 'a list \<Rightarrow> 'a list" where
  "reached ok [] = []"
| "reached ok (x # xs) = (if ok x then x # reached ok xs else [x])"

lemma reached_subset: "set (reached ok xs) \<subseteq> set xs"
  by (induction xs) auto

lemma reached_cong: "(\<And>x. x \<in> set xs \<Longrightarrow> ok x = ok' x) \<Longrightarrow> reached ok xs = reached ok' xs"
  by (induction xs) auto

lemma reached_all: "list_all ok xs \<Longrightarrow> reached ok xs = xs"
  by (induction xs) auto

lemma reached_not_Nil: "xs \<noteq> [] \<Longrightarrow> reached ok xs \<noteq> []"
  by (cases xs) simp_all

lemma try_for_each_run_at:
  fixes m :: "('s, 'e, unit) nprog"
  assumes "distinct ms" and "\<forall>i \<in> set ms. i < length h"
  shows "try_for_each (\<lambda>i. run_at i m) ms h =
      (if list_all (\<lambda>i. fst (m (h ! i)) = Ok ()) ms then Ok ()
       else fst (m (h ! last (reached (\<lambda>i. fst (m (h ! i)) = Ok ()) ms))),
       map (\<lambda>i. if i \<in> set (reached (\<lambda>i. fst (m (h ! i)) = Ok ()) ms) then snd (m (h ! i)) else h ! i)
         [0..<length h])"
  using assms
proof (induction ms arbitrary: h)
  case Nil
  then show ?case by (simp add: map_nth)
next
  case (Cons i ms)
  obtain r ns where m: "m (h ! i) = (r, ns)" by force
  have i: "i < length h" "i \<notin> set ms" using Cons.prems by auto
  have run: "run_at i m h = (r, h[i := ns])" using i by (simp add: run_at_def m)
  show ?case
  proof (cases "r = Ok ()")
    case True
    let ?ok = "\<lambda>j. fst (m (h ! j)) = Ok ()" and ?ok' = "\<lambda>j. fst (m (h[i := ns] ! j)) = Ok ()"
    have nth: "j \<in> set ms \<Longrightarrow> h[i := ns] ! j = h ! j" for j
      using i(2) by (metis nth_list_update_neq)
    have same: "reached ?ok' ms = reached ?ok ms"
      by (rule reached_cong) (simp add: nth)
    have all: "list_all ?ok' ms = list_all ?ok ms"
      by (rule list.pred_cong) (simp_all add: nth)
    have notin: "i \<notin> set (reached ?ok ms)" using i(2) reached_subset [of ?ok ms] by blast
    have last: "h[i := ns] ! last (reached ?ok ms) = h ! last (reached ?ok ms)" if "\<not> list_all ?ok ms"
    proof -
      have "ms \<noteq> []" using that by (cases ms) simp_all
      then have "reached ?ok ms \<noteq> []" by (rule reached_not_Nil)
      then show ?thesis using notin last_in_set [of "reached ?ok ms"] by (metis nth_list_update_neq)
    qed
    have upd: "map (\<lambda>j. if j \<in> set (reached ?ok ms) then snd (m (h[i := ns] ! j)) else h[i := ns] ! j) [0..<length h] =
      map (\<lambda>j. if j \<in> set (reached ?ok (i # ms)) then snd (m (h ! j)) else h ! j) [0..<length h]"
      by (rule map_cong) (use notin i(1) True m in \<open>auto simp: nth_list_update\<close>)
    have "try_for_each (\<lambda>i. run_at i m) (i # ms) h = try_for_each (\<lambda>i. run_at i m) ms (h[i := ns])"
      by (simp add: run True)
    also have "\<dots> = (if list_all ?ok ms then Ok () else fst (m (h ! last (reached ?ok ms))),
      map (\<lambda>j. if j \<in> set (reached ?ok (i # ms)) then snd (m (h ! j)) else h ! j) [0..<length h])"
      using Cons.IH [of "h[i := ns]"] Cons.prems last unfolding same all length_list_update upd by auto
    finally show ?thesis using True m reached_not_Nil [of ms ?ok] by (cases "ms = []") auto
  next
    case False
    then have "andthen (run_at i m) g h = (r, h[i := ns])" for g :: "unit \<Rightarrow> ('s heap, 'e, unit) prog"
      using run by (cases r) simp_all
    moreover have "h[i := ns] = map (\<lambda>j. if j = i then ns else h ! j) [0..<length h]"
      by (rule nth_equalityI) (simp_all add: nth_list_update)
    ultimately show ?thesis using False by (simp add: m)
  qed
qed

lemma prog_err_eq: "prog_err h m s = (map_err h (fst (m s)), snd (m s))"
  by (simp add: prog_err_def split: prod.splits)

text \<open>
  C25: An event emitted on a dynamic namespace goes to its members in the order of their table, each one
  once, under its own name and through its own storage, up to the first storage that fails, whose error
  is the result; the members after it are left as they are, and all other namespaces too.
\<close>

theorem dynamic_emit_reaches:
  fixes ST :: "('s, 'n) storage" and event_name d flags
  assumes "members_ok h dn" and "\<And>ks. mset (order ks) = mset ks"
  defines "ms \<equiv> members_in_order order dn"
    and "b \<equiv> member_broadcast ST event_name d [] flags"
  defines "got \<equiv> reached (\<lambda>i. fst (b (h ! i)) = Ok ()) ms"
  shows "dynamic_emit_with_flags ST order dn event_name d flags h =
      (if list_all (\<lambda>i. fst (b (h ! i)) = Ok ()) ms then Ok ()
       else map_err emit_error_from (fst (b (h ! last got))),
       map (\<lambda>i. if i \<in> set got then snd (b (h ! i)) else h ! i) [0..<length h]) \<and>
    distinct ms \<and> set ms = snd ` set (dn_members dn)"
proof -
  note ok = members_in_order_ok [where order = order, OF assms(1,2), folded ms_def]
  have "andthen (gets (\<lambda>ns. make_packet_for_event event_name d (sn_name ns)))
      (\<lambda>packet. on_storage (st_broadcast ST packet [] flags)) = b"
    by (simp add: fun_eq_iff b_def member_broadcast_def)
  then have "dynamic_broadcast_packet ST order dn event_name d [] flags = try_for_each (\<lambda>i. run_at i b) ms"
    by (simp add: dynamic_broadcast_packet_def ms_def)
  with try_for_each_run_at [OF ok(1,3), of b, folded got_def] ok(1,2) show ?thesis
    by (simp add: dynamic_emit_with_flags_def prog_err_eq)
qed

section \<open>Events\<close>

text \<open>
  An event sent to everybody in a namespace with a well-formed name reaches the storage as one
  packet, for no room in particular, and a client that decodes the text of this packet gets the same
  event with the same data, if the data has neither objects nor binary values, no floats, and less than
  127 levels.
\<close>

theorem emitted_event_decodes:
  assumes "nom_laws is_digit N" and "serde_laws S" and "nsp_ok (sn_name ns)"
    and "object_free d" and "binaries d = []"
    and "readable_json S (JArray [JString event_name, fst (deconstruct S d [])])"
  shows "\<exists>p e. simple_emit ST event_name d ns =
      prog_err emit_error_from (on_storage (st_broadcast ST p [] flags_default)) ns \<and>
    sio_encode_packet S p = Ok e \<and> decode_proto_packet oc N S (ep_packet e) = Ok (Plain p) \<and>
    sp_data p = VArray [VString event_name, d] \<and> sp_nsp p = sn_name ns"
proof -
  let ?p = "make_packet_for_event event_name d (sn_name ns)"
  have "fst (deconstruct S (sp_data ?p) []) = JArray [JString event_name, fst (deconstruct S d [])]"
    by (simp add: make_packet_for_event_def split: prod.splits)
  with assms(6) have "is_payload_valid (sp_type ?p) (fst (deconstruct S (sp_data ?p) []))"
    "readable_json S (fst (deconstruct S (sp_data ?p) []))"
    by (simp_all add: is_payload_valid_def make_packet_for_event_def)
  then obtain e where "sio_encode_packet S ?p = Ok e"
    "decode_proto_packet oc N S (ep_packet e) = Ok (Plain ?p)"
    using plain_packet_roundtrip [OF assms(1,2), of ?p oc] assms(3-5)
    by (auto simp: make_packet_for_event_def)
  moreover have "simple_emit ST event_name d ns =
      prog_err emit_error_from (on_storage (st_broadcast ST ?p [] flags_default)) ns"
    by (simp add: simple_emit_def simple_emit_with_flags_def simple_broadcast_packet_def prog_err_def)
  ultimately show ?thesis
    by (intro exI [of _ ?p] exI [of _ e]) (simp add: make_packet_for_event_def)
qed

text \<open>
  A filter made for one room and widened by \<open>add_room\<close> targets exactly these rooms, each one once;
  \<open>to\<close>, which the documentation says widens it too, replaces them by the new room. An event without a
  name is refused by every filter, on every kind of namespace, before anything is sent.
\<close>

theorem filtered_rooms:
  "set (fn_rooms (foldl add_room (filtered_new r ns) rs)) = insert r (set rs) \<and>
   distinct (fn_rooms (foldl add_room (filtered_new r ns) rs)) \<and>
   fn_namespace (foldl add_room (filtered_new r ns) rs) = ns \<and>
   fn_rooms (filtered_to (foldl add_room (filtered_new r ns) rs) q) = [q] \<and>
   filtered_emit_with_flags order bp f [] d flags c = (Err EmptyEventName, c)"
proof -
  have "set (fn_rooms (foldl add_room (filtered_new r ns) rs)) = insert r (set rs) \<and>
   distinct (fn_rooms (foldl add_room (filtered_new r ns) rs)) \<and>
   fn_namespace (foldl add_room (filtered_new r ns) rs) = ns"
    by (induction rs rule: rev_induct)
      (auto simp: filtered_new_def add_room_def hash_insert_def Let_def)
  then show ?thesis
    by (simp add: filtered_to_def make_hash_set_from_str_def hash_insert_def filtered_emit_with_flags_def)
qed


section \<open>Witnesses\<close>

text \<open>A storage that keeps the rooms, and one that counts the packets and fails in one namespace.\<close>

definition storage_ref :: "((rstring \<times> rstring) list, nat) storage" where
  "storage_ref =
     \<lparr>st_new = Ok [], st_add_all = (\<lambda>i rs s. (Ok (), s @ map (Pair i) rs)),
      st_del = (\<lambda>i r s. (Ok (), removeAll (i, r) s)), st_broadcast = (\<lambda>p rooms flags s. (Ok (), s))\<rparr>"

definition counting_ref :: "(nat, nat) storage" where
  "counting_ref =
     \<lparr>st_new = Ok 0, st_add_all = (\<lambda>i rs s. (Ok (), s)), st_del = (\<lambda>i r s. (Ok (), s)),
      st_broadcast = (\<lambda>p rooms flags s.
        (if sp_nsp p = lit ''/b'' then Err BroadcastError else Ok (), Suc s))\<rparr>"

abbreviation namespace_ref :: "rstring \<Rightarrow> 's \<Rightarrow> 's simple_namespace" where
  "namespace_ref name s \<equiv> \<lparr>sn_name = name, sn_socket_ids = {}, sn_ids = 0, sn_storage = s, sn_events = []\<rparr>"

lemma storage_ref_returns: "storage_returns storage_ref"
  unfolding storage_returns_def
proof (intro allI)
  fix c s
  show "fst (call_storage storage_ref c s) = Ok ()" by (cases c) (simp_all add: storage_ref_def)
qed

theorem membership_history_witness:
  "sn_storage (run_all (run_membership storage_ref) [JoinRoom (lit ''x'') (lit ''r''), Leave (lit ''x'')]
     (namespace_ref (lit ''/'') [])) = [(lit ''x'', lit ''r'')] \<and>
   lit ''x'' \<notin> sn_socket_ids (run_all (run_membership storage_ref)
     [JoinRoom (lit ''x'') (lit ''r''), Leave (lit ''x'')] (namespace_ref (lit ''/'') []))"
  using membership_history [OF storage_ref_returns, of "lit ''x''"
      "[JoinRoom (lit ''x'') (lit ''r''), Leave (lit ''x'')]" "namespace_ref (lit ''/'') []"]
  by (simp add: storage_ref_def moves_def lit_def)

theorem dynamic_emit_reaches_witness:
  "dynamic_emit_with_flags counting_ref rev \<lparr>dn_members = [(lit ''/a'', 0), (lit ''/b'', 1)], dn_events = []\<rparr>
     (lit ''e'') VNull flags_default [namespace_ref (lit ''/a'') 0, namespace_ref (lit ''/b'') 0] =
   (Err EmitBroadcastError, [namespace_ref (lit ''/a'') 0, namespace_ref (lit ''/b'') 1])"
proof -
  let ?h = "[namespace_ref (lit ''/a'') 0, namespace_ref (lit ''/b'') (0 :: nat)]"
  let ?dn = "\<lparr>dn_members = [(lit ''/a'', 0), (lit ''/b'', 1)], dn_events = []\<rparr>"
  have "members_ok ?h ?dn" by (simp add: members_ok_def lit_def)
  moreover have "mset (rev ks) = mset ks" for ks :: "rstring list" by simp
  moreover have "members_in_order rev ?dn = [1, 0]"
    by (simp add: members_in_order_def List.map_filter_def lit_def)
  ultimately show ?thesis
    using dynamic_emit_reaches [of ?h ?dn rev counting_ref "lit ''e''" VNull flags_default]
    by (simp add: member_broadcast_def on_storage_def counting_ref_def make_packet_for_event_def
        lit_def emit_error_from_def upt_rec numeral_2_eq_2)
qed

theorem emitted_event_decodes_witness:
  "\<exists>p e. simple_emit storage_ref (lit ''e'') (VBool True) (namespace_ref (lit ''/a'') []) =
      prog_err emit_error_from (on_storage (st_broadcast storage_ref p [] flags_default)) (namespace_ref (lit ''/a'') []) \<and>
    sio_encode_packet serde_ref p = Ok e \<and>
    decode_proto_packet True (nom_ref is_digit :: (uchar, packet) nom) serde_ref (ep_packet e) = Ok (Plain p) \<and>
    sp_data p = VArray [VString (lit ''e''), VBool True] \<and> sp_nsp p = lit ''/a''"
  using emitted_event_decodes [OF nom_ref_laws serde_ref_laws, where ns = "namespace_ref (lit ''/a'') []" and
      d = "VBool True" and ST = storage_ref and event_name = "lit ''e''" and oc = True] nsp_ok_a(1)
  by (simp add: readable_json_def serde_ref_def)

end
