(* ===== verification/Sio_Connection.thy ===== *)
theory Sio_Connection
  imports Sio_Namespace
begin

text \<open>
  \<open>socket_io_server/src/socket.rs\<close> and \<open>connection.rs\<close>: the sockets of one Engine.IO connection and the
  decoder that waits for the attachments of a packet. The time of a handshake comes from \<open>chrono\<close> and
  socket ids from \<open>uuid\<close>; both are arguments. A connection creates sockets in namespaces, so these
  programs work on the connection and the heap of the namespaces.
\<close>

section \<open>Sockets\<close>

record ('t, 'n) handshake_info =
  hi_headers :: "rstring \<rightharpoonup> rstring"
  hi_time :: 't
  hi_address :: rstring
  hi_xdomain :: bool
  hi_secure :: bool
  hi_issued :: int
  hi_url :: rstring
  hi_query :: "rstring \<rightharpoonup> rstring"
  hi_auth :: "'n pvalue"

definition handshake_new :: "('t \<Rightarrow> int) \<Rightarrow> 't \<Rightarrow> request_context \<Rightarrow> 'n pvalue \<Rightarrow> ('t, 'n) handshake_info" where
  "handshake_new timestamp now context auth =
     \<lparr>hi_headers = rc_headers context, hi_time = now, hi_address = rc_remote_address context,
      hi_xdomain = (rc_origin context \<noteq> None), hi_secure = rc_secure context, hi_issued = timestamp now,
      hi_url = rc_request_url context, hi_query = rc_query context, hi_auth = auth\<rparr>"

record ('t, 'n) sio_socket =
  ss_id :: rstring
  ss_state :: unit
  ss_namespace :: rstring
  ss_handshake :: "('t, 'n) handshake_info"

definition sio_socket_new :: "rstring \<Rightarrow> ('t, 'n) handshake_info \<Rightarrow> rstring \<Rightarrow> ('t, 'n) sio_socket" where
  "sio_socket_new new_id handshake namespace =
     \<lparr>ss_id = new_id, ss_state = (), ss_namespace = namespace, ss_handshake = handshake\<rparr>"

definition get_handshake :: "('t, 'n) sio_socket \<Rightarrow> ('t, 'n) handshake_info" where
  "get_handshake so = ss_handshake so"

text \<open>Every arm is \<open>todo!()\<close>.\<close>

definition socket_handle_packet :: "('t, 'n) sio_socket \<Rightarrow> 'n sio_packet \<Rightarrow> (unit, unit) outcome" where
  "socket_handle_packet so p = (case sp_type p of
     TEvent \<Rightarrow> Panic | TBinaryEvent \<Rightarrow> Panic | TAck \<Rightarrow> Panic | TBinaryAck \<Rightarrow> Panic
   | TDisconnect \<Rightarrow> Panic | TConnectError \<Rightarrow> Panic | _ \<Rightarrow> Panic)"

section \<open>Connections\<close>

text \<open>The type of the errors of a decoder, from \<open>socket_io_parser/src/decoder.rs\<close>.\<close>

datatype 'e decode_error = DecodeFailed 'e | InvalidDecoderState

fun decode_error_string :: "('e \<Rightarrow> ('f, rstring) outcome) \<Rightarrow> 'e decode_error \<Rightarrow> ('f, rstring) outcome" where
  "decode_error_string print InvalidDecoderState = Ok (lit ''Decoder is in an invalid state for this connection'')"
| "decode_error_string print (DecodeFailed err) = obind (print err) (\<lambda>printed. Ok (lit ''Decode failed: '' @ printed))"

lemma decode_failure_does_not_print: "decode_error_string handle_error_string (DecodeFailed err) = Panic"
  by (simp add: handle_error_string_def)

record ('s, 't, 'n, 'd) connection =
  cn_id :: rstring
  cn_sockets :: "(rstring \<times> ('t, 'n) sio_socket) list"
  cn_namespaces :: "(rstring \<times> rstring \<times> 's simple_namespace) list"
  cn_decoder :: "'d option"

datatype add_to_namespace_success = Added rstring | AlreadyExisting rstring

datatype 'p decode_binary_success = DecodeDone 'p | InProgress

type_synonym ('s, 't, 'n, 'd, 'x) cprog =
  "(('s, 't, 'n, 'd) connection \<times> 's heap, unit, 'x) prog"

definition create_socket :: "('s, 'n) storage \<Rightarrow> rstring \<Rightarrow> ('t, 'n) handshake_info \<Rightarrow> nat \<Rightarrow>
    ('s, 't, 'n, 'd, rstring) cprog" where
  "create_socket ST new_id handshake namespace = (\<lambda>(cn, h).
     let so = sio_socket_new new_id handshake (sn_name (h ! namespace));
         socket_id = ss_id so;
         cn = cn\<lparr>cn_sockets := AList.update (ss_id so) so (cn_sockets cn)\<rparr>
     in case run_at namespace (add_socket ST socket_id) h of
          (r, h) \<Rightarrow> (obind r (\<lambda>_. Ok socket_id), (cn, h)))"

definition connection_empty :: "rstring \<Rightarrow> ('s, 't, 'n, 'd) connection" where
  "connection_empty engine_connection_id =
     \<lparr>cn_id = engine_connection_id, cn_sockets = [], cn_namespaces = [], cn_decoder = None\<rparr>"

definition initialize :: "('s, 'n) storage \<Rightarrow> rstring \<Rightarrow> rstring \<Rightarrow> ('t, 'n) handshake_info \<Rightarrow> nat \<Rightarrow>
    ('s heap, unit, ('s, 't, 'n, 'd) connection \<times> rstring) prog" where
  "initialize ST new_id engine_connection_id handshake namespace = (\<lambda>h.
     case create_socket ST new_id handshake namespace (connection_empty engine_connection_id, h) of
       (r, (cn, h)) \<Rightarrow> (obind r (\<lambda>socket_id. Ok (cn, socket_id)), h))"

definition add_to_namespace :: "('s, 'n) storage \<Rightarrow> rstring \<Rightarrow> ('t, 'n) handshake_info \<Rightarrow> nat \<Rightarrow>
    ('s, 't, 'n, 'd, add_to_namespace_success) cprog" where
  "add_to_namespace ST new_id handshake namespace = (\<lambda>(cn, h).
     case map_of (cn_namespaces cn) (sn_name (h ! namespace)) of
       Some (socket_id, _) \<Rightarrow> (Ok (AlreadyExisting socket_id), (cn, h))
     | None \<Rightarrow>
         (case create_socket ST new_id handshake namespace (cn, h) of
            (r, s) \<Rightarrow> (obind r (\<lambda>socket_id. Ok (Added socket_id)), s)))"

definition socket_ids :: "('s, 't, 'n, 'd) connection \<Rightarrow> rstring list" where
  "socket_ids cn = map fst (cn_sockets cn)"

text \<open>
  \<open>add\<close> and \<open>collect\<close> are \<open>decode_binary_data\<close> and \<open>collect_packet\<close> of the decoder. The decoder is taken
  out of the state, and an error returns before it is put back.
\<close>

definition connection_decode :: "('d \<Rightarrow> bytes \<Rightarrow> ('e, bool) outcome \<times> 'd) \<Rightarrow> ('d \<Rightarrow> 'p option) \<Rightarrow>
    bytes \<Rightarrow> (('s, 't, 'n, 'd) connection, 'e decode_error, 'p decode_binary_success) prog" where
  "connection_decode add collect buffer = (\<lambda>cn.
     case cn_decoder cn of
       Some decoder \<Rightarrow>
         (let cn = cn\<lparr>cn_decoder := None\<rparr>
          in case add decoder buffer of
               (Ok done, decoder) \<Rightarrow>
                 if done
                 then (obind (unwrap_opt (collect decoder)) (\<lambda>packet. Ok (DecodeDone packet)), cn)
                 else (Ok InProgress, cn\<lparr>cn_decoder := Some decoder\<rparr>)
             | (Err err, _) \<Rightarrow> (Err (DecodeFailed err), cn)
             | (Panic, _) \<Rightarrow> (Panic, cn))
     | None \<Rightarrow> (Err InvalidDecoderState, cn))"

definition set_decoder :: "'d \<Rightarrow> (('s, 't, 'n, 'd) connection, 'e decode_error, unit) prog" where
  "set_decoder decoder = (\<lambda>cn.
     if cn_decoder cn = None then (Ok (), cn\<lparr>cn_decoder := Some decoder\<rparr>)
     else (Err InvalidDecoderState, cn))"

definition connection_handle_packet :: "('s, 't, 'n, 'd) connection \<Rightarrow> 'n sio_packet \<Rightarrow> (unit, unit) outcome" where
  "connection_handle_packet cn p =
     (case map_of (cn_namespaces cn) (sp_nsp p) of
        Some (socket_id, _) \<Rightarrow>
          (case map_of (cn_sockets cn) socket_id of
             Some so \<Rightarrow> socket_handle_packet so p
           | None \<Rightarrow> Ok ())
      | None \<Rightarrow> Ok ())"

text \<open>
  Dropping the state of a connection: its sockets leave the namespaces it records. These are its own,
  so only whether this panics can be seen.
\<close>

definition connection_drop :: "('s, 'n) storage \<Rightarrow> ('s, 't, 'n, 'd) connection \<Rightarrow> (unit, unit) outcome" where
  "connection_drop ST cn =
     foldr (\<lambda>(_, socket_id, namespace) r. obind (fst (remove_socket ST socket_id namespace)) (\<lambda>_. r))
       (cn_namespaces cn) (Ok ())"


section \<open>Attachments that arrive one by one\<close>

fun decode_all :: "('d \<Rightarrow> bytes \<Rightarrow> ('e, bool) outcome \<times> 'd) \<Rightarrow> ('d \<Rightarrow> 'p option) \<Rightarrow>
    bytes list \<Rightarrow> ('s, 't, 'n, 'd) connection \<Rightarrow>
    ('e decode_error, 'p decode_binary_success) outcome list \<times> ('s, 't, 'n, 'd) connection" where
  "decode_all add collect [] cn = ([], cn)"
| "decode_all add collect (d # ds) cn =
     (let (r, cn) = connection_decode add collect d cn;
          (rs, cn) = decode_all add collect ds cn
      in (r # rs, cn))"

text \<open>
  A connection with any decoder that keeps the contract: while attachments are missing it says so, and
  the last one gives the packet and frees the decoder. The \<open>unwrap\<close> in \<open>decode_binary_data\<close> is safe.
\<close>

context attachment_decoder
begin

lemma connection_decode_step:
  assumes "inv s" and "pending s = Suc n"
  shows "connection_decode add collect d (cn\<lparr>cn_decoder := Some s\<rparr>) =
      (if n = 0 then (Ok (DecodeDone (the (collect (snd (add s d))))), cn\<lparr>cn_decoder := None\<rparr>)
       else (Ok InProgress, cn\<lparr>cn_decoder := Some (snd (add s d))\<rparr>)) \<and>
    inv (snd (add s d)) \<and> pending (snd (add s d)) = n"
proof -
  from add_missing [OF assms, of d] obtain s' where s': "add s d = (Ok (n = 0), s')" "pending s' = n" "inv s'"
    by blast
  moreover have "n = 0 \<Longrightarrow> \<exists>p. collect s' = Some p" using collect_iff [OF s'(3)] s'(2) by simp
  ultimately show ?thesis by (auto simp: connection_decode_def Let_def)
qed

lemma decode_all_pending:
  assumes "inv s" and "pending s = length ds" and "ds \<noteq> []"
  shows "decode_all add collect ds (cn\<lparr>cn_decoder := Some s\<rparr>) =
    (replicate (length ds - 1) (Ok InProgress) @ [Ok (DecodeDone (the (collect (feed add s ds))))],
     cn\<lparr>cn_decoder := None\<rparr>)"
  using assms
proof (induction ds arbitrary: s)
  case (Cons d ds)
  then have "pending s = Suc (length ds)" by simp
  note step = connection_decode_step [OF Cons.prems(1) this, of d cn]
  show ?case
  proof (cases ds)
    case Nil
    with step show ?thesis by simp
  next
    case (Cons d' ds')
    then have ds: "ds \<noteq> []" by simp
    then have len: "replicate (length ds) x = x # replicate (length ds - 1) x" for x by (cases ds) simp_all
    have "decode_all add collect (d # ds) (cn\<lparr>cn_decoder := Some s\<rparr>) =
      (let (rs, cn) = decode_all add collect ds (cn\<lparr>cn_decoder := Some (snd (add s d))\<rparr>)
       in (Ok InProgress # rs, cn))"
      using step ds by simp
    with step ds Cons.IH [of "snd (add s d)"] show ?thesis by (simp add: len)
  qed
qed simp

end

lemma connection_collects:
  fixes cn :: "('s, 't, 'n, 'n default_decoder) connection"
  assumes "serde_laws S" and "object_free v" and "length (binaries v) < 2 ^ 32" and "binaries v \<noteq> []"
    and "mh_data h = fst (deconstruct S v [])" and "mh_count h = length (binaries v)"
    and idle: "cn_decoder cn = None"
  shows "decode_all decode_binary_data (collect_packet S) (binaries v) (cn\<lparr>cn_decoder := Some (decoder_new h)\<rparr>) =
      (replicate (length (binaries v) - 1) (Ok InProgress) @
        [Ok (DecodeDone \<lparr>sp_type = from_binary_type (mh_type h), sp_id = mh_id h,
            sp_nsp = (case mh_nsp h of Some nsp \<Rightarrow> nsp | None \<Rightarrow> lit ''/''), sp_data = v\<rparr>)], cn)"
proof -
  note all = collect_all_attachments [OF assms(1,2,3,5,6)]
  have cn: "cn\<lparr>cn_decoder := None\<rparr> = cn" using idle by (cases cn) simp
  have "decode_all decode_binary_data (collect_packet S) (binaries v) (cn\<lparr>cn_decoder := Some (decoder_new h)\<rparr>) =
    (replicate (length (binaries v) - 1) (Ok InProgress) @
      [Ok (DecodeDone (the (collect_packet S (feed decode_binary_data (decoder_new h) (binaries v)))))], cn)"
    using dd.decode_all_pending [OF dd.new(1), of h "binaries v" S cn] dd.new(2) [of h] assms(4,6) cn by simp
  then show ?thesis by (simp add: all)
qed

text \<open>
  C22: A connection that is given the header of a packet whose data has no objects, at least one
  attachment and fewer than \<open>2 ^ 32\<close>, and then the attachments one by one, answers every one but the
  last with \<open>InProgress\<close>, and the last one with the packet, in which every attachment is where it was;
  then it is free for the next header. Before the header, and after the last attachment, binary data is
  an error; a second header while attachments are missing too.
\<close>

theorem connection_collects_packet:
  fixes cn :: "('s, 't, 'n, 'n default_decoder) connection"
  assumes "serde_laws S" and "object_free v" and "length (binaries v) < 2 ^ 32" and "binaries v \<noteq> []"
    and "mh_data h = fst (deconstruct S v [])" and "mh_count h = length (binaries v)"
    and idle: "cn_decoder cn = None"
  shows "decode_all decode_binary_data (collect_packet S) (binaries v) (snd (set_decoder (decoder_new h) cn)) =
      (replicate (length (binaries v) - 1) (Ok InProgress) @
        [Ok (DecodeDone \<lparr>sp_type = from_binary_type (mh_type h), sp_id = mh_id h,
            sp_nsp = (case mh_nsp h of Some nsp \<Rightarrow> nsp | None \<Rightarrow> lit ''/''), sp_data = v\<rparr>)], cn) \<and>
    connection_decode decode_binary_data (collect_packet S) d cn = (Err InvalidDecoderState, cn) \<and>
    set_decoder dec2 (snd (set_decoder (decoder_new h) cn)) =
      (Err InvalidDecoderState :: ('e decode_error, unit) outcome, snd (set_decoder (decoder_new h) cn))"
  using connection_collects [OF assms] by (simp add: connection_decode_def set_decoder_def idle)


section \<open>Witnesses\<close>

theorem connection_collects_packet_witness:
  "decode_all decode_binary_data (collect_packet serde_ref) [[1], [2]]
     (snd (set_decoder (decoder_new \<lparr>mh_type = BBinaryEvent, mh_id = None, mh_nsp = None,
         mh_data = JArray [make_placeholder serde_ref 0, make_placeholder serde_ref 1], mh_count = 2\<rparr>)
       (connection_empty (lit ''c'') :: (unit, unit, nat, nat default_decoder) connection))) =
   ([Ok InProgress, Ok (DecodeDone \<lparr>sp_type = TBinaryEvent, sp_id = None, sp_nsp = lit ''/'',
        sp_data = VArray [VBinary [1], VBinary [2]]\<rparr>)], connection_empty (lit ''c''))"
  using connection_collects_packet [OF serde_ref_laws, of "VArray [VBinary [1], VBinary [2]]"
      "\<lparr>mh_type = BBinaryEvent, mh_id = None, mh_nsp = None,
         mh_data = JArray [make_placeholder serde_ref 0, make_placeholder serde_ref 1], mh_count = 2\<rparr>"
      "connection_empty (lit ''c'') :: (unit, unit, nat, nat default_decoder) connection", THEN conjunct1]
  by (simp add: connection_empty_def del: decode_all.simps)

end
