(* ===== verification/Sio_Server.thy ===== *)
theory Sio_Server
  imports Sio_Connection Engine_Server
begin

text \<open>
  \<open>socket_io_server/src/server.rs\<close>: the Socket.IO server. It is generic in the adapter, the storage and the
  parser, which are the record \<open>generics\<close>. Each event of the Engine.IO server is handled by a task of its
  own, and the tasks run one after the other here. What \<open>handle_new_message\<close> gives to the responder is its
  result, \<open>None\<close> when the responder is dropped. \<open>now\<close> and \<open>new_id\<close> are the time and the next random id.
\<close>

section \<open>Options\<close>

record listen_options =
  lo_path :: rstring
  lo_handle_preflight_request :: "nat option"
  lo_destroy_upgrade_timeout :: "32 word option"

definition listen_options_default :: listen_options where
  "listen_options_default =
     \<lparr>lo_path = lit ''/engine.io'', lo_handle_preflight_request = None, lo_destroy_upgrade_timeout = Some 1000\<rparr>"

record sio_server_options =
  sso_connect_timeout :: "32 word"
  sso_buffer_factor :: nat

definition sio_server_options_default :: sio_server_options where
  "sio_server_options_default = \<lparr>sso_connect_timeout = 45000, sso_buffer_factor = 2\<rparr>"

record 'o sio_options =
  sop_engine :: server_options
  sop_adapter :: 'o
  sop_listen :: listen_options
  sop_socketio :: sio_server_options

definition sio_options_default :: "'o \<Rightarrow> 'o sio_options" where
  "sio_options_default adapter_options =
     \<lparr>sop_engine = server_options_default, sop_adapter = adapter_options,
      sop_listen = listen_options_default\<lparr>lo_path := lit ''/socket.io''\<rparr>,
      sop_socketio = sio_server_options_default\<rparr>"

section \<open>State\<close>

datatype sio_event = SioError rstring

datatype get_result = IsNew | IsExisting

datatype 'x namespace_descriptor = DescText rstring | DescRegex 'x | DescFunction nat

datatype namespace_kind = SimpleKind nat | DynamicKind nat

datatype not_found = NotFoundError

definition not_found_string :: "not_found \<Rightarrow> rstring" where
  "not_found_string _ = lit ''Client or namespace not found''"

record ('a, 'o) sio_adapter =
  ad_new :: "server_options \<Rightarrow> 'o \<Rightarrow> 'a"
  ad_subscribe :: "('a, unit, unit) prog"
  ad_close_socket :: "rstring \<Rightarrow> ('a, unit, unit) prog"

record ('d, 'e, 'n) parser =
  ps_decode_proto :: "rstring \<Rightarrow> ('e, 'n proto_packet) outcome"
  ps_new :: "'n multipart_header \<Rightarrow> 'd"
  ps_decode_binary :: "'d \<Rightarrow> bytes \<Rightarrow> ('e, bool) outcome \<times> 'd"
  ps_collect :: "'d \<Rightarrow> 'n sio_packet option"
  ps_encode :: "'n sio_packet \<Rightarrow> (unit, encoded_packet) outcome"

definition default_parser :: "bool \<Rightarrow> (uchar, 'o) nom \<Rightarrow> 'n serde \<Rightarrow>
    ('n default_decoder, handle_error, 'n) parser" where
  "default_parser oc N S =
     \<lparr>ps_decode_proto = decode_proto_packet oc N S, ps_new = decoder_new,
      ps_decode_binary = decode_binary_data, ps_collect = collect_packet S,
      ps_encode = sio_encode_packet S\<rparr>"

text \<open>
  \<open>g_match\<close> is what the regular expressions and functions given to \<open>make_dynamic_namespace\<close> decide:
  regular expressions belong to the crate \<open>regex\<close>, and the functions to the user.
\<close>

record ('a, 'o, 's, 'd, 'e, 'x, 't, 'n) generics =
  g_adapter :: "('a, 'o) sio_adapter"
  g_storage :: "('s, 'n) storage"
  g_parser :: "('d, 'e, 'n) parser"
  g_regex :: "'x \<Rightarrow> rstring \<Rightarrow> bool"
  g_function :: "nat \<Rightarrow> rstring \<Rightarrow> 'n pvalue \<Rightarrow> bool"
  g_timestamp :: "'t \<Rightarrow> int"

record ('a, 's, 'd, 'x, 't, 'n) sio_shared =
  sh_adapter :: 'a
  sh_dynamic :: "('x namespace_descriptor \<times> nat) list"
  sh_temp :: "nat option"
  sh_listening :: bool
  sh_connections :: "rstring \<rightharpoonup> ('s, 't, 'n, 'd) connection"
  sh_namespaces :: "rstring \<rightharpoonup> nat"
  sh_lookup :: "rstring \<rightharpoonup> rstring"
  sh_events :: "sio_event broadcast"
  sh_heap :: "'s heap"
  sh_dynamic_heap :: "dynamic_namespace list"

type_synonym ('a, 's, 'd, 'x, 't, 'n, 'y) ioprog =
  "(('a, 's, 'd, 'x, 't, 'n) sio_shared, unit, 'y) prog"

text \<open>A broadcast channel panics if its capacity is 0 or more than half of the range of \<open>usize\<close>.\<close>

definition sio_server_new :: "bool \<Rightarrow> ('a, 'o, 's, 'd, 'e, 'x, 't, 'n) generics \<Rightarrow> 'o sio_options \<Rightarrow>
    (unit, ('a, 's, 'd, 'x, 't, 'n) sio_shared) outcome" where
  "sio_server_new oc G options =
     (let adapter = ad_new (g_adapter G) (sop_engine options) (sop_adapter options)
      in obind (chk_up oc 64 (sso_buffer_factor (sop_socketio options) * 32)) (\<lambda>capacity.
         if capacity = 0 \<or> capacity > (2 ^ 64 - 1) div 2 then Panic
         else Ok \<lparr>sh_adapter = adapter, sh_dynamic = [], sh_temp = Some 0, sh_listening = False,
                  sh_connections = Map.empty, sh_namespaces = Map.empty, sh_lookup = Map.empty,
                  sh_events = [[]], sh_heap = [], sh_dynamic_heap = []\<rparr>))"

section \<open>Namespaces\<close>

definition on_adapter :: "('a, unit, 'y) prog \<Rightarrow> ('a, 's, 'd, 'x, 't, 'n, 'y) ioprog" where
  "on_adapter m = (\<lambda>sh. case m (sh_adapter sh) of (r, a) \<Rightarrow> (r, sh\<lparr>sh_adapter := a\<rparr>))"

definition on_heap :: "('s heap, unit, 'y) prog \<Rightarrow> ('a, 's, 'd, 'x, 't, 'n, 'y) ioprog" where
  "on_heap m = (\<lambda>sh. case m (sh_heap sh) of (r, h) \<Rightarrow> (r, sh\<lparr>sh_heap := h\<rparr>))"

definition send_error :: "rstring \<Rightarrow> ('a, 's, 'd, 'x, 't, 'n, unit) ioprog" where
  "send_error message = modify (\<lambda>sh. sh\<lparr>sh_events := broadcast_send (SioError message) (sh_events sh)\<rparr>)"

definition namespace_key :: "rstring \<Rightarrow> rstring" where
  "namespace_key name = (if \<not> prefix (lit ''/'') name then lit ''/'' @ name else name)"

definition get_or_create_namespace :: "('a, 'o, 's, 'd, 'e, 'x, 't, 'n) generics \<Rightarrow> rstring \<Rightarrow>
    ('a, 's, 'd, 'x, 't, 'n, nat \<times> get_result) ioprog" where
  "get_or_create_namespace G name = (\<lambda>sh.
     let name = namespace_key name
     in case sh_namespaces sh name of
          Some namespace \<Rightarrow> (Ok (namespace, IsExisting), sh)
        | None \<Rightarrow>
            (case simple_new (g_storage G) name of
               Ok ns \<Rightarrow>
                 (let namespace = length (sh_heap sh)
                  in (Ok (namespace, IsNew),
                      sh\<lparr>sh_heap := sh_heap sh @ [ns],
                         sh_namespaces := (sh_namespaces sh)(name \<mapsto> namespace)\<rparr>))
             | Err e \<Rightarrow> (Err e, sh)
             | Panic \<Rightarrow> (Panic, sh)))"

definition get_namespace :: "('a, 'o, 's, 'd, 'e, 'x, 't, 'n) generics \<Rightarrow> rstring \<Rightarrow>
    ('a, 's, 'd, 'x, 't, 'n, nat) ioprog" where
  "get_namespace G name = andthen (get_or_create_namespace G name) (\<lambda>(namespace, _). ret namespace)"

definition match_fn :: "('a, 'o, 's, 'd, 'e, 'x, 't, 'n) generics \<Rightarrow> 'x namespace_descriptor \<Rightarrow>
    rstring \<Rightarrow> 'n pvalue \<Rightarrow> bool" where
  "match_fn G descriptor name auth = (case descriptor of
     DescFunction f \<Rightarrow> g_function G f name auth
   | DescRegex regex \<Rightarrow> g_regex G regex name
   | DescText t \<Rightarrow> name = t)"

definition make_dynamic_namespace :: "'x namespace_descriptor \<Rightarrow>
    ('a, 's, 'd, 'x, 't, 'n, nat) ioprog" where
  "make_dynamic_namespace namespace_descriptor =
     andthen (gets (\<lambda>sh. length (sh_dynamic_heap sh))) (\<lambda>dynamic_namespace.
     andthen (modify (\<lambda>sh. sh\<lparr>sh_dynamic_heap := sh_dynamic_heap sh @ [dynamic_new]\<rparr>)) (\<lambda>_.
     andthen (modify (\<lambda>sh. sh\<lparr>sh_dynamic := sh_dynamic sh @ [(namespace_descriptor, dynamic_namespace)]\<rparr>)) (\<lambda>_.
     ret dynamic_namespace)))"

definition server_of :: "('a, 'o, 's, 'd, 'e, 'x, 't, 'n) generics \<Rightarrow> 'x namespace_descriptor \<Rightarrow>
    ('a, 's, 'd, 'x, 't, 'n, namespace_kind) ioprog" where
  "server_of G namespace_descriptor = (case namespace_descriptor of
     DescText name \<Rightarrow> andthen (get_namespace G name) (\<lambda>ns. ret (SimpleKind ns))
   | _ \<Rightarrow> andthen (make_dynamic_namespace namespace_descriptor) (\<lambda>ns. ret (DynamicKind ns)))"

definition namespace_exists :: "rstring \<Rightarrow> ('a, 's, 'd, 'x, 't, 'n, bool) ioprog" where
  "namespace_exists name = gets (\<lambda>sh. sh_namespaces sh name \<noteq> None)"

definition get_matching_dynamic_namespace :: "('a, 'o, 's, 'd, 'e, 'x, 't, 'n) generics \<Rightarrow> rstring \<Rightarrow>
    'n pvalue \<Rightarrow> ('a, 's, 'd, 'x, 't, 'n, nat option) ioprog" where
  "get_matching_dynamic_namespace G namespace_name auth =
     andthen (gets sh_dynamic) (\<lambda>dynamic_namespaces.
     if dynamic_namespaces = [] then ret None
     else let dynamic_namespace =
            map_option snd (find (\<lambda>(check_fn, _). match_fn G check_fn namespace_name auth) dynamic_namespaces)
          in case dynamic_namespace of
               Some dn \<Rightarrow>
                 andthen (get_or_create_namespace G namespace_name) (\<lambda>(simple_namespace, result).
                 andthen (whenp (result = IsNew) (modify (\<lambda>sh.
                     sh\<lparr>sh_dynamic_heap := (sh_dynamic_heap sh)[dn :=
                       insert_simple_namespace (sh_heap sh) simple_namespace (sh_dynamic_heap sh ! dn)]\<rparr>))) (\<lambda>_.
                 ret dynamic_namespace))
             | None \<Rightarrow> ret dynamic_namespace)"

section \<open>Connections\<close>

definition add_connection :: "('a, 'o, 's, 'd, 'e, 'x, 't, 'n) generics \<Rightarrow> rstring \<Rightarrow> nat \<Rightarrow> rstring \<Rightarrow>
    ('t, 'n) handshake_info \<Rightarrow> ('a, 's, 'd, 'x, 't, 'n, rstring) ioprog" where
  "add_connection G new_id namespace engine_connection_id hs =
     andthen (gets (\<lambda>sh. sh_connections sh engine_connection_id)) (\<lambda>existing.
     andthen
       (case existing of
          Some existing_connection \<Rightarrow> (\<lambda>sh.
            case add_to_namespace (g_storage G) new_id hs namespace (existing_connection, sh_heap sh) of
              (r, (cn, h)) \<Rightarrow>
                (obind r (\<lambda>success. case success of
                     Added socket_id \<Rightarrow> Ok socket_id
                   | AlreadyExisting socket_id \<Rightarrow> Ok socket_id),
                 sh\<lparr>sh_connections := (sh_connections sh)(engine_connection_id \<mapsto> cn), sh_heap := h\<rparr>))
        | None \<Rightarrow>
            andthen (on_heap (initialize (g_storage G) new_id engine_connection_id hs namespace))
              (\<lambda>(connection, socket_id).
            andthen (modify (\<lambda>sh.
                sh\<lparr>sh_connections := (sh_connections sh)(engine_connection_id \<mapsto> connection)\<rparr>)) (\<lambda>_.
            ret socket_id))) (\<lambda>socket_id.
     andthen (modify (\<lambda>sh. sh\<lparr>sh_lookup := (sh_lookup sh)(socket_id \<mapsto> engine_connection_id)\<rparr>)) (\<lambda>_.
     ret socket_id)))"

definition remove_connection :: "('a, 'o, 's, 'd, 'e, 'x, 't, 'n) generics \<Rightarrow> rstring \<Rightarrow>
    ('a, 's, 'd, 'x, 't, 'n, bool) ioprog" where
  "remove_connection G engine_connection_id =
     andthen (gets (\<lambda>sh. sh_connections sh engine_connection_id)) (\<lambda>existing.
     case existing of
       Some connection \<Rightarrow>
         andthen (modify (\<lambda>sh. sh\<lparr>sh_connections := (sh_connections sh)(engine_connection_id := None)\<rparr>)) (\<lambda>_.
         andthen (modify (\<lambda>sh. sh\<lparr>sh_lookup :=
             foldl (\<lambda>lookup socket_id. lookup(socket_id := None)) (sh_lookup sh) (socket_ids connection)\<rparr>)) (\<lambda>_.
         andthen (lift (connection_drop (g_storage G) connection)) (\<lambda>_. ret True)))
     | None \<Rightarrow> ret False)"

definition setup_connect_timer :: "rstring \<Rightarrow> ('a, 's, 'd, 'x, 't, 'n, unit) ioprog" where
  "setup_connect_timer connection_id = panic"

definition clear_connect_timer :: "rstring \<Rightarrow> ('a, 's, 'd, 'x, 't, 'n, unit) ioprog" where
  "clear_connect_timer connection_id = panic"

definition connect_client :: "('a, 'o, 's, 'd, 'e, 'x, 't, 'n) generics \<Rightarrow> 't \<Rightarrow> rstring \<Rightarrow>
    request_context \<Rightarrow> rstring \<Rightarrow> rstring \<Rightarrow> 'n pvalue \<Rightarrow> ('a, 's, 'd, 'x, 't, 'n, nat \<times> rstring) ioprog" where
  "connect_client G now new_id context namespace_name engine_connection_id auth =
     andthen (clear_connect_timer engine_connection_id) (\<lambda>_.
     andthen (get_or_create_namespace G namespace_name) (\<lambda>(namespace, _).
     let hs = handshake_new (g_timestamp G) now context auth
     in andthen (add_connection G new_id namespace engine_connection_id hs) (\<lambda>socket_id.
        ret (namespace, socket_id))))"

section \<open>Messages\<close>

definition handle_engine_socket_close :: "('a, 'o, 's, 'd, 'e, 'x, 't, 'n) generics \<Rightarrow> rstring \<Rightarrow>
    ('a, 's, 'd, 'x, 't, 'n, unit) ioprog" where
  "handle_engine_socket_close G engine_connection_id =
     andthen (remove_connection G engine_connection_id) (\<lambda>_. ret ())"

definition handle_client_connect :: "('a, 'o, 's, 'd, 'e, 'x, 't, 'n) generics \<Rightarrow> 't \<Rightarrow> rstring \<Rightarrow>
    request_context \<Rightarrow> rstring \<Rightarrow> rstring \<Rightarrow> 'n pvalue \<Rightarrow> ('a, 's, 'd, 'x, 't, 'n, 'n sio_packet) ioprog" where
  "handle_client_connect G now new_id context namespace_name engine_connection_id auth =
     andthen (namespace_exists namespace_name) (\<lambda>known.
     andthen
       (if known
        then andthen (connect_client G now new_id context namespace_name engine_connection_id auth) (\<lambda>r. ret (Ok r))
        else andthen (get_matching_dynamic_namespace G namespace_name auth) (\<lambda>found.
             case found of
               Some _ \<Rightarrow>
                 andthen (connect_client G now new_id context namespace_name engine_connection_id auth) (\<lambda>r. ret (Ok r))
             | None \<Rightarrow> ret (Err (lit ''Invalid namespace'')))) (\<lambda>connect_result.
     case connect_result of
       Ok (namespace, socket_id) \<Rightarrow>
         andthen (gets (\<lambda>sh. sn_name (sh_heap sh ! namespace))) (\<lambda>name.
         ret \<lparr>sp_type = TConnect, sp_id = None, sp_nsp = name,
              sp_data = from_json (JObject [(lit ''sid'', JString socket_id)])\<rparr>)
     | Err err_text \<Rightarrow>
         ret \<lparr>sp_type = TConnectError, sp_id = None, sp_nsp = namespace_name,
              sp_data = from_json (JObject [(lit ''message'', JString err_text)])\<rparr>
     | Panic \<Rightarrow> panic))"

definition handle_packet_from_client :: "('a, 'o, 's, 'd, 'e, 'x, 't, 'n) generics \<Rightarrow> 't \<Rightarrow> rstring \<Rightarrow>
    request_context \<Rightarrow> rstring \<Rightarrow> 'n sio_packet \<Rightarrow> ('a, 's, 'd, 'x, 't, 'n, packet list option) ioprog" where
  "handle_packet_from_client G now new_id context engine_connection_id p =
     (case sp_type p of
        TConnect \<Rightarrow>
          andthen (handle_client_connect G now new_id context (sp_nsp p) engine_connection_id (sp_data p))
            (\<lambda>connect_packet.
          andthen (lift (ps_encode (g_parser G) connect_packet)) (\<lambda>encoded_packet.
          ret (Some (encoded_into_engine encoded_packet))))
      | _ \<Rightarrow>
          andthen (gets (\<lambda>sh. sh_connections sh engine_connection_id)) (\<lambda>existing.
          case existing of
            Some connection \<Rightarrow> andthen (lift (connection_handle_packet connection p)) (\<lambda>_. ret None)
          | None \<Rightarrow> ret None))"

text \<open>A program on the connection of a client; \<open>None\<close> if there is no such connection.\<close>

definition on_connection :: "rstring \<Rightarrow> (('s, 't, 'n, 'd) connection, 'f, 'y) prog \<Rightarrow>
    ('a, 's, 'd, 'x, 't, 'n, ('f, 'y) outcome option) ioprog" where
  "on_connection i m = (\<lambda>sh.
     case sh_connections sh i of
       None \<Rightarrow> (Ok None, sh)
     | Some cn \<Rightarrow>
         (case m cn of (r, cn) \<Rightarrow>
            (if r = Panic then Panic else Ok (Some r), sh\<lparr>sh_connections := (sh_connections sh)(i \<mapsto> cn)\<rparr>)))"

definition handle_new_message :: "('a, 'o, 's, 'd, 'e, 'x, 't, 'n) generics \<Rightarrow> 't \<Rightarrow> rstring \<Rightarrow>
    request_context \<Rightarrow> rstring \<Rightarrow> packet_data \<Rightarrow> ('a, 's, 'd, 'x, 't, 'n, packet list option) ioprog" where
  "handle_new_message G now new_id context engine_connection_id d =
     (case d of
        PdText t \<Rightarrow>
          (case ps_decode_proto (g_parser G) t of
             Err _ \<Rightarrow> andthen (send_error (lit ''Bad packet'')) (\<lambda>_. ret None)
           | Panic \<Rightarrow> panic
           | Ok proto_packet \<Rightarrow>
               (case proto_packet of
                  Multipart header \<Rightarrow>
                    if header_has_attachments header then
                      andthen (on_connection engine_connection_id (set_decoder (ps_new (g_parser G) header)))
                        (\<lambda>r :: ('e decode_error, unit) outcome option.
                      case r of
                        Some (Err _) \<Rightarrow> andthen (send_error (lit ''sequence error'')) (\<lambda>_. ret None)
                      | _ \<Rightarrow> ret None)
                    else ret None
                | Plain p \<Rightarrow> handle_packet_from_client G now new_id context engine_connection_id p))
      | PdBinary buffer \<Rightarrow>
          andthen (on_connection engine_connection_id
              (connection_decode (ps_decode_binary (g_parser G)) (ps_collect (g_parser G)) buffer)) (\<lambda>r.
          case r of
            Some (Ok (DecodeDone p)) \<Rightarrow> handle_packet_from_client G now new_id context engine_connection_id p
          | _ \<Rightarrow> ret None)
      | PdEmpty \<Rightarrow> ret None)"

section \<open>Engine.IO events\<close>

definition subscribe_to_engine_events :: "('a, 'o, 's, 'd, 'e, 'x, 't, 'n) generics \<Rightarrow>
    ('a, 's, 'd, 'x, 't, 'n, unit) ioprog" where
  "subscribe_to_engine_events G =
     andthen (on_adapter (ad_subscribe (g_adapter G))) (\<lambda>_.
     modify (\<lambda>sh. sh\<lparr>sh_listening := True\<rparr>))"

text \<open>The task of one event.\<close>

definition on_engine_event :: "('a, 'o, 's, 'd, 'e, 'x, 't, 'n) generics \<Rightarrow> 't \<Rightarrow> rstring \<Rightarrow>
    server_event \<Rightarrow> ('a, 's, 'd, 'x, 't, 'n, packet list option) ioprog" where
  "on_engine_event G now new_id message =
     (case message of
        VConnection connection_id \<Rightarrow> andthen (setup_connect_timer connection_id) (\<lambda>_. ret None)
      | VClose connection_id reason \<Rightarrow>
          andthen (handle_engine_socket_close G connection_id) (\<lambda>_. ret None)
      | VMessage connection_id context d \<Rightarrow> handle_new_message G now new_id context connection_id d
      | VError connection_id \<Rightarrow>
          andthen (on_adapter (ad_close_socket (g_adapter G) connection_id)) (\<lambda>_. ret None)
      | _ \<Rightarrow> ret None)"

definition sio_subscribe :: "('a, 'o, 's, 'd, 'e, 'x, 't, 'n) generics \<Rightarrow>
    ('a, 's, 'd, 'x, 't, 'n, nat) ioprog" where
  "sio_subscribe G =
     andthen (gets sh_temp) (\<lambda>event_receiver_temp.
     andthen (modify (\<lambda>sh. sh\<lparr>sh_temp := None\<rparr>)) (\<lambda>_.
     case event_receiver_temp of
       Some event_receiver \<Rightarrow> andthen (subscribe_to_engine_events G) (\<lambda>_. ret event_receiver)
     | None \<Rightarrow>
         andthen (gets (\<lambda>sh. length (sh_events sh))) (\<lambda>receiver.
         andthen (modify (\<lambda>sh. sh\<lparr>sh_events := broadcast_subscribe (sh_events sh)\<rparr>)) (\<lambda>_. ret receiver))))"

text \<open>The remaining methods of the server are \<open>todo!()\<close>.\<close>

definition send_message :: "rstring \<Rightarrow> 'n pvalue \<Rightarrow> ('a, 's, 'd, 'x, 't, 'n, unit) ioprog" where
  "send_message socket_id d = panic"

definition send_packet_to_namespace :: "rstring \<Rightarrow> 'n pvalue \<Rightarrow> ('a, 's, 'd, 'x, 't, 'n, unit) ioprog" where
  "send_packet_to_namespace namespace_name d = panic"

definition join_room :: "rstring \<Rightarrow> rstring \<Rightarrow> ('a, 's, 'd, 'x, 't, 'n, unit) ioprog" where
  "join_room socket_id room_name = panic"


section \<open>Nobody is ever connected\<close>

definition namespaces_ok :: "('a, 's, 'd, 'x, 't, 'n) sio_shared \<Rightarrow> bool" where
  "namespaces_ok sh \<longleftrightarrow>
     (\<forall>name i. sh_namespaces sh name = Some i \<longrightarrow>
        i < length (sh_heap sh) \<and> sn_name (sh_heap sh ! i) = name \<and> namespace_key name = name) \<and>
     (\<forall>f d. (f, d) \<in> set (sh_dynamic sh) \<longrightarrow> d < length (sh_dynamic_heap sh)) \<and>
     (\<forall>dn \<in> set (sh_dynamic_heap sh). members_ok (sh_heap sh) dn)"

definition sio_inv :: "('a, 's, 'd, 'x, 't, 'n) sio_shared \<Rightarrow> bool" where
  "sio_inv sh \<longleftrightarrow> namespaces_ok sh \<and> sh_connections sh = Map.empty \<and> sh_lookup sh = Map.empty \<and>
     (\<forall>ns \<in> set (sh_heap sh). sn_socket_ids ns = {})"

definition sio_keep :: "('a, 's, 'd, 'x, 't, 'n) sio_shared \<Rightarrow> ('a, 's, 'd, 'x, 't, 'n) sio_shared \<Rightarrow> bool" where
  "sio_keep sh sh' \<longleftrightarrow> (sio_inv sh \<longrightarrow> sio_inv sh')"

interpretation sio_steps: step_relation sio_keep
  by unfold_locales (simp_all add: sio_keep_def)

lemma members_ok_append: "members_ok h dn \<Longrightarrow> members_ok (h @ h') dn"
  by (auto simp: members_ok_def nth_append)

lemma members_ok_alt: "members_ok h dn \<longleftrightarrow> distinct (map fst (dn_members dn)) \<and>
    (\<forall>name i. map_of (dn_members dn) name = Some i \<longrightarrow> i < length h \<and> sn_name (h ! i) = name)"
  by (auto simp: members_ok_def)

lemma members_ok_insert:
  "members_ok h dn \<Longrightarrow> i < length h \<Longrightarrow> members_ok h (insert_simple_namespace h i dn)"
  by (simp add: members_ok_alt insert_simple_namespace_def distinct_update update_conv')

lemma members_ok_empty: "members_ok h dynamic_new"
  by (simp add: members_ok_def dynamic_new_def)

lemma namespace_key_idem [simp]: "namespace_key (namespace_key name) = namespace_key name"
  by (simp add: namespace_key_def)

lemma get_or_create_cases:
  assumes "get_or_create_namespace G name sh = (r, sh')"
  obtains (existing) i where "sh_namespaces sh (namespace_key name) = Some i" "r = Ok (i, IsExisting)" "sh' = sh"
  | (created) ns where "sh_namespaces sh (namespace_key name) = None"
      "simple_new (g_storage G) (namespace_key name) = Ok ns" "r = Ok (length (sh_heap sh), IsNew)"
      "sh' = sh\<lparr>sh_heap := sh_heap sh @ [ns],
               sh_namespaces := (sh_namespaces sh)(namespace_key name \<mapsto> length (sh_heap sh))\<rparr>"
  | (failed) "\<forall>x. r \<noteq> Ok x" "sh' = sh"
  using assms
  by (auto simp: get_or_create_namespace_def Let_def split: option.splits outcome.splits)

lemma simple_new_Ok: "simple_new ST name = Ok ns \<Longrightarrow> sn_name ns = name \<and> sn_socket_ids ns = {}"
  by (auto simp: simple_new_def)

lemma namespaces_ok_create:
  assumes "namespaces_ok sh" and "sn_name ns = namespace_key name"
  shows "namespaces_ok (sh\<lparr>sh_heap := sh_heap sh @ [ns],
    sh_namespaces := (sh_namespaces sh)(namespace_key name \<mapsto> length (sh_heap sh))\<rparr>)"
  using assms by (auto simp: namespaces_ok_def members_ok_append nth_append intro: less_SucI)

lemma get_or_create_ok:
  assumes "get_or_create_namespace G name sh = (r, sh')" and "namespaces_ok sh"
  shows "namespaces_ok sh' \<and> sh_dynamic sh' = sh_dynamic sh \<and> sh_dynamic_heap sh' = sh_dynamic_heap sh \<and>
    sh_connections sh' = sh_connections sh \<and> sh_lookup sh' = sh_lookup sh \<and>
    (\<forall>ns \<in> set (sh_heap sh'). ns \<in> set (sh_heap sh) \<or> sn_socket_ids ns = {}) \<and>
    (\<forall>i res. r = Ok (i, res) \<longrightarrow> i < length (sh_heap sh') \<and> sn_name (sh_heap sh' ! i) = namespace_key name \<and>
      sh_namespaces sh' (namespace_key name) = Some i)"
  using assms(1)
proof (cases rule: get_or_create_cases)
  case (existing i)
  then show ?thesis using assms(2) by (simp add: namespaces_ok_def)
next
  case (created ns)
  then show ?thesis
    using namespaces_ok_create [OF assms(2), of ns name] simple_new_Ok [OF created(2)] by simp
next
  case failed
  then show ?thesis using assms(2) by simp
qed

lemma get_or_create_inv: "sio_inv sh \<Longrightarrow> sio_inv (snd (get_or_create_namespace G name sh))"
  using get_or_create_ok [OF surjective_pairing] by (fastforce simp: sio_inv_def)

lemma get_or_create_keeps: "keeps sio_keep (get_or_create_namespace G name)"
  unfolding keeps_def sio_keep_def using get_or_create_inv by blast

lemma find_none: "find P xs = None \<longleftrightarrow> \<not> list_ex P xs"
  by (induction xs) auto

lemma get_matching_none:
  assumes "\<not> list_ex (\<lambda>(f, _). match_fn G f name auth) (sh_dynamic sh)"
  shows "get_matching_dynamic_namespace G name auth sh = (Ok None, sh)"
proof -
  have "find (\<lambda>(f, _). match_fn G f name auth) (sh_dynamic sh) = None"
    by (rule find_none [THEN iffD2, OF assms])
  then show ?thesis by (simp add: get_matching_dynamic_namespace_def Let_def)
qed

lemma get_matching_some:
  assumes "list_ex (\<lambda>(f, _). match_fn G f name auth) (sh_dynamic sh)"
  obtains f dn where "find (\<lambda>(f, _). match_fn G f name auth) (sh_dynamic sh) = Some (f, dn)"
    "(f, dn) \<in> set (sh_dynamic sh)"
    "get_matching_dynamic_namespace G name auth sh =
      (case get_or_create_namespace G name sh of
         (Ok (i, res), sh') \<Rightarrow> (Ok (Some dn), if res = IsNew then sh'\<lparr>sh_dynamic_heap := (sh_dynamic_heap sh')[dn :=
             insert_simple_namespace (sh_heap sh') i (sh_dynamic_heap sh' ! dn)]\<rparr> else sh')
       | (Err e, sh') \<Rightarrow> (Err e, sh') | (Panic, sh') \<Rightarrow> (Panic, sh'))"
proof -
  obtain f dn where fd: "find (\<lambda>(f, _). match_fn G f name auth) (sh_dynamic sh) = Some (f, dn)"
    using assms find_none [of "\<lambda>(f, _). match_fn G f name auth" "sh_dynamic sh"] by fastforce
  moreover from this have "(f, dn) \<in> set (sh_dynamic sh)"
    by (auto simp: find_Some_iff in_set_conv_nth)
  moreover have "sh_dynamic sh \<noteq> []" using assms by auto
  ultimately show thesis
    by (intro that) (auto simp: get_matching_dynamic_namespace_def andthen_def Let_def whenp_def
        split: prod.splits outcome.splits)
qed

lemma get_matching_ok:
  assumes "namespaces_ok sh"
  shows "namespaces_ok (snd (get_matching_dynamic_namespace G name auth sh)) \<and>
    (sio_inv sh \<longrightarrow> sio_inv (snd (get_matching_dynamic_namespace G name auth sh)))"
proof (cases "list_ex (\<lambda>(f, _). match_fn G f name auth) (sh_dynamic sh)")
  case False
  then show ?thesis using assms by (simp add: get_matching_none)
next
  case True
  then obtain f dn where fd: "(f, dn) \<in> set (sh_dynamic sh)" and
    m: "get_matching_dynamic_namespace G name auth sh =
      (case get_or_create_namespace G name sh of
         (Ok (i, res), sh') \<Rightarrow> (Ok (Some dn), if res = IsNew then sh'\<lparr>sh_dynamic_heap := (sh_dynamic_heap sh')[dn :=
             insert_simple_namespace (sh_heap sh') i (sh_dynamic_heap sh' ! dn)]\<rparr> else sh')
       | (Err e, sh') \<Rightarrow> (Err e, sh') | (Panic, sh') \<Rightarrow> (Panic, sh'))"
    by (rule get_matching_some)
  obtain r sh' where r: "get_or_create_namespace G name sh = (r, sh')" by force
  note ok = get_or_create_ok [OF r assms]
  have ins: "namespaces_ok (sh'\<lparr>sh_dynamic_heap := (sh_dynamic_heap sh')[dn :=
      insert_simple_namespace (sh_heap sh') i (sh_dynamic_heap sh' ! dn)]\<rparr>)" if "r = Ok (i, res)" for i res
  proof -
    have "dn < length (sh_dynamic_heap sh')"
      using fd assms ok by (auto simp: namespaces_ok_def)
    then have "members_ok (sh_heap sh') (insert_simple_namespace (sh_heap sh') i (sh_dynamic_heap sh' ! dn))"
      using ok that by (intro members_ok_insert) (simp_all add: namespaces_ok_def)
    with ok show ?thesis
      by (auto simp: namespaces_ok_def dest!: set_update_subset_insert [THEN subsetD])
  qed
  show ?thesis
    unfolding m r using ok ins by (auto simp: sio_inv_def split: outcome.splits)
qed


lemma sio_invD: "sio_inv sh \<Longrightarrow> sh_connections sh = Map.empty" "sio_inv sh \<Longrightarrow> sh_lookup sh = Map.empty"
  "sio_inv sh \<Longrightarrow> namespaces_ok sh" "sio_inv sh \<Longrightarrow> ns \<in> set (sh_heap sh) \<Longrightarrow> sn_socket_ids ns = {}"
  by (simp_all add: sio_inv_def)

lemma keepI: "(\<And>sh. sio_inv sh \<Longrightarrow> sio_inv (snd (m sh))) \<Longrightarrow> keeps sio_keep m"
  by (simp add: keeps_def sio_keep_def)

lemma keepD: "keeps sio_keep m \<Longrightarrow> sio_inv sh \<Longrightarrow> sio_inv (snd (m sh))"
  by (simp add: keeps_def sio_keep_def)

lemma get_matching_keeps: "keeps sio_keep (get_matching_dynamic_namespace G name auth)"
  by (rule keepI) (simp add: get_matching_ok sio_invD)

lemma connect_client_panics: "connect_client G now new_id rc name i auth = panic"
  by (simp add: connect_client_def clear_connect_timer_def)

lemma on_connection_none: "sio_inv sh \<Longrightarrow> on_connection i m sh = (Ok None, sh)"
  by (simp add: on_connection_def sio_invD)

lemma on_connection_keeps: "keeps sio_keep (on_connection i m)"
  by (rule keepI) (simp add: on_connection_none)

lemma modify_keeps: "(\<And>sh. sio_inv sh \<Longrightarrow> sio_inv (u sh)) \<Longrightarrow> keeps sio_keep (modify u)"
  by (rule keepI) simp

lemma on_adapter_keeps: "keeps sio_keep (on_adapter m)"
  by (rule keepI) (simp add: on_adapter_def sio_inv_def namespaces_ok_def split: prod.splits)

lemma remove_connection_none: "sio_inv sh \<Longrightarrow> remove_connection G i sh = (Ok False, sh)"
  by (simp add: remove_connection_def sio_invD)

lemma handle_client_connect_keeps: "keeps sio_keep (handle_client_connect G now new_id rc name i auth)"
  unfolding handle_client_connect_def namespace_exists_def connect_client_panics
  by (intro sio_steps.keeps_rules; clarsimp split: option.split outcome.split;
      intro conjI impI allI sio_steps.keeps_rules get_matching_keeps;
      clarsimp split: option.split; intro conjI impI allI sio_steps.keeps_rules)

lemma handle_packet_keeps: "keeps sio_keep (handle_packet_from_client G now new_id rc i p)"
  unfolding handle_packet_from_client_def
  by (auto intro!: sio_steps.keeps_rules handle_client_connect_keeps split: sio_type.splits option.splits)

lemma send_error_keeps: "keeps sio_keep (send_error message)"
  unfolding send_error_def by (rule modify_keeps) (simp add: sio_inv_def namespaces_ok_def)

lemma handle_new_message_keeps: "keeps sio_keep (handle_new_message G now new_id rc i d)"
  unfolding handle_new_message_def
  by (auto intro!: sio_steps.keeps_rules handle_packet_keeps send_error_keeps on_connection_keeps
      split: packet_data.splits outcome.splits proto_packet.splits option.splits decode_binary_success.splits)

lemma remove_connection_keeps: "keeps sio_keep (remove_connection G i)"
  by (rule keepI) (simp add: remove_connection_none)

lemma on_engine_event_keeps: "keeps sio_keep (on_engine_event G now new_id message)"
  unfolding on_engine_event_def handle_engine_socket_close_def setup_connect_timer_def
  by (auto intro!: sio_steps.keeps_rules handle_new_message_keeps on_adapter_keeps remove_connection_keeps
      split: server_event.splits)

lemma get_namespace_keeps: "keeps sio_keep (get_namespace G name)"
  unfolding get_namespace_def
  by (auto intro!: sio_steps.keeps_rules get_or_create_keeps)

lemma make_dynamic_keeps: "keeps sio_keep (make_dynamic_namespace descriptor)"
  by (rule keepI)
    (auto simp: make_dynamic_namespace_def sio_inv_def namespaces_ok_def members_ok_empty intro: less_SucI)

lemma server_of_keeps: "keeps sio_keep (server_of G descriptor)"
  unfolding server_of_def
  by (auto intro!: sio_steps.keeps_rules get_namespace_keeps make_dynamic_keeps split: namespace_descriptor.splits)

lemma subscribe_keeps: "keeps sio_keep (sio_subscribe G)"
  unfolding sio_subscribe_def subscribe_to_engine_events_def
  by (auto intro!: sio_steps.keeps_prims sio_steps.keeps_andthen modify_keeps on_adapter_keeps split: option.splits)
    (simp_all add: sio_inv_def namespaces_ok_def)

text \<open>Whatever is done with the namespaces themselves keeps the invariant if it keeps who is in them.\<close>

definition who :: "'s simple_namespace \<Rightarrow> rstring \<times> rstring set" where
  "who ns = (sn_name ns, sn_socket_ids ns)"

lemma roster_who: "roster ns = roster ns' \<Longrightarrow> who ns = who ns'"
  by (simp add: roster_def who_def)

lemma who_inv:
  assumes "sio_inv sh" and "map who h = map who (sh_heap sh)"
  shows "sio_inv (sh\<lparr>sh_heap := h\<rparr>)"
proof -
  have len: "length h = length (sh_heap sh)" using assms(2) by (rule map_eq_imp_length_eq)
  have nth: "i < length (sh_heap sh) \<Longrightarrow> who (h ! i) = who (sh_heap sh ! i)" for i
    using assms(2) len by (metis nth_map)
  then have "\<forall>ns \<in> set h. sn_socket_ids ns = {}"
    using sio_invD(4) [OF assms(1) nth_mem] len by (auto simp: in_set_conv_nth who_def)
  moreover have "members_ok (sh_heap sh) dn \<Longrightarrow> members_ok h dn" for dn
    using nth len by (fastforce simp: members_ok_alt who_def)
  ultimately show ?thesis
    using assms(1) nth len by (auto simp: sio_inv_def namespaces_ok_def who_def)
qed

lemma dynamic_emit_who:
  "map who (snd (dynamic_emit_with_flags ST order dn event_name d flags h)) = map who h"
  unfolding dynamic_emit_with_flags_def dynamic_broadcast_packet_def prog_err_eq snd_conv
  by (rule try_for_each_view, rule run_at_view, rule roster_who) simp

lemma simple_emit_who:
  "who (snd (simple_emit_with_flags ST event_name d flags ns)) = who ns"
  "who (snd (filtered_emit_with_flags order (\<lambda>_. simple_broadcast_packet ST) f event_name d flags ns)) = who ns"
  "who (snd (simple_subscribe ns)) = who ns"
  by (rule roster_who, simp add: simple_emit_with_flags_def prog_err_eq simple_broadcast_roster)
    (rule roster_who, rule simple_priv.filtered_view, simp add: simple_subscribe_def who_def)

section \<open>The life of a server\<close>

text \<open>
  What the owner of a server does: its public operations, and the operations of the namespaces it has
  given out. The steps of a server are these and the tasks of the events of the Engine.IO server, in any
  order.
\<close>

inductive owner_step :: "('a, 'o, 's, 'd, 'e, 'x, 't, 'n) generics \<Rightarrow> (rstring list \<Rightarrow> rstring list) \<Rightarrow>
    ('a, 's, 'd, 'x, 't, 'n) sio_shared \<Rightarrow> ('a, 's, 'd, 'x, 't, 'n) sio_shared \<Rightarrow> bool" for G order where
  getting: "owner_step G order sh (snd (get_namespace G name sh))"
| making: "owner_step G order sh (snd (server_of G descriptor sh))"
| making_dynamic: "owner_step G order sh (snd (make_dynamic_namespace descriptor sh))"
| subscribing: "owner_step G order sh (snd (sio_subscribe G sh))"
| joining_events: "owner_step G order sh (sh\<lparr>sh_heap := snd (run_at i simple_subscribe (sh_heap sh))\<rparr>)"
| emitting: "owner_step G order sh (sh\<lparr>sh_heap := snd (run_at i
    (simple_emit_with_flags (g_storage G) event_name d flags) (sh_heap sh))\<rparr>)"
| emitting_to_rooms: "owner_step G order sh (sh\<lparr>sh_heap := snd (run_at i
    (filtered_emit_with_flags order (\<lambda>_. simple_broadcast_packet (g_storage G)) (f :: nat filtered) event_name d flags) (sh_heap sh))\<rparr>)"
| emitting_to_members: "owner_step G order sh (sh\<lparr>sh_heap := snd (dynamic_emit_with_flags (g_storage G) order
    (sh_dynamic_heap sh ! dn) event_name d flags (sh_heap sh))\<rparr>)"

inductive sio_step :: "('a, 'o, 's, 'd, 'e, 'x, 't, 'n) generics \<Rightarrow> (rstring list \<Rightarrow> rstring list) \<Rightarrow>
    ('a, 's, 'd, 'x, 't, 'n) sio_shared \<Rightarrow> ('a, 's, 'd, 'x, 't, 'n) sio_shared \<Rightarrow> bool" for G order where
  calling: "owner_step G order sh sh' \<Longrightarrow> sio_step G order sh sh'"
| event: "sh_listening sh \<Longrightarrow> sio_step G order sh (snd (on_engine_event G now new_id message sh))"

inductive sio_reachable :: "('a, 'o, 's, 'd, 'e, 'x, 't, 'n) generics \<Rightarrow> (rstring list \<Rightarrow> rstring list) \<Rightarrow>
    ('a, 's, 'd, 'x, 't, 'n) sio_shared \<Rightarrow> bool" for G order where
  starting: "sio_server_new oc G options = Ok sh \<Longrightarrow> sio_reachable G order sh"
| going_on: "sio_reachable G order sh \<Longrightarrow> sio_step G order sh sh' \<Longrightarrow> sio_reachable G order sh'"

inductive_simps sio_step_iff: "sio_step G order sh sh'"

lemma owner_step_inv: "owner_step G order sh sh' \<Longrightarrow> sio_inv sh \<Longrightarrow> sio_inv sh'"
proof (induction rule: owner_step.induct)
  case (joining_events sh i)
  show ?case by (rule who_inv [OF joining_events]) (rule run_at_view, rule simple_emit_who)
next
  case (emitting sh i event_name d flags)
  show ?case by (rule who_inv [OF emitting]) (rule run_at_view, rule simple_emit_who)
next
  case (emitting_to_rooms sh i f event_name d flags)
  show ?case by (rule who_inv [OF emitting_to_rooms]) (rule run_at_view, rule simple_emit_who)
next
  case (emitting_to_members sh dn event_name d flags)
  show ?case by (rule who_inv [OF emitting_to_members]) (rule dynamic_emit_who)
qed (simp_all add: keepD get_namespace_keeps server_of_keeps make_dynamic_keeps subscribe_keeps)

lemma sio_step_inv: "sio_step G order sh sh' \<Longrightarrow> sio_inv sh \<Longrightarrow> sio_inv sh'"
  by (induction rule: sio_step.induct) (auto intro: owner_step_inv simp: keepD on_engine_event_keeps)

lemma sio_server_new_inv: "sio_server_new oc G options = Ok sh \<Longrightarrow> sio_inv sh"
  by (auto simp: sio_server_new_def Let_def sio_inv_def namespaces_ok_def split: if_splits)

lemma sio_reachable_inv: "sio_reachable G order sh \<Longrightarrow> sio_inv sh"
  by (induction rule: sio_reachable.induct) (auto intro: sio_server_new_inv sio_step_inv)

text \<open>
  C5: No client is ever connected. In every state the server can reach, with any adapter, storage and
  parser and whatever messages arrive, there is no connection and no namespace has a socket, because
  \<open>connect_client\<close> panics before it adds one. Every namespace is registered under its own name, which
  starts with a slash, and so is every member of a dynamic namespace.
\<close>

theorem nobody_is_ever_connected:
  assumes "sio_reachable G order sh"
  shows "sh_connections sh = Map.empty \<and> sh_lookup sh = Map.empty \<and>
    (\<forall>ns \<in> set (sh_heap sh). sn_socket_ids ns = {}) \<and>
    (\<forall>name i. sh_namespaces sh name = Some i \<longrightarrow>
       i < length (sh_heap sh) \<and> sn_name (sh_heap sh ! i) = name \<and> prefix (lit ''/'') name) \<and>
    (\<forall>dn \<in> set (sh_dynamic_heap sh). members_ok (sh_heap sh) dn)"
proof -
  have "namespace_key name = name \<Longrightarrow> prefix (lit ''/'') name" for name
    by (auto simp: namespace_key_def split: if_splits)
  with sio_reachable_inv [OF assms] show ?thesis
    by (simp add: sio_inv_def namespaces_ok_def)
qed


section \<open>Messages\<close>

definition refusal :: "rstring \<Rightarrow> 'n sio_packet" where
  "refusal nsp = \<lparr>sp_type = TConnectError, sp_id = None, sp_nsp = nsp,
     sp_data = VObject [(lit ''message'', VString (lit ''Invalid namespace''))]\<rparr>"

lemma handle_client_connect_known:
  "sh_namespaces sh nsp \<noteq> None \<Longrightarrow> handle_client_connect G now new_id rc nsp i auth sh = (Panic, sh)"
  by (simp add: handle_client_connect_def namespace_exists_def connect_client_panics)

lemma handle_client_connect_unknown:
  "sh_namespaces sh nsp = None \<Longrightarrow> \<not> list_ex (\<lambda>(f, _). match_fn G f nsp auth) (sh_dynamic sh) \<Longrightarrow>
   handle_client_connect G now new_id rc nsp i auth sh = (Ok (refusal nsp), sh)"
  by (simp add: handle_client_connect_def namespace_exists_def get_matching_none refusal_def
      imap_collect_def imap_insert_def)

lemma handle_client_connect_matched:
  assumes "sh_namespaces sh nsp = None" and "list_ex (\<lambda>(f, _). match_fn G f nsp auth) (sh_dynamic sh)"
  shows "\<forall>x. fst (handle_client_connect G now new_id rc nsp i auth sh) \<noteq> Ok x"
proof -
  obtain f dn where m: "get_matching_dynamic_namespace G nsp auth sh =
      (case get_or_create_namespace G nsp sh of
         (Ok (i, res), sh') \<Rightarrow> (Ok (Some dn), if res = IsNew then sh'\<lparr>sh_dynamic_heap := (sh_dynamic_heap sh')[dn :=
             insert_simple_namespace (sh_heap sh') i (sh_dynamic_heap sh' ! dn)]\<rparr> else sh')
       | (Err e, sh') \<Rightarrow> (Err e, sh') | (Panic, sh') \<Rightarrow> (Panic, sh'))"
    by (rule get_matching_some [OF assms(2)])
  obtain r sh' where g: "get_matching_dynamic_namespace G nsp auth sh = (r, sh')" by force
  with m have "r = Ok x \<Longrightarrow> x = Some dn" for x
    by (auto split: prod.splits outcome.splits)
  with g show ?thesis
    by (cases r) (simp_all add: handle_client_connect_def namespace_exists_def assms(1) connect_client_panics andthen_def)
qed

text \<open>
  C8: What a message of a client does, in every state the server can reach. A text that does not decode
  is reported to the owner as one error; one that decodes to anything but a connect packet changes
  nothing, and so does binary data. A connect packet for a namespace that exists, or that a dynamic
  namespace matches, never gets an answer: its task panics. For any other namespace it is refused,
  which is the only answer a client ever gets.
\<close>

theorem message_outcomes:
  assumes "sio_reachable G order sh"
  shows "(case ps_decode_proto (g_parser G) t of
      Err _ \<Rightarrow> handle_new_message G now new_id rc i (PdText t) sh =
        (Ok None, sh\<lparr>sh_events := broadcast_send (SioError (lit ''Bad packet'')) (sh_events sh)\<rparr>)
    | Panic \<Rightarrow> handle_new_message G now new_id rc i (PdText t) sh = (Panic, sh)
    | Ok (Multipart _) \<Rightarrow> handle_new_message G now new_id rc i (PdText t) sh = (Ok None, sh)
    | Ok (Plain p) \<Rightarrow>
        if sp_type p \<noteq> TConnect then handle_new_message G now new_id rc i (PdText t) sh = (Ok None, sh)
        else if sh_namespaces sh (sp_nsp p) \<noteq> None then handle_new_message G now new_id rc i (PdText t) sh = (Panic, sh)
        else if list_ex (\<lambda>(f, _). match_fn G f (sp_nsp p) (sp_data p)) (sh_dynamic sh)
          then \<forall>x. fst (handle_new_message G now new_id rc i (PdText t) sh) \<noteq> Ok x
        else handle_new_message G now new_id rc i (PdText t) sh =
          (obind (ps_encode (g_parser G) (refusal (sp_nsp p))) (\<lambda>e. Ok (Some (encoded_into_engine e))), sh)) \<and>
    handle_new_message G now new_id rc i (PdBinary b) sh = (Ok None, sh) \<and>
    handle_new_message G now new_id rc i PdEmpty sh = (Ok None, sh)"
proof -
  note inv = sio_reachable_inv [OF assms]
  have binary: "handle_new_message G now new_id rc i (PdBinary b) sh = (Ok None, sh)"
    by (simp add: handle_new_message_def on_connection_none [OF inv] andthen_def)
  have multipart: "ps_decode_proto (g_parser G) t = Ok (Multipart h) \<Longrightarrow>
      handle_new_message G now new_id rc i (PdText t) sh = (Ok None, sh)" for h
    by (simp add: handle_new_message_def on_connection_none [OF inv] andthen_def)
  have other: "sp_type p \<noteq> TConnect \<Longrightarrow> handle_packet_from_client G now new_id rc i p sh = (Ok None, sh)" for p
    using sio_invD(1) [OF inv] by (simp add: handle_packet_from_client_def split: sio_type.split)
  have connect: "sp_type p = TConnect \<Longrightarrow> handle_packet_from_client G now new_id rc i p sh =
      andthen (handle_client_connect G now new_id rc (sp_nsp p) i (sp_data p)) (\<lambda>connect_packet.
      andthen (lift (ps_encode (g_parser G) connect_packet)) (\<lambda>encoded_packet.
      ret (Some (encoded_into_engine encoded_packet)))) sh" for p
    by (simp add: handle_packet_from_client_def)
  have plain: "if sp_type p \<noteq> TConnect then handle_packet_from_client G now new_id rc i p sh = (Ok None, sh)
    else if sh_namespaces sh (sp_nsp p) \<noteq> None then handle_packet_from_client G now new_id rc i p sh = (Panic, sh)
    else if list_ex (\<lambda>(f, _). match_fn G f (sp_nsp p) (sp_data p)) (sh_dynamic sh)
      then \<forall>x. fst (handle_packet_from_client G now new_id rc i p sh) \<noteq> Ok x
    else handle_packet_from_client G now new_id rc i p sh =
      (obind (ps_encode (g_parser G) (refusal (sp_nsp p))) (\<lambda>e. Ok (Some (encoded_into_engine e))), sh)" for p
    using handle_client_connect_matched [of sh "sp_nsp p" G "sp_data p" now new_id rc i]
    by (auto simp: other connect handle_client_connect_known handle_client_connect_unknown andthen_def
        split: prod.splits outcome.splits)
  have texts: "ps_decode_proto (g_parser G) t = Ok (Plain p) \<Longrightarrow>
      handle_new_message G now new_id rc i (PdText t) sh = handle_packet_from_client G now new_id rc i p sh"
    "ps_decode_proto (g_parser G) t = Err e \<Longrightarrow> handle_new_message G now new_id rc i (PdText t) sh =
      (Ok None, sh\<lparr>sh_events := broadcast_send (SioError (lit ''Bad packet'')) (sh_events sh)\<rparr>)"
    "ps_decode_proto (g_parser G) t = Panic \<Longrightarrow> handle_new_message G now new_id rc i (PdText t) sh = (Panic, sh)"
    "handle_new_message G now new_id rc i PdEmpty sh = (Ok None, sh)" for p e
    by (simp_all add: handle_new_message_def send_error_def)
  show ?thesis
  proof (cases "ps_decode_proto (g_parser G) t")
    case (Ok q)
    then show ?thesis using plain by (cases q) (simp_all add: binary multipart texts)
  qed (simp_all add: binary texts)
qed


section \<open>The table of sockets\<close>

text \<open>
  \<open>add_connection\<close> and \<open>remove_connection\<close> by themselves, as they would be used if connecting did not panic.
  The table from sockets to connections has exactly the sockets of the connections.
\<close>

definition owned :: "('s, 't, 'n, 'd) connection option \<Rightarrow> rstring set" where
  "owned c = (case c of Some cn \<Rightarrow> set (socket_ids cn) | None \<Rightarrow> {})"

lemma owned_None [simp]: "owned None = {}"
  by (simp add: owned_def)

definition lookup_ok :: "('a, 's, 'd, 'x, 't, 'n) sio_shared \<Rightarrow> bool" where
  "lookup_ok sh \<longleftrightarrow>
     (\<forall>sid eid. sh_lookup sh sid = Some eid \<longleftrightarrow> sid \<in> owned (sh_connections sh eid)) \<and>
     (\<forall>eid cn. sh_connections sh eid = Some cn \<longrightarrow> cn_namespaces cn = [])"

inductive connected :: "('a, 'o, 's, 'd, 'e, 'x, 't, 'n) generics \<Rightarrow>
    ('a, 's, 'd, 'x, 't, 'n) sio_shared \<Rightarrow> bool" for G where
  none: "sh_connections sh = Map.empty \<Longrightarrow> sh_lookup sh = Map.empty \<Longrightarrow> connected G sh"
| add: "connected G sh \<Longrightarrow> sh_lookup sh new_id = None \<Longrightarrow>
    add_connection G new_id namespace eid hs sh = (Ok sid, sh') \<Longrightarrow> connected G sh'"
| remove: "connected G sh \<Longrightarrow> remove_connection G eid sh = (Ok removed, sh') \<Longrightarrow> connected G sh'"

lemma add_socket_joins:
  fixes ns :: "'s simple_namespace"
  assumes "add_socket ST i ns = (Ok (), ns')"
  shows "i \<in> sn_socket_ids ns'"
proof -
  from assms obtain t where
    t: "(ignore_err (send_namespace_event (NsConnection i)) :: ('s, unit, unit) nprog)
      (t\<lparr>sn_socket_ids := insert i (sn_socket_ids t)\<rparr>) = (Ok (), ns')"
    by (auto simp: add_socket_def add_socket_to_room_def andthen_eq_Ok)
  obtain ch where "(ignore_err (send_namespace_event (NsConnection i)) :: ('s, unit, unit) nprog)
      (t\<lparr>sn_socket_ids := insert i (sn_socket_ids t)\<rparr>) =
    (Ok (), t\<lparr>sn_socket_ids := insert i (sn_socket_ids t), sn_events := ch\<rparr>)"
    using ignore_send_event by blast
  with t have "ns' = t\<lparr>sn_socket_ids := insert i (sn_socket_ids t), sn_events := ch\<rparr>" by simp
  then show ?thesis by simp
qed

lemma socket_ids_update:
  "set (socket_ids (cn\<lparr>cn_sockets := AList.update k v (cn_sockets cn)\<rparr>)) = insert k (set (socket_ids cn))"
  by (simp add: socket_ids_def dom_update)

lemma create_socket_Ok:
  assumes "create_socket ST new_id hs i (cn, h) = (Ok sid, (cn', h'))"
  shows "sid = new_id \<and> set (socket_ids cn') = insert new_id (set (socket_ids cn)) \<and>
    cn_namespaces cn' = cn_namespaces cn \<and> i < length h \<and> length h' = length h \<and> new_id \<in> sn_socket_ids (h' ! i)"
proof -
  let ?so = "sio_socket_new new_id hs (sn_name (h ! i))"
  obtain r ns where r: "add_socket ST new_id (h ! i) = (r, ns)" by force
  have id: "ss_id ?so = new_id" by (simp add: sio_socket_new_def)
  have "i < length h" "r = Ok ()" "h' = h[i := ns]" "sid = new_id"
    "cn' = cn\<lparr>cn_sockets := AList.update new_id ?so (cn_sockets cn)\<rparr>"
    using assms r id by (auto simp: create_socket_def Let_def run_at_def split: if_splits)
  with r add_socket_joins [of ST new_id "h ! i" ns] show ?thesis
    by (simp add: socket_ids_update)
qed

lemma add_connection_Ok:
  fixes sh :: "('a, 's, 'd, 'x, 't, 'n) sio_shared"
  assumes "lookup_ok sh" and "add_connection G new_id i eid hs sh = (Ok sid, sh')"
  shows "sid = new_id \<and> sh_lookup sh' = (sh_lookup sh)(new_id \<mapsto> eid) \<and>
    (\<exists>cn. sh_connections sh' = (sh_connections sh)(eid \<mapsto> cn) \<and> cn_namespaces cn = [] \<and>
      set (socket_ids cn) = insert new_id (owned (sh_connections sh eid))) \<and>
    i < length (sh_heap sh') \<and> new_id \<in> sn_socket_ids (sh_heap sh' ! i)"
proof (cases "sh_connections sh eid")
  case None
  obtain r h and cn :: "('s, 't, 'n, 'd) connection"
    where cr: "create_socket (g_storage G) new_id hs i (connection_empty eid, sh_heap sh) = (r, (cn, h))"
    by (metis surj_pair)
  with assms(2) None have "r = Ok sid" "sh' = sh\<lparr>sh_heap := h, sh_connections := (sh_connections sh)(eid \<mapsto> cn),
      sh_lookup := (sh_lookup sh)(sid \<mapsto> eid)\<rparr>"
    by (auto simp: add_connection_def andthen_eq_Ok on_heap_def initialize_def)
  with create_socket_Ok [OF cr [unfolded \<open>r = Ok sid\<close>]] None show ?thesis
    by (auto simp: owned_def connection_empty_def socket_ids_def intro!: exI [of _ cn])
next
  case (Some cn0)
  then have ns: "cn_namespaces cn0 = []" using assms(1) by (auto simp: lookup_ok_def)
  obtain r cn h where cr: "create_socket (g_storage G) new_id hs i (cn0, sh_heap sh) = (r, (cn, h))"
    by (metis surj_pair)
  with assms(2) Some ns have "r = Ok sid" "sh' = sh\<lparr>sh_connections := (sh_connections sh)(eid \<mapsto> cn), sh_heap := h,
      sh_lookup := (sh_lookup sh)(sid \<mapsto> eid)\<rparr>"
    by (auto simp: add_connection_def andthen_eq_Ok add_to_namespace_def)
  with create_socket_Ok [OF cr [unfolded \<open>r = Ok sid\<close>]] Some ns show ?thesis
    by (auto simp: owned_def intro!: exI [of _ cn])
qed

lemma foldl_forget: "foldl (\<lambda>m k. m(k := None)) m ks = m |` (- set ks)"
  by (induction ks arbitrary: m) (auto simp: restrict_map_def fun_eq_iff)

lemma remove_connection_Ok:
  assumes "lookup_ok sh" and "sh_connections sh eid = Some cn"
  shows "remove_connection G eid sh = (Ok True, sh\<lparr>sh_connections := (sh_connections sh)(eid := None),
    sh_lookup := sh_lookup sh |` (- owned (sh_connections sh eid))\<rparr>)"
proof -
  have "cn_namespaces cn = []" using assms by (auto simp: lookup_ok_def)
  then show ?thesis
    using assms(2) by (simp add: remove_connection_def connection_drop_def foldl_forget owned_def)
qed

lemma connected_lookup: "connected G sh \<Longrightarrow> lookup_ok sh"
proof (induction rule: connected.induct)
  case (none sh)
  then show ?case by (simp add: lookup_ok_def owned_def)
next
  case (add sh new_id namespace eid hs sid sh')
  obtain cn where sh': "sid = new_id" "sh_lookup sh' = (sh_lookup sh)(new_id \<mapsto> eid)"
    "sh_connections sh' = (sh_connections sh)(eid \<mapsto> cn)" "cn_namespaces cn = []"
    "set (socket_ids cn) = insert new_id (owned (sh_connections sh eid))"
    using add_connection_Ok [OF add.IH add.hyps(3)] by blast
  have "new_id \<notin> owned (sh_connections sh e)" for e
    using add.IH add.hyps(2) unfolding lookup_ok_def by (metis option.distinct(1))
  then show ?case
    using add.IH by (auto simp: lookup_ok_def sh' owned_def)
next
  case (remove sh eid removed sh')
  show ?case
  proof (cases "sh_connections sh eid")
    case None
    then show ?thesis using remove by (simp add: remove_connection_def)
  next
    case (Some cn)
    have "sid \<in> owned (sh_connections sh eid) \<Longrightarrow> sid \<in> owned (sh_connections sh e) \<Longrightarrow> e = eid" for sid e
      using remove.IH unfolding lookup_ok_def by (metis option.inject)
    then show ?thesis
      using remove.IH remove.hyps(2) remove_connection_Ok [OF remove.IH Some, of G]
      by (auto simp: lookup_ok_def restrict_map_def split: if_splits)
  qed
qed

text \<open>
  C26: However connections are added and removed, a socket is in the table exactly as long as its
  connection has it, provided the random ids are new and no operation panics; so no socket has two
  connections, and removing a connection forgets all its sockets.
\<close>

theorem connection_lookup_consistent:
  assumes "connected G sh"
  shows "(sh_lookup sh sid = Some eid) =
    (\<exists>cn. sh_connections sh eid = Some cn \<and> sid \<in> set (socket_ids cn))"
  using connected_lookup [OF assms]
  by (auto simp: lookup_ok_def owned_def split: option.splits)

text \<open>
  A connection never remembers its namespaces: joining a namespace a second time gives a second
  socket, the answer \<open>AlreadyExisting\<close> never comes, and when the connection is removed its sockets
  stay in the namespaces they have joined, although nobody can look them up any more.
\<close>

theorem removed_sockets_stay:
  assumes "connected G sh" and "sh_lookup sh new_id = None"
    and add: "add_connection G new_id i eid hs sh = (Ok sid, sh1)"
  shows "sid = new_id \<and> add_to_namespace (g_storage G) id2 hs2 j (the (sh_connections sh1 eid), h) \<noteq>
      (Ok (AlreadyExisting sid2), s2) \<and>
    (\<exists>sh2. remove_connection G eid sh1 = (Ok True, sh2) \<and> sh_lookup sh2 new_id = None \<and>
       sh_connections sh2 eid = None \<and> new_id \<in> sn_socket_ids (sh_heap sh2 ! i))"
proof -
  have ok: "lookup_ok sh" by (rule connected_lookup [OF assms(1)])
  have ok1: "lookup_ok sh1" by (rule connected_lookup [OF connected.add [OF assms]])
  obtain cn where sid: "sid = new_id" and heap: "new_id \<in> sn_socket_ids (sh_heap sh1 ! i)"
    and cn: "sh_connections sh1 eid = Some cn" "cn_namespaces cn = []" "new_id \<in> owned (sh_connections sh1 eid)"
    using add_connection_Ok [OF ok add] by (auto simp: owned_def)
  have "add_to_namespace (g_storage G) id2 hs2 j (cn, h) \<noteq> (Ok (AlreadyExisting sid2), s2)"
    by (simp add: add_to_namespace_def cn(2) split: prod.splits)
  with sid heap cn(1,3) remove_connection_Ok [OF ok1 cn(1), of G] show ?thesis by simp
qed

section \<open>Asking for a namespace\<close>

text \<open>
  A namespace is made once: asking for a name, with or without its slash, gives a namespace whose
  name is the name with a slash in front, and asking again, in either form, gives the same namespace
  and changes nothing.
\<close>

theorem get_namespace_idempotent:
  assumes "sio_reachable G order sh" and "get_namespace G name sh = (Ok i, sh')"
    and "namespace_key name2 = namespace_key name"
  shows "get_namespace G name2 sh' = (Ok i, sh') \<and> i < length (sh_heap sh') \<and>
    sn_name (sh_heap sh' ! i) = namespace_key name"
proof -
  obtain res where r: "get_or_create_namespace G name sh = (Ok (i, res), sh')"
    using assms(2) by (auto simp: get_namespace_def andthen_eq_Ok)
  with get_or_create_ok [OF r] sio_invD(3) [OF sio_reachable_inv [OF assms(1)]] show ?thesis
    by (simp add: get_namespace_def get_or_create_namespace_def [of G name2] assms(3) andthen_def)
qed

section \<open>The refusal\<close>

text \<open>
  C28: A connect packet for a well-formed namespace that does not exist and that no dynamic namespace
  matches is answered with one text, the only answer the server ever gives, and a decoder of the same
  library refuses this text: its data is an object, which the encoder writes as an array, and an array
  is not valid for an error packet.
\<close>

theorem refusal_undecodable:
  fixes S :: "'n serde"
  assumes N: "nom_laws is_digit N" and S: "serde_laws S" and nsp: "nsp_ok nsp"
    and G: "g_parser G = default_parser oc N S"
    and dcd: "decode_proto_packet oc N S t = Ok (Plain p)"
    and p: "sp_type p = TConnect" "sp_nsp p = nsp" "sh_namespaces sh nsp = None"
      "\<not> list_ex (\<lambda>(f, _). match_fn G f nsp (sp_data p)) (sh_dynamic sh)"
  shows "\<exists>s. handle_new_message G now new_id rc i (PdText t) sh =
      (Ok (Some [\<lparr>ptype = PtMessage, pdata = PdText s\<rparr>]), sh) \<and>
    decode_proto_packet oc N S s = Err PacketParseError"
proof -
  let ?p = "refusal nsp :: 'n sio_packet"
  have flds: "sp_type ?p = TConnectError" "sp_id ?p = None" "sp_nsp ?p = nsp"
    "sp_data ?p = VObject [(lit ''message'', VString (lit ''Invalid namespace''))]"
    by (simp_all add: refusal_def)
  obtain w where "to_json_string S (fst (deconstruct S (sp_data ?p) [])) = Some w"
    using serde_array [OF S] by (auto simp: flds serde_from_iter [OF S])
  then obtain e where e: "sio_encode_packet S ?p = Ok e" using sio_encode_ok [OF S, of ?p] by blast
  have "ep_attachments e = []"
    using e by (auto simp: sio_encode_packet_def flds Let_def split: if_splits)
  moreover have "decode_proto_packet oc N S (ep_packet e) = Err PacketParseError"
    by (rule encoded_object_refused [OF N S _ _ _ _ e, where kvs = "[(lit ''message'', VString (lit ''Invalid namespace''))]"])
      (simp_all add: flds nsp readable_json_def serde_from_iter [OF S])
  moreover have "handle_new_message G now new_id rc i (PdText t) sh =
      (obind (sio_encode_packet S ?p) (\<lambda>e. Ok (Some (encoded_into_engine e))), sh)"
    using handle_client_connect_unknown [of sh nsp G "sp_data p" now new_id rc i] p
    by (simp add: handle_new_message_def G default_parser_def dcd handle_packet_from_client_def andthen_def
        split: outcome.splits)
  ultimately show ?thesis using e by (simp add: encoded_into_engine_def)
qed


section \<open>Witnesses\<close>

definition generics_ref :: "(unit, unit, (rstring \<times> rstring) list, nat default_decoder, handle_error, unit, unit, nat) generics" where
  "generics_ref =
     \<lparr>g_adapter = \<lparr>ad_new = (\<lambda>_ _. ()), ad_subscribe = ret (), ad_close_socket = (\<lambda>_. ret ())\<rparr>,
      g_storage = storage_ref,
      g_parser = default_parser True (nom_ref is_digit :: (uchar, packet) nom) serde_ref,
      g_regex = (\<lambda>_ _. True), g_function = (\<lambda>_ _ _. True), g_timestamp = (\<lambda>_. 0)\<rparr>"

abbreviation sio_ref :: "(unit, (rstring \<times> rstring) list, nat default_decoder, unit, unit, nat) sio_shared" where
  "sio_ref \<equiv> \<lparr>sh_adapter = (), sh_dynamic = [], sh_temp = Some 0, sh_listening = False,
     sh_connections = Map.empty, sh_namespaces = Map.empty, sh_lookup = Map.empty, sh_events = [[]],
     sh_heap = [], sh_dynamic_heap = []\<rparr>"

abbreviation sio_ref_a :: "(unit, (rstring \<times> rstring) list, nat default_decoder, unit, unit, nat) sio_shared" where
  "sio_ref_a \<equiv> sio_ref\<lparr>sh_heap := [namespace_ref (lit ''/a'') []], sh_namespaces := [lit ''/a'' \<mapsto> 0]\<rparr>"

lemma sio_ref_new: "sio_server_new True generics_ref (sio_options_default ()) = Ok sio_ref"
  by (simp add: sio_server_new_def sio_options_default_def sio_server_options_default_def chk_up_eq generics_ref_def)

lemma sio_ref_reachable: "sio_reachable generics_ref rev sio_ref"
  by (rule sio_reachable.starting [OF sio_ref_new])

lemma get_a: "get_namespace generics_ref (lit ''a'') sio_ref = (Ok 0, sio_ref_a)"
  by (simp add: get_namespace_def get_or_create_namespace_def namespace_key_def simple_new_def generics_ref_def
      storage_ref_def lit_def andthen_def Let_def)

lemma sio_ref_a_reachable: "sio_reachable generics_ref rev sio_ref_a"
  using sio_reachable.going_on [OF sio_ref_reachable sio_step.calling [OF owner_step.getting [of generics_ref rev sio_ref "lit ''a''"]]]
  by (simp add: get_a)

theorem nobody_is_ever_connected_witness:
  "sn_socket_ids (hd (sh_heap sio_ref_a)) = {}"
  using nobody_is_ever_connected [OF sio_ref_a_reachable] by simp

theorem message_outcomes_witness:
  "handle_new_message generics_ref () (lit ''i'') context_ref (lit ''c'') (PdText (lit ''x'')) sio_ref =
     (Ok None, sio_ref\<lparr>sh_events := [[SioError (lit ''Bad packet'')]]\<rparr>)"
proof -
  have "decode_proto_packet True (nom_ref is_digit :: (uchar, packet) nom) serde_ref (lit ''x'') = Err PacketParseError"
    by (simp add: decode_proto_packet_def parse_proto_packet_def sio_take_u8_def nom_simps [OF nom_ref_laws]
        lit_def is_digit_def)
  then have "ps_decode_proto (g_parser generics_ref) (lit ''x'') = Err PacketParseError"
    by (simp add: generics_ref_def default_parser_def)
  then show ?thesis
    using message_outcomes [OF sio_ref_reachable, where t = "lit ''x''" and now = "()" and new_id = "lit ''i''"
        and rc = context_ref and i = "lit ''c''"]
    by (simp add: broadcast_send_def)
qed

lemma added:
  "\<exists>sh'. add_connection generics_ref (lit ''s'') 0 (lit ''c'') (handshake_new (\<lambda>_. 0) () context_ref VNull) sio_ref_a =
    (Ok (lit ''s''), sh')"
  by (simp add: add_connection_def on_heap_def initialize_def create_socket_def run_at_def add_socket_def
      add_socket_to_room_def on_storage_def generics_ref_def storage_ref_def sio_socket_new_def Let_def
      ignore_err_def send_namespace_event_def andthen_def)

lemma connected_none: "connected generics_ref sio_ref_a"
  by (rule connected.none) simp_all

theorem connection_lookup_consistent_witness:
  "\<exists>sh'. connected generics_ref sh' \<and> sh_lookup sh' (lit ''s'') = Some (lit ''c'') \<and>
    (\<exists>cn. sh_connections sh' (lit ''c'') = Some cn \<and> lit ''s'' \<in> set (socket_ids cn))"
proof -
  obtain sh' where sh': "add_connection generics_ref (lit ''s'') 0 (lit ''c'')
      (handshake_new (\<lambda>_. 0) () context_ref VNull) sio_ref_a = (Ok (lit ''s''), sh')"
    using added by blast
  have conn: "connected generics_ref sh'"
    by (rule connected.add [OF connected_none _ sh']) simp
  moreover have "sh_lookup sh' (lit ''s'') = Some (lit ''c'')"
    using sh' by (auto simp: add_connection_def andthen_eq_Ok)
  moreover from this have "\<exists>cn. sh_connections sh' (lit ''c'') = Some cn \<and> lit ''s'' \<in> set (socket_ids cn)"
    unfolding connection_lookup_consistent [OF conn] .
  ultimately show ?thesis by (intro exI [of _ sh'] conjI)
qed

theorem removed_sockets_stay_witness:
  "\<exists>sh' sh2. add_connection generics_ref (lit ''s'') 0 (lit ''c'')
      (handshake_new (\<lambda>_. 0) () context_ref VNull) sio_ref_a = (Ok (lit ''s''), sh') \<and>
    remove_connection generics_ref (lit ''c'') sh' = (Ok True, sh2) \<and> lit ''s'' \<in> sn_socket_ids (sh_heap sh2 ! 0)"
proof -
  obtain sh' where sh': "add_connection generics_ref (lit ''s'') 0 (lit ''c'')
      (handshake_new (\<lambda>_. 0) () context_ref VNull) sio_ref_a = (Ok (lit ''s''), sh')"
    using added by blast
  have "sh_lookup sio_ref_a (lit ''s'') = None" by simp
  from removed_sockets_stay [OF connected_none this sh'] sh' show ?thesis by blast
qed

theorem get_namespace_idempotent_witness:
  "get_namespace generics_ref (lit ''/a'') sio_ref_a = (Ok 0, sio_ref_a)"
  using get_namespace_idempotent [OF sio_ref_reachable get_a, of "lit ''/a''"]
  by (simp add: namespace_key_def lit_def)

theorem refusal_undecodable_witness:
  "\<exists>t p s. decode_proto_packet True (nom_ref is_digit :: (uchar, packet) nom) serde_ref t = Ok (Plain p) \<and>
    sp_type p = TConnect \<and>
    handle_new_message generics_ref () (lit ''i'') context_ref (lit ''c'') (PdText t) sio_ref =
      (Ok (Some [\<lparr>ptype = PtMessage, pdata = PdText s\<rparr>]), sio_ref) \<and>
    decode_proto_packet True (nom_ref is_digit :: (uchar, packet) nom) serde_ref s = Err PacketParseError"
proof -
  let ?N = "nom_ref is_digit :: (uchar, packet) nom"
  let ?p = "\<lparr>sp_type = TConnect, sp_id = None, sp_nsp = lit ''/'', sp_data = VObject []\<rparr>"
  have N: "nom_laws is_digit ?N" by (rule nom_ref_laws)
  obtain w where w: "to_json_string serde_ref (JObject []) = Some (123 # w)"
    "from_json_str serde_ref (123 # w) = Some (JObject [])"
    using serde_read [OF serde_ref_laws, of "JObject []"] by (simp add: serde_ref_def)
  have "parse_proto_packet True ?N serde_ref (dec (unat (sio_type_u8 TConnect)) @ nsp_text (lit ''/'') @ 123 # w) =
    Ok (123 # w, Plain ?p)"
    using parse_frame [OF N _ nsp_ok_a(2), of TConnect "123 # w" True serde_ref]
      parse_id_none [OF N, of "123 # w" True] w(2)
    by (simp add: nsp_text_def parse_json_data_def is_payload_valid_def is_digit_def imap_collect_def Let_def)
  then have t: "decode_proto_packet True ?N serde_ref (dec (unat (sio_type_u8 TConnect)) @ nsp_text (lit ''/'') @ 123 # w) =
      Ok (Plain ?p)"
    by (simp add: decode_proto_packet_def)
  have G: "g_parser generics_ref = default_parser True ?N serde_ref" by (simp add: generics_ref_def)
  obtain s where "handle_new_message generics_ref () (lit ''i'') context_ref (lit ''c'')
      (PdText (dec (unat (sio_type_u8 TConnect)) @ nsp_text (lit ''/'') @ 123 # w)) sio_ref =
      (Ok (Some [\<lparr>ptype = PtMessage, pdata = PdText s\<rparr>]), sio_ref)"
    "decode_proto_packet True ?N serde_ref s = Err PacketParseError"
    using refusal_undecodable [OF N serde_ref_laws nsp_ok_a(2) G t, of sio_ref "()" "lit ''i''" context_ref "lit ''c''"]
    by auto
  with t show ?thesis by (intro exI conjI) (assumption, simp)
qed

end
