(* ===== verification/Sio_Tasks.thy ===== *)
theory Sio_Tasks
  imports Sio_Server Turns
begin

text \<open>
  The tasks of \<open>socket_io_server/src/server.rs\<close>: \<open>subscribe_to_engine_events\<close> spawns one for every event of
  the Engine.IO server and waits for none of them, and the user calls \<open>get_namespace\<close> meanwhile. A task is
  where it stands, with the local values it still needs, and a step runs to the end of the next
  operation on a shared table, or of the next section with the lock of a connection held. \<open>Sio_Server\<close> has
  the same code in one go. What a task may have to wait for, the shards of the tables, the locks and
  \<open>close_socket\<close> of the adapter, is a step that returns: the theorems are about what the tasks do in which
  order, not about whether they get on.
\<close>

section \<open>Tasks\<close>

text \<open>
  \<open>TaskPacket\<close> is \<open>handle_packet_from_client\<close>, \<open>TaskMatch\<close> and the \<open>TaskChild\<close> constructors are
  \<open>get_matching_dynamic_namespace\<close>, \<open>TaskForget\<close> is the second half of \<open>remove_connection\<close>, and \<open>Get*\<close> is
  \<open>get_namespace\<close>, a call of the user. \<open>TaskDone\<close> has what the handler has given to its responder.
\<close>

datatype 'n sio_task =
    TaskEvent server_event
  | TaskError rstring
  | TaskForget "rstring list" "(unit, unit) outcome"
  | TaskPacket rstring request_context "'n sio_packet"
  | TaskMatch rstring request_context rstring "'n pvalue"
  | TaskChildGet nat rstring request_context rstring "'n pvalue"
  | TaskChildInsert nat rstring request_context rstring "'n pvalue"
  | TaskChildAdd nat nat rstring request_context rstring "'n pvalue"
  | TaskConnect rstring request_context rstring "'n pvalue"
  | TaskAnswer "'n sio_packet"
  | TaskDone "(unit, packet list option) outcome"
  | GetCall rstring
  | GetInsert rstring
  | GetDone rstring nat

definition sio_section :: "('a, 's, 'd, 'x, 't, 'n, 'y) ioprog \<Rightarrow> ('y \<Rightarrow> 'n sio_task) \<Rightarrow>
    ('a, 's, 'd, 'x, 't, 'n) sio_shared \<Rightarrow> 'n sio_task \<times> ('a, 's, 'd, 'x, 't, 'n) sio_shared" where
  "sio_section m next_task sh = (case m sh of
     (Ok x, sh) \<Rightarrow> (next_task x, sh)
   | (Err e, sh) \<Rightarrow> (TaskDone (Err e), sh)
   | (Panic, sh) \<Rightarrow> (TaskDone Panic, sh))"

text \<open>The two halves of \<open>get_or_create_namespace\<close>: the look into the table, and the entry into it.\<close>

definition look_up_namespace :: "rstring \<Rightarrow> ('a, 's, 'd, 'x, 't, 'n, nat option) ioprog" where
  "look_up_namespace name = gets (\<lambda>sh. sh_namespaces sh (namespace_key name))"

definition insert_namespace :: "('a, 'o, 's, 'd, 'e, 'x, 't, 'n) generics \<Rightarrow> rstring \<Rightarrow>
    ('a, 's, 'd, 'x, 't, 'n, nat) ioprog" where
  "insert_namespace G name = (\<lambda>sh.
     case simple_new (g_storage G) (namespace_key name) of
       Ok ns \<Rightarrow>
         (let namespace = length (sh_heap sh)
          in (Ok namespace, sh\<lparr>sh_heap := sh_heap sh @ [ns],
                sh_namespaces := (sh_namespaces sh)(namespace_key name \<mapsto> namespace)\<rparr>))
     | Err e \<Rightarrow> (Err e, sh)
     | Panic \<Rightarrow> (Panic, sh))"

text \<open>
  \<open>handle_new_message\<close> up to the first packet: a binary message adds to the decoder of the connection
  and collects the packet in one section with the lock held.
\<close>

definition message_section :: "('a, 'o, 's, 'd, 'e, 'x, 't, 'n) generics \<Rightarrow> request_context \<Rightarrow> rstring \<Rightarrow>
    packet_data \<Rightarrow> ('a, 's, 'd, 'x, 't, 'n) sio_shared \<Rightarrow> 'n sio_task \<times> ('a, 's, 'd, 'x, 't, 'n) sio_shared" where
  "message_section G rc i d = (case d of
     PdText t \<Rightarrow>
       (case ps_decode_proto (g_parser G) t of
          Err _ \<Rightarrow> Pair (TaskError (lit ''Bad packet''))
        | Panic \<Rightarrow> Pair (TaskDone Panic)
        | Ok (Multipart header) \<Rightarrow>
            if header_has_attachments header then
              sio_section (on_connection i (set_decoder (ps_new (g_parser G) header)))
                (\<lambda>r :: ('e decode_error, unit) outcome option.
                  case r of
                    Some (Err _) \<Rightarrow> TaskError (lit ''sequence error'')
                  | _ \<Rightarrow> TaskDone (Ok None))
            else Pair (TaskDone (Ok None))
        | Ok (Plain p) \<Rightarrow> Pair (TaskPacket i rc p))
   | PdBinary buffer \<Rightarrow>
       sio_section (on_connection i
           (connection_decode (ps_decode_binary (g_parser G)) (ps_collect (g_parser G)) buffer)) (\<lambda>r.
         case r of
           Some (Ok (DecodeDone p)) \<Rightarrow> TaskPacket i rc p
         | _ \<Rightarrow> TaskDone (Ok None))
   | PdEmpty \<Rightarrow> Pair (TaskDone (Ok None)))"

text \<open>\<open>remove_connection\<close> up to the loop over the sockets, and what the drop of the connection comes to.\<close>

definition take_connection :: "('a, 'o, 's, 'd, 'e, 'x, 't, 'n) generics \<Rightarrow> rstring \<Rightarrow>
    ('a, 's, 'd, 'x, 't, 'n, (rstring list \<times> (unit, unit) outcome) option) ioprog" where
  "take_connection G i = (\<lambda>sh.
     (Ok (map_option (\<lambda>cn. (socket_ids cn, connection_drop (g_storage G) cn)) (sh_connections sh i)),
      sh\<lparr>sh_connections := (sh_connections sh)(i := None)\<rparr>))"

definition event_section :: "('a, 'o, 's, 'd, 'e, 'x, 't, 'n) generics \<Rightarrow> server_event \<Rightarrow>
    ('a, 's, 'd, 'x, 't, 'n) sio_shared \<Rightarrow> 'n sio_task \<times> ('a, 's, 'd, 'x, 't, 'n) sio_shared" where
  "event_section G message = (case message of
     VConnection i \<Rightarrow> sio_section (setup_connect_timer i) (\<lambda>_. TaskDone (Ok None))
   | VClose i reason \<Rightarrow> sio_section (take_connection G i) (\<lambda>taken. case taken of
         Some (ids, dropped) \<Rightarrow> TaskForget ids dropped
       | None \<Rightarrow> TaskDone (Ok None))
   | VMessage i rc d \<Rightarrow> message_section G rc i d
   | VError i \<Rightarrow> sio_section (on_adapter (ad_close_socket (g_adapter G) i)) (\<lambda>_. TaskDone (Ok None))
   | _ \<Rightarrow> Pair (TaskDone (Ok None)))"

definition connect_answer :: "rstring \<Rightarrow> rstring \<Rightarrow> 'n sio_packet" where
  "connect_answer name socket_id =
     \<lparr>sp_type = TConnect, sp_id = None, sp_nsp = name,
      sp_data = from_json (JObject [(lit ''sid'', JString socket_id)])\<rparr>"

definition refusal_answer :: "rstring \<Rightarrow> 'n sio_packet" where
  "refusal_answer namespace_name =
     \<lparr>sp_type = TConnectError, sp_id = None, sp_nsp = namespace_name,
      sp_data = from_json (JObject [(lit ''message'', JString (lit ''Invalid namespace''))])\<rparr>"

text \<open>\<open>connect_client\<close> is one step: its first call is a \<open>todo!()\<close>.\<close>

fun sio_task_step :: "('a, 'o, 's, 'd, 'e, 'x, 't, 'n) generics \<Rightarrow> 't \<Rightarrow> rstring \<Rightarrow> 'n sio_task \<Rightarrow>
    ('a, 's, 'd, 'x, 't, 'n) sio_shared \<Rightarrow> 'n sio_task \<times> ('a, 's, 'd, 'x, 't, 'n) sio_shared" where
  "sio_task_step G now new_id (TaskEvent message) = event_section G message"
| "sio_task_step G now new_id (TaskError message) = sio_section (send_error message) (\<lambda>_. TaskDone (Ok None))"
| "sio_task_step G now new_id (TaskForget ids dropped) =
     sio_section (modify (\<lambda>sh. sh\<lparr>sh_lookup := foldl (\<lambda>lookup socket_id. lookup(socket_id := None)) (sh_lookup sh) ids\<rparr>))
       (\<lambda>_. TaskDone (obind dropped (\<lambda>_. Ok None)))"
| "sio_task_step G now new_id (TaskPacket i rc p) =
     (case sp_type p of
        TConnect \<Rightarrow> sio_section (namespace_exists (sp_nsp p)) (\<lambda>known.
          if known then TaskConnect i rc (sp_nsp p) (sp_data p) else TaskMatch i rc (sp_nsp p) (sp_data p))
      | _ \<Rightarrow> sio_section (gets (\<lambda>sh. sh_connections sh i)) (\<lambda>existing. TaskDone (case existing of
            Some connection \<Rightarrow> obind (connection_handle_packet connection p) (\<lambda>_. Ok None)
          | None \<Rightarrow> Ok None)))"
| "sio_task_step G now new_id (TaskMatch i rc nsp auth) = sio_section (gets sh_dynamic) (\<lambda>dynamic_namespaces.
     case find (\<lambda>(check_fn, _). match_fn G check_fn nsp auth) dynamic_namespaces of
       Some (_, dn) \<Rightarrow> TaskChildGet dn i rc nsp auth
     | None \<Rightarrow> TaskAnswer (refusal_answer nsp))"
| "sio_task_step G now new_id (TaskChildGet dn i rc nsp auth) = sio_section (look_up_namespace nsp) (\<lambda>found.
     if found = None then TaskChildInsert dn i rc nsp auth else TaskConnect i rc nsp auth)"
| "sio_task_step G now new_id (TaskChildInsert dn i rc nsp auth) =
     sio_section (insert_namespace G nsp) (\<lambda>namespace. TaskChildAdd dn namespace i rc nsp auth)"
| "sio_task_step G now new_id (TaskChildAdd dn namespace i rc nsp auth) =
     sio_section (modify (\<lambda>sh. sh\<lparr>sh_dynamic_heap := (sh_dynamic_heap sh)[dn :=
         insert_simple_namespace (sh_heap sh) namespace (sh_dynamic_heap sh ! dn)]\<rparr>))
       (\<lambda>_. TaskConnect i rc nsp auth)"
| "sio_task_step G now new_id (TaskConnect i rc nsp auth) = sio_section
     (andthen (connect_client G now new_id rc nsp i auth) (\<lambda>(namespace, socket_id).
      andthen (gets (\<lambda>sh. sn_name (sh_heap sh ! namespace))) (\<lambda>name. ret (connect_answer name socket_id)))) TaskAnswer"
| "sio_task_step G now new_id (TaskAnswer p) = Pair (TaskDone
     (obind (ps_encode (g_parser G) p) (\<lambda>encoded_packet. Ok (Some (encoded_into_engine encoded_packet)))))"
| "sio_task_step G now new_id (TaskDone r) = Pair (TaskDone r)"
| "sio_task_step G now new_id (GetCall name) = sio_section (look_up_namespace name) (\<lambda>found. case found of
     Some namespace \<Rightarrow> GetDone name namespace
   | None \<Rightarrow> GetInsert name)"
| "sio_task_step G now new_id (GetInsert name) = sio_section (insert_namespace G name) (GetDone name)"
| "sio_task_step G now new_id (GetDone name namespace) = Pair (GetDone name namespace)"

abbreviation run_sio_task :: "nat \<Rightarrow> ('a, 'o, 's, 'd, 'e, 'x, 't, 'n) generics \<Rightarrow> 't \<Rightarrow> rstring \<Rightarrow>
    'n sio_task \<times> ('a, 's, 'd, 'x, 't, 'n) sio_shared \<Rightarrow> 'n sio_task \<times> ('a, 's, 'd, 'x, 't, 'n) sio_shared" where
  "run_sio_task n G now new_id \<equiv> run_alone (sio_task_step G now new_id) n"

section \<open>A task alone\<close>

lemma run_sio_task_done [simp]:
  "run_sio_task n G now new_id (TaskDone r, sh) = (TaskDone r, sh)"
  "run_sio_task n G now new_id (GetDone name i, sh) = (GetDone name i, sh)"
  by (induction n) simp_all

lemma sio_section_prims [simp]:
  "sio_section (gets f) k sh = (k (f sh), sh)" "sio_section (modify u) k1 sh = (k1 (), u sh)"
  "sio_section panic k2 sh = (TaskDone Panic, sh)" "sio_section (lift r) k3 sh =
    (case r of Ok x \<Rightarrow> k3 x | Err e \<Rightarrow> TaskDone (Err e) | Panic \<Rightarrow> TaskDone Panic, sh)"
  by (simp_all add: sio_section_def split: outcome.split)

lemma get_or_create_split: "get_or_create_namespace G name =
  andthen (look_up_namespace name) (\<lambda>found. case found of
     Some namespace \<Rightarrow> ret (namespace, IsExisting)
   | None \<Rightarrow> andthen (insert_namespace G name) (\<lambda>namespace. ret (namespace, IsNew)))"
  by (auto simp: get_or_create_namespace_def look_up_namespace_def insert_namespace_def andthen_def Let_def
      fun_eq_iff split: option.split outcome.split)

lemma connect_step [simp]: "sio_task_step G now new_id (TaskConnect i rc nsp auth) sh = (TaskDone Panic, sh)"
  by (simp add: connect_client_panics sio_section_def panic_def andthen_def)

declare sio_task_step.simps(9) [simp del]

lemma run_child:
  "run_sio_task 5 G now new_id (TaskChildGet dn i rc nsp auth, sh) =
    (case get_or_create_namespace G nsp sh of
       (Ok (namespace, res), sh') \<Rightarrow> (TaskDone Panic, if res = IsNew then sh'\<lparr>sh_dynamic_heap := (sh_dynamic_heap sh')[dn :=
             insert_simple_namespace (sh_heap sh') namespace (sh_dynamic_heap sh' ! dn)]\<rparr> else sh')
     | (Err e, sh') \<Rightarrow> (TaskDone (Err e), sh') | (Panic, sh') \<Rightarrow> (TaskDone Panic, sh'))"
  by (auto simp: eval_nat_numeral get_or_create_split look_up_namespace_def connect_client_panics
      sio_section_def [of "insert_namespace G nsp"] andthen_def split: option.split outcome.split prod.split)

text \<open>What a task is at the end, if what is left of its handler is \<open>m\<close>.\<close>

definition completed :: "('a, 's, 'd, 'x, 't, 'n, packet list option) ioprog \<Rightarrow>
    ('a, 's, 'd, 'x, 't, 'n) sio_shared \<Rightarrow> 'n sio_task \<times> ('a, 's, 'd, 'x, 't, 'n) sio_shared" where
  "completed m sh = (case m sh of (r, sh) \<Rightarrow> (TaskDone r, sh))"

definition answering :: "('a, 'o, 's, 'd, 'e, 'x, 't, 'n) generics \<Rightarrow> 'n sio_packet \<Rightarrow>
    ('a, 's, 'd, 'x, 't, 'n, packet list option) ioprog" where
  "answering G p = andthen (lift (ps_encode (g_parser G) p)) (\<lambda>encoded_packet.
     ret (Some (encoded_into_engine encoded_packet)))"

lemma handle_client_connect_matching:
  "sh_namespaces sh nsp = None \<Longrightarrow> handle_client_connect G now new_id rc nsp i auth sh =
    (case find (\<lambda>(f, _). match_fn G f nsp auth) (sh_dynamic sh) of
       None \<Rightarrow> (Ok (refusal_answer nsp), sh)
     | Some (_, dn) \<Rightarrow>
       (case get_or_create_namespace G nsp sh of
          (Ok (namespace, res), sh') \<Rightarrow> (Panic, if res = IsNew then sh'\<lparr>sh_dynamic_heap := (sh_dynamic_heap sh')[dn :=
             insert_simple_namespace (sh_heap sh') namespace (sh_dynamic_heap sh' ! dn)]\<rparr> else sh')
        | (Err e, sh') \<Rightarrow> (Err e, sh') | (Panic, sh') \<Rightarrow> (Panic, sh')))"
  by (cases "sh_dynamic sh = []")
    (auto simp: handle_client_connect_def namespace_exists_def connect_client_panics refusal_answer_def
      get_matching_dynamic_namespace_def Let_def andthen_def whenp_def split: option.split outcome.split prod.split)

lemma answering_simps [simp]: "andthen m (answering G) sh = (case m sh of
     (Ok p, sh) \<Rightarrow> (obind (ps_encode (g_parser G) p) (\<lambda>encoded_packet. Ok (Some (encoded_into_engine encoded_packet))), sh)
   | (Err e, sh) \<Rightarrow> (Err e, sh) | (Panic, sh) \<Rightarrow> (Panic, sh))"
  by (auto simp: andthen_def answering_def lift_def ret_def split: prod.split outcome.split)

lemma run_next:
  "run_sio_task 6 G now new_id (t, sh) = run_sio_task 5 G now new_id (sio_task_step G now new_id t sh)"
  "run_sio_task 7 G now new_id (t, sh) = run_sio_task 6 G now new_id (sio_task_step G now new_id t sh)"
  "run_sio_task 8 G now new_id (t, sh) = run_sio_task 7 G now new_id (sio_task_step G now new_id t sh)"
  by (simp_all add: numeral_eq_Suc)

lemma run_match:
  assumes "sh_namespaces sh nsp = None"
  shows "run_sio_task 6 G now new_id (TaskMatch i rc nsp auth, sh) =
    completed (andthen (handle_client_connect G now new_id rc nsp i auth) (answering G)) sh"
proof (cases "find (\<lambda>(f, _). match_fn G f nsp auth) (sh_dynamic sh)")
  case None
  then show ?thesis
    by (simp add: eval_nat_numeral completed_def handle_client_connect_matching [OF assms])
next
  case (Some d)
  obtain f dn where d: "d = (f, dn)" by force
  with Some have "run_sio_task 6 G now new_id (TaskMatch i rc nsp auth, sh) =
      run_sio_task 5 G now new_id (TaskChildGet dn i rc nsp auth, sh)"
    by (simp add: run_next)
  with Some d show ?thesis
    by (simp add: run_child completed_def handle_client_connect_matching [OF assms] split: prod.split outcome.split)
qed

lemma run_packet:
  "run_sio_task 7 G now new_id (TaskPacket i rc p, sh) =
    completed (handle_packet_from_client G now new_id rc i p) sh"
proof (cases "sp_type p = TConnect")
  case True
  then have "handle_packet_from_client G now new_id rc i p =
      andthen (handle_client_connect G now new_id rc (sp_nsp p) i (sp_data p)) (answering G)"
    by (simp add: handle_packet_from_client_def answering_def [abs_def])
  moreover have "run_sio_task 7 G now new_id (TaskPacket i rc p, sh) = run_sio_task 6 G now new_id
      (if sh_namespaces sh (sp_nsp p) = None then TaskMatch i rc (sp_nsp p) (sp_data p)
       else TaskConnect i rc (sp_nsp p) (sp_data p), sh)"
    using True by (simp add: run_next(2) namespace_exists_def)
  moreover have "run_sio_task 6 G now new_id (TaskConnect i rc (sp_nsp p) (sp_data p), sh) = (TaskDone Panic, sh)"
    by (simp add: eval_nat_numeral)
  ultimately show ?thesis
    using run_match [of sh "sp_nsp p" G now new_id i rc "sp_data p"] handle_client_connect_known [of sh "sp_nsp p" G now new_id rc i "sp_data p"]
    by (cases "sh_namespaces sh (sp_nsp p)") (simp_all add: completed_def)
next
  case False
  then show ?thesis
    by (cases "sp_type p"; simp add: eval_nat_numeral handle_packet_from_client_def completed_def andthen_def
      split: option.split outcome.split)
qed

lemma run_completed: "run_sio_task n G now new_id (completed m sh) = completed m sh"
  by (simp add: completed_def split: prod.split)

lemma run_section:
  assumes "\<And>x sh'. m sh = (Ok x, sh') \<Longrightarrow> run_sio_task n G now new_id (k x, sh') = completed (f x) sh'"
  shows "run_sio_task n G now new_id (sio_section m k sh) = completed (andthen m f) sh"
  using assms
  by (auto simp: sio_section_def completed_def andthen_def split: prod.split outcome.split)

lemma completed_ret [simp]: "completed (ret x) sh = (TaskDone (Ok x), sh)" "completed panic sh = (TaskDone Panic, sh)"
  by (simp_all add: completed_def)

lemma run_error: "run_sio_task 7 G now new_id (TaskError message, sh) =
    completed (andthen (send_error message) (\<lambda>_. ret None)) sh"
  unfolding run_next sio_task_step.simps by (rule run_section) simp

lemma run_message:
  "run_sio_task 7 G now new_id (message_section G rc i d sh) = completed (handle_new_message G now new_id rc i d) sh"
proof (cases d)
  case (PdText t)
  show ?thesis
  proof (cases "ps_decode_proto (g_parser G) t")
    case (Ok proto_packet)
    with PdText show ?thesis
      by (cases proto_packet)
        (auto simp: message_section_def handle_new_message_def run_packet run_error
          intro!: run_section split: option.split outcome.split)
  next
    case (Err e)
    with PdText show ?thesis
      by (simp add: message_section_def handle_new_message_def run_error)
  next
    case Panic
    with PdText show ?thesis by (simp add: message_section_def handle_new_message_def)
  qed
next
  case (PdBinary b)
  then show ?thesis
    by (auto simp: message_section_def handle_new_message_def run_packet intro!: run_section
      split: option.split outcome.split decode_binary_success.split)
next
  case PdEmpty
  then show ?thesis by (simp add: message_section_def handle_new_message_def)
qed

lemma run_close:
  "run_sio_task 7 G now new_id (sio_section (take_connection G i) (\<lambda>taken. case taken of
       Some (ids, dropped) \<Rightarrow> TaskForget ids dropped
     | None \<Rightarrow> TaskDone (Ok None)) sh) = completed (andthen (handle_engine_socket_close G i) (\<lambda>_. ret None)) sh"
proof (cases "sh_connections sh i")
  case None
  then have "sh\<lparr>sh_connections := (sh_connections sh)(i := None)\<rparr> = sh" by (cases sh) (auto simp: fun_eq_iff)
  with None show ?thesis
    by (simp add: take_connection_def sio_section_def handle_engine_socket_close_def remove_connection_def completed_def
      andthen_def)
next
  case (Some cn)
  then show ?thesis
    by (cases "connection_drop (g_storage G) cn")
      (simp_all add: take_connection_def sio_section_def handle_engine_socket_close_def remove_connection_def
        completed_def andthen_def numeral_eq_Suc)
qed

text \<open>
  The two models of the server agree: a task that is not interrupted ends after at most eight steps,
  and it has done to the server, and given to its responder, what handling the event in one go does, on
  every event and in every state of the server, with any adapter, storage and parser. A call of
  \<open>get_namespace\<close> ends after two steps.
\<close>

theorem event_task_alone:
  "run_sio_task 8 G now new_id (TaskEvent message, sh) =
     (case on_engine_event G now new_id message sh of (r, sh') \<Rightarrow> (TaskDone r, sh')) \<and>
   run_sio_task 2 G now new_id (GetCall name, sh) =
     (case get_namespace G name sh of
        (Ok i, sh') \<Rightarrow> (GetDone name i, sh') | (Err e, sh') \<Rightarrow> (TaskDone (Err e), sh')
      | (Panic, sh') \<Rightarrow> (TaskDone Panic, sh'))"
proof
  show "run_sio_task 8 G now new_id (TaskEvent message, sh) =
     (case on_engine_event G now new_id message sh of (r, sh') \<Rightarrow> (TaskDone r, sh'))"
    unfolding completed_def [symmetric]
    by (cases message) (auto simp: run_next(3) event_section_def on_engine_event_def run_message run_close
        setup_connect_timer_def intro!: run_section)
  show "run_sio_task 2 G now new_id (GetCall name, sh) =
     (case get_namespace G name sh of
        (Ok i, sh') \<Rightarrow> (GetDone name i, sh') | (Err e, sh') \<Rightarrow> (TaskDone (Err e), sh')
      | (Panic, sh') \<Rightarrow> (TaskDone Panic, sh'))"
    by (auto simp: numeral_eq_Suc get_namespace_def get_or_create_split look_up_namespace_def andthen_def
      sio_section_def [of "insert_namespace G name"] split: option.split prod.split outcome.split)
qed

section \<open>Tasks that take turns\<close>

definition sio_turn :: "('a, 'o, 's, 'd, 'e, 'x, 't, 'n) generics \<Rightarrow> 't \<Rightarrow> rstring \<Rightarrow> nat \<Rightarrow>
    ('a, 's, 'd, 'x, 't, 'n) sio_shared \<times> 'n sio_task list \<Rightarrow> ('a, 's, 'd, 'x, 't, 'n) sio_shared \<times> 'n sio_task list" where
  "sio_turn G now new_id i = take_turn (sio_task_step G now new_id) i"

definition sio_interleaved :: "('a, 'o, 's, 'd, 'e, 'x, 't, 'n) generics \<Rightarrow> 't \<Rightarrow> rstring \<Rightarrow> nat list \<Rightarrow>
    ('a, 's, 'd, 'x, 't, 'n) sio_shared \<times> 'n sio_task list \<Rightarrow> ('a, 's, 'd, 'x, 't, 'n) sio_shared \<times> 'n sio_task list" where
  "sio_interleaved G now new_id order = take_turns (sio_task_step G now new_id) order"

text \<open>
  The life of a server with its tasks: a task takes a turn, the loop over the events spawns a task, a
  user starts a call, or the owner does something that takes one step.
\<close>

inductive tasks_step :: "('a, 'o, 's, 'd, 'e, 'x, 't, 'n) generics \<Rightarrow> (rstring list \<Rightarrow> rstring list) \<Rightarrow>
    ('a, 's, 'd, 'x, 't, 'n) sio_shared \<times> 'n sio_task list \<Rightarrow>
    ('a, 's, 'd, 'x, 't, 'n) sio_shared \<times> 'n sio_task list \<Rightarrow> bool" for G order where
  taking_turn: "tasks_step G order c (sio_turn G now new_id i c)"
| spawning: "sh_listening sh \<Longrightarrow> tasks_step G order (sh, ts) (sh, ts @ [TaskEvent message])"
| starting_call: "tasks_step G order (sh, ts) (sh, ts @ [GetCall name])"
| owner_acting: "owner_step G order sh sh' \<Longrightarrow> tasks_step G order (sh, ts) (sh', ts)"

inductive tasks_reachable :: "('a, 'o, 's, 'd, 'e, 'x, 't, 'n) generics \<Rightarrow> (rstring list \<Rightarrow> rstring list) \<Rightarrow>
    ('a, 's, 'd, 'x, 't, 'n) sio_shared \<times> 'n sio_task list \<Rightarrow> bool" for G order where
  no_tasks: "sio_server_new oc G options = Ok sh \<Longrightarrow> tasks_reachable G order (sh, [])"
| more_tasks: "tasks_reachable G order c \<Longrightarrow> tasks_step G order c c' \<Longrightarrow> tasks_reachable G order c'"

section \<open>What holds in every order\<close>

text \<open>Namespaces stay where they are and keep their names, and so do dynamic namespaces.\<close>

definition extends :: "('a, 's, 'd, 'x, 't, 'n) sio_shared \<Rightarrow> ('a, 's, 'd, 'x, 't, 'n) sio_shared \<Rightarrow> bool" where
  "extends sh sh' \<longleftrightarrow> length (sh_dynamic_heap sh) \<le> length (sh_dynamic_heap sh') \<and>
     prefix (map sn_name (sh_heap sh)) (map sn_name (sh_heap sh'))"

interpretation extension: step_relation extends
  by unfold_locales (auto simp: extends_def intro: prefix_order.trans)

definition names :: "('a, 's, 'd, 'x, 't, 'n) sio_shared \<Rightarrow> nat \<Rightarrow> rstring \<Rightarrow> bool" where
  "names sh i name \<longleftrightarrow> i < length (sh_heap sh) \<and> sn_name (sh_heap sh ! i) = namespace_key name"

lemma extends_names: "extends sh sh' \<Longrightarrow> names sh i name \<Longrightarrow> names sh' i name"
proof -
  assume "extends sh sh'" and names: "names sh i name"
  then obtain zs where zs: "map sn_name (sh_heap sh') = map sn_name (sh_heap sh) @ zs"
    by (auto simp: extends_def prefix_def)
  have "i < length (sh_heap sh')" using arg_cong [OF zs, of length] names by (simp add: names_def)
  moreover from this have "sn_name (sh_heap sh' ! i) = map sn_name (sh_heap sh') ! i" by simp
  ultimately show "names sh' i name" using names unfolding names_def zs by (simp add: nth_append)
qed

fun task_ok :: "('a, 'o, 's, 'd, 'e, 'x, 't, 'n) generics \<Rightarrow> ('a, 's, 'd, 'x, 't, 'n) sio_shared \<Rightarrow>
    'n sio_task \<Rightarrow> bool" where
  "task_ok G sh (TaskChildGet dn i rc nsp auth) = (dn < length (sh_dynamic_heap sh))"
| "task_ok G sh (TaskChildInsert dn i rc nsp auth) = (dn < length (sh_dynamic_heap sh))"
| "task_ok G sh (TaskChildAdd dn namespace i rc nsp auth) =
     (dn < length (sh_dynamic_heap sh) \<and> names sh namespace nsp)"
| "task_ok G sh (TaskAnswer p) = (\<exists>nsp. p = refusal_answer nsp)"
| "task_ok G sh (TaskDone r) = (case r of
     Ok (Some packets) \<Rightarrow> (\<exists>nsp encoded_packet. ps_encode (g_parser G) (refusal_answer nsp) = Ok encoded_packet \<and>
       packets = encoded_into_engine encoded_packet)
   | _ \<Rightarrow> True)"
| "task_ok G sh (GetDone name namespace) = names sh namespace name"
| "task_ok G sh _ = True"

lemma extends_task_ok: "extends sh sh' \<Longrightarrow> task_ok G sh t \<Longrightarrow> task_ok G sh' t"
  by (cases t) (auto simp: extends_names, auto simp: extends_def)

lemma extends_same [simp]: "sh_heap sh' = sh_heap sh \<Longrightarrow> sh_dynamic_heap sh' = sh_dynamic_heap sh \<Longrightarrow> extends sh sh'"
  by (simp add: extends_def)

text \<open>A step of a task, in a state in which nobody is connected.\<close>

definition step_ok :: "('a, 'o, 's, 'd, 'e, 'x, 't, 'n) generics \<Rightarrow> ('a, 's, 'd, 'x, 't, 'n) sio_shared \<Rightarrow>
    'n sio_task \<times> ('a, 's, 'd, 'x, 't, 'n) sio_shared \<Rightarrow> bool" where
  "step_ok G sh = (\<lambda>(t, sh'). sio_inv sh' \<and> extends sh sh' \<and> task_ok G sh' t)"

lemma step_ok_same: "sio_inv sh \<Longrightarrow> task_ok G sh t \<Longrightarrow> step_ok G sh (t, sh)"
  by (simp add: step_ok_def)

lemma insert_namespace_ok:
  assumes "insert_namespace G name sh = (r, sh')" and "sio_inv sh"
  shows "sio_inv sh' \<and> extends sh sh' \<and> (\<forall>namespace. r = Ok namespace \<longrightarrow> names sh' namespace name)"
proof (cases "simple_new (g_storage G) (namespace_key name)")
  case (Ok ns)
  have "namespaces_ok sh'" using assms Ok namespaces_ok_create [of sh ns name] simple_new_Ok [OF Ok]
    by (auto simp: insert_namespace_def sio_invD Let_def)
  with assms Ok simple_new_Ok [OF Ok] show ?thesis
    by (auto simp: insert_namespace_def sio_inv_def names_def extends_def nth_append Let_def)
qed (use assms in \<open>auto simp: insert_namespace_def\<close>)

lemma child_add_ok:
  assumes "sio_inv sh" and "dn < length (sh_dynamic_heap sh)" and "names sh namespace nsp"
  shows "sio_inv (sh\<lparr>sh_dynamic_heap := (sh_dynamic_heap sh)[dn :=
      insert_simple_namespace (sh_heap sh) namespace (sh_dynamic_heap sh ! dn)]\<rparr>)"
proof -
  have "members_ok (sh_heap sh) (insert_simple_namespace (sh_heap sh) namespace (sh_dynamic_heap sh ! dn))"
    using assms by (intro members_ok_insert) (simp_all add: sio_inv_def namespaces_ok_def names_def)
  with assms(1) show ?thesis
    by (auto simp: sio_inv_def namespaces_ok_def dest!: set_update_subset_insert [THEN subsetD])
qed

lemma message_section_ok: "sio_inv sh \<Longrightarrow> step_ok G sh (message_section G rc i d sh)"
  by (auto simp: message_section_def sio_section_def on_connection_none step_ok_same
    split: packet_data.split outcome.split proto_packet.split)

lemma on_adapter_ok: "sio_inv sh \<Longrightarrow> sio_inv (snd (on_adapter m sh)) \<and> extends sh (snd (on_adapter m sh))"
  using keepD [OF on_adapter_keeps [of m], of sh] by (simp add: on_adapter_def split: prod.splits)

lemma event_section_ok:
  assumes "sio_inv sh"
  shows "step_ok G sh (event_section G message sh)"
proof -
  have "sh\<lparr>sh_connections := (sh_connections sh)(i := None)\<rparr> = sh" for i
    using sio_invD(1) [OF assms] by (cases sh) auto
  then have "sio_section (take_connection G i) (\<lambda>taken. case taken of
         Some (ids, dropped) \<Rightarrow> TaskForget ids dropped
       | None \<Rightarrow> TaskDone (Ok None)) sh = (TaskDone (Ok None), sh)" for i
    using sio_invD(1) [OF assms] by (simp add: take_connection_def sio_section_def)
  moreover have "step_ok G sh (sio_section (on_adapter m) (\<lambda>_. TaskDone (Ok None)) sh)" for m
    using on_adapter_ok [OF assms, of m] by (auto simp: sio_section_def step_ok_def split: prod.splits outcome.splits)
  ultimately show ?thesis
    using assms by (cases message)
      (simp_all add: event_section_def message_section_ok setup_connect_timer_def step_ok_same)
qed

lemma send_error_ok: "sio_inv sh \<Longrightarrow> step_ok G sh (sio_section (send_error message) (\<lambda>_. TaskDone (Ok None)) sh)"
  using keepD [OF send_error_keeps [of message], of sh] by (simp add: send_error_def step_ok_def)

lemma find_SomeD: "find P xs = Some x \<Longrightarrow> x \<in> set xs"
  by (auto simp: find_Some_iff)

lemma task_step_ok:
  assumes "sio_inv sh" and "task_ok G sh t"
  shows "step_ok G sh (sio_task_step G now new_id t sh)"
proof (cases t)
  case (TaskEvent message)
  with assms event_section_ok show ?thesis by simp
next
  case (TaskForget ids dropped)
  have "foldl (\<lambda>lookup socket_id. lookup(socket_id := None)) Map.empty ids = Map.empty"
    by (induction ids) simp_all
  with TaskForget assms show ?thesis
    by (cases dropped) (simp_all add: step_ok_def sio_inv_def namespaces_ok_def)
next
  case (TaskMatch i rc nsp auth)
  have "dn < length (sh_dynamic_heap sh)" if "find P (sh_dynamic sh) = Some (f, dn)" for P f dn
    using find_SomeD [OF that] assms(1) by (auto simp: sio_inv_def namespaces_ok_def)
  with TaskMatch assms show ?thesis
    by (auto intro!: step_ok_same split: option.split)
next
  case (TaskPacket i rc p)
  with assms show ?thesis
    by (auto intro!: step_ok_same simp: namespace_exists_def sio_invD split: sio_type.split)
next
  case (TaskChildGet dn i rc nsp auth)
  with assms show ?thesis by (auto intro!: step_ok_same simp: look_up_namespace_def)
next
  case (TaskChildInsert dn i rc nsp auth)
  with assms insert_namespace_ok [of G nsp sh] show ?thesis
    by (auto simp: step_ok_def sio_section_def extends_def split: prod.split outcome.split)
next
  case (TaskChildAdd dn namespace i rc nsp auth)
  with assms child_add_ok [of sh dn namespace nsp] show ?thesis
    by (simp add: step_ok_def extends_def)
next
  case (TaskAnswer p)
  with assms show ?thesis
    by (cases "ps_encode (g_parser G) p") (auto intro!: step_ok_same, blast)
next
  case (GetCall name)
  with assms show ?thesis
    by (auto intro!: step_ok_same simp: look_up_namespace_def names_def sio_inv_def namespaces_ok_def split: option.split)
next
  case (GetInsert name)
  with assms insert_namespace_ok [of G name sh] show ?thesis
    by (auto simp: step_ok_def sio_section_def split: prod.split outcome.split)
qed (use assms in \<open>simp_all add: step_ok_same send_error_ok\<close>)

lemma get_or_create_extends: "keeps extends (get_or_create_namespace G name)"
proof -
  have "extends sh (snd (get_or_create_namespace G name sh))" for sh
    by (cases "get_or_create_namespace G name sh") (auto elim!: get_or_create_cases simp: extends_def)
  then show ?thesis by (simp add: keeps_def)
qed

lemma get_namespace_extends: "keeps extends (get_namespace G name)"
  unfolding get_namespace_def by (auto intro!: extension.keeps_rules get_or_create_extends)

lemma make_dynamic_extends: "keeps extends (make_dynamic_namespace descriptor)"
  by (simp add: keeps_def make_dynamic_namespace_def extends_def)

lemma server_of_extends: "keeps extends (server_of G descriptor)"
  unfolding server_of_def
  by (auto intro!: extension.keeps_rules get_namespace_extends make_dynamic_extends split: namespace_descriptor.splits)

lemma subscribe_extends: "keeps extends (sio_subscribe G)"
proof -
  have adapter: "keeps extends (on_adapter m)" for m
    by (simp add: keeps_def on_adapter_def split: prod.split)
  show ?thesis
    unfolding sio_subscribe_def subscribe_to_engine_events_def
    by (auto intro!: extension.keeps_rules adapter split: option.splits)
qed

lemma who_extends:
  assumes "map who h = map who (sh_heap sh)"
  shows "extends sh (sh\<lparr>sh_heap := h\<rparr>)"
proof -
  have "map sn_name h = map sn_name (sh_heap sh)"
    using arg_cong [OF assms, of "map fst"] by (simp add: who_def comp_def)
  then show ?thesis by (simp add: extends_def)
qed

lemma owner_step_extends: "owner_step G order sh sh' \<Longrightarrow> extends sh sh'"
proof (induction rule: owner_step.induct)
  case (joining_events sh i)
  show ?case by (rule who_extends) (rule run_at_view, rule simple_emit_who)
next
  case (emitting sh i event_name d flags)
  show ?case by (rule who_extends) (rule run_at_view, rule simple_emit_who)
next
  case (emitting_to_rooms sh i f event_name d flags)
  show ?case by (rule who_extends) (rule run_at_view, rule simple_emit_who)
next
  case (emitting_to_members sh dn event_name d flags)
  show ?case by (rule who_extends) (rule dynamic_emit_who)
qed (simp_all add: keepsD get_namespace_extends server_of_extends make_dynamic_extends subscribe_extends)

definition tasks_inv :: "('a, 'o, 's, 'd, 'e, 'x, 't, 'n) generics \<Rightarrow>
    ('a, 's, 'd, 'x, 't, 'n) sio_shared \<times> 'n sio_task list \<Rightarrow> bool" where
  "tasks_inv G = (\<lambda>(sh, ts). sio_inv sh \<and> list_all (task_ok G sh) ts)"

lemma turn_inv:
  assumes "tasks_inv G (sh, ts)"
  shows "tasks_inv G (sio_turn G now new_id i (sh, ts))"
proof (cases "i < length ts")
  case True
  obtain t sh' where t: "sio_task_step G now new_id (ts ! i) sh = (t, sh')" by force
  with task_step_ok [of sh G "ts ! i" now new_id] assms True
  have ok: "sio_inv sh'" "extends sh sh'" "task_ok G sh' t"
    by (simp_all add: tasks_inv_def list_all_length step_ok_def)
  moreover have "list_all (task_ok G sh') ts"
    using assms extends_task_ok [OF ok(2)] by (auto simp: tasks_inv_def list_all_iff)
  ultimately show ?thesis
    using True t by (auto simp: tasks_inv_def sio_turn_def take_turn_def list_all_length nth_list_update)
qed (use assms in \<open>simp add: sio_turn_def take_turn_def\<close>)

lemma tasks_step_inv: "tasks_step G order c c' \<Longrightarrow> tasks_inv G c \<Longrightarrow> tasks_inv G c'"
proof (induction rule: tasks_step.induct)
  case (taking_turn c now new_id i)
  then show ?case using turn_inv [of G "fst c" "snd c"] by simp
next
  case (owner_acting sh sh' ts)
  with owner_step_inv owner_step_extends show ?case
    by (fastforce simp: tasks_inv_def list_all_iff intro: extends_task_ok)
qed (simp_all add: tasks_inv_def)

lemma tasks_reachable_inv: "tasks_reachable G order c \<Longrightarrow> tasks_inv G c"
proof (induction rule: tasks_reachable.induct)
  case (no_tasks oc options sh)
  then show ?case by (simp add: tasks_inv_def sio_server_new_inv)
qed (rule tasks_step_inv)

text \<open>
  C7: What is true when the events are handled one after the other is true of the tasks too, in every
  order of their steps, with calls of the owner and of other users in between: nobody is connected, the
  tables agree, every namespace that \<open>get_namespace\<close> has given out bears the name asked for, and every
  answer ever given to a client is the refusal of a namespace.
\<close>

theorem tasks_are_safe:
  assumes "tasks_reachable G order (sh, ts)"
  shows "sh_connections sh = Map.empty \<and> sh_lookup sh = Map.empty \<and>
    (\<forall>ns \<in> set (sh_heap sh). sn_socket_ids ns = {}) \<and>
    (\<forall>name i. sh_namespaces sh name = Some i \<longrightarrow> names sh i name) \<and>
    (\<forall>dn \<in> set (sh_dynamic_heap sh). members_ok (sh_heap sh) dn) \<and>
    (\<forall>name i. GetDone name i \<in> set ts \<longrightarrow> names sh i name) \<and>
    (\<forall>packets. TaskDone (Ok (Some packets)) \<in> set ts \<longrightarrow>
       (\<exists>nsp encoded_packet. ps_encode (g_parser G) (refusal nsp) = Ok encoded_packet \<and>
          packets = encoded_into_engine encoded_packet))"
proof -
  have refusal: "refusal nsp = refusal_answer nsp" for nsp
    by (simp add: refusal_def refusal_answer_def imap_collect_def imap_insert_def)
  have inv: "sio_inv sh" and ok: "t \<in> set ts \<Longrightarrow> task_ok G sh t" for t
    using tasks_reachable_inv [OF assms] by (simp_all add: tasks_inv_def list_all_iff)
  from inv have "names sh i name" if "sh_namespaces sh name = Some i" for name i
    using that by (auto simp: sio_inv_def namespaces_ok_def names_def)
  with inv show ?thesis
    using ok unfolding refusal by (fastforce simp: sio_inv_def namespaces_ok_def)
qed

section \<open>Races\<close>

lemma sio_interleaved_simps [simp]:
  "sio_interleaved G now new_id [] c = c"
  "sio_interleaved G now new_id (i # is) c = sio_interleaved G now new_id is (sio_turn G now new_id i c)"
  by (simp_all add: sio_interleaved_def sio_turn_def)

lemma sio_turn_2:
  "sio_turn G now new_id 0 (sh, [t, u]) = (case sio_task_step G now new_id t sh of (t, sh) \<Rightarrow> (sh, [t, u]))"
  "sio_turn G now new_id (Suc 0) (sh, [t, u]) = (case sio_task_step G now new_id u sh of (u, sh) \<Rightarrow> (sh, [t, u]))"
  by (simp_all add: sio_turn_def take_turn_2)

lemma insert_section:
  "simple_new (g_storage G) (namespace_key name) = Ok ns \<Longrightarrow> sio_section (insert_namespace G name) k sh =
    (k (length (sh_heap sh)), sh\<lparr>sh_heap := sh_heap sh @ [ns],
       sh_namespaces := (sh_namespaces sh)(namespace_key name \<mapsto> length (sh_heap sh))\<rparr>)"
  by (simp add: sio_section_def insert_namespace_def Let_def)

text \<open>
  C23: \<open>get_or_create_namespace\<close> looks and then inserts, and another task may do so in between. Two users who
  ask for the same new namespace can then be given two different ones, of which the server knows only
  the second; and two clients who ask for the same member of a dynamic namespace can leave it with a
  member that is not the namespace the server has under this name, so that what is emitted to the one
  does not reach the other.
\<close>

theorem namespace_race:
  assumes slash: "prefix (lit ''/'') name" and "sh_namespaces sh name = None"
    and "simple_new (g_storage G) name = Ok ns"
    and "find (\<lambda>(f, _). match_fn G f name auth) (sh_dynamic sh) = Some (f, dn)"
    and "dn < length (sh_dynamic_heap sh)"
    and "sp_type p = TConnect" and "sp_nsp p = name" and "sp_data p = auth"
  shows "(\<exists>order sh' i j. sio_interleaved G now new_id order (sh, [GetCall name, GetCall name]) =
        (sh', [GetDone name i, GetDone name j]) \<and> i \<noteq> j \<and> sh_namespaces sh' name = Some j) \<and>
    (\<exists>order sh' i j. sio_interleaved G now new_id order (sh, [TaskPacket c rc p, TaskPacket c2 rc2 p]) =
        (sh', [TaskDone Panic, TaskDone Panic]) \<and> i \<noteq> j \<and> sh_namespaces sh' name = Some j \<and>
        map_of (dn_members (sh_dynamic_heap sh' ! dn)) name = Some i)"
proof
  have key [simp]: "namespace_key name = name" using slash by (simp add: namespace_key_def)
  note new = simple_new_Ok [OF assms(3)]
  have "simple_new (g_storage G) (namespace_key name) = Ok ns" using assms(3) by simp
  note steps = assms(2-) sio_turn_2 look_up_namespace_def insert_section [OF this, unfolded key]
  have "\<exists>sh' i j. sio_interleaved G now new_id [0, 1, 0, 1] (sh, [GetCall name, GetCall name]) =
        (sh', [GetDone name i, GetDone name j]) \<and> i \<noteq> j \<and> sh_namespaces sh' name = Some j"
    by (simp add: steps)
  then show "\<exists>order sh' i j. sio_interleaved G now new_id order (sh, [GetCall name, GetCall name]) =
        (sh', [GetDone name i, GetDone name j]) \<and> i \<noteq> j \<and> sh_namespaces sh' name = Some j"
    by blast
  have "\<exists>sh' i j. sio_interleaved G now new_id [0, 0, 0, 1, 1, 1, 0, 1, 1, 0, 0, 1] (sh, [TaskPacket c rc p, TaskPacket c2 rc2 p]) =
        (sh', [TaskDone Panic, TaskDone Panic]) \<and> i \<noteq> j \<and> sh_namespaces sh' name = Some j \<and>
        map_of (dn_members (sh_dynamic_heap sh' ! dn)) name = Some i"
    by (simp add: steps namespace_exists_def insert_simple_namespace_def new nth_append update_conv')
  then show "\<exists>order sh' i j. sio_interleaved G now new_id order (sh, [TaskPacket c rc p, TaskPacket c2 rc2 p]) =
        (sh', [TaskDone Panic, TaskDone Panic]) \<and> i \<noteq> j \<and> sh_namespaces sh' name = Some j \<and>
        map_of (dn_members (sh_dynamic_heap sh' ! dn)) name = Some i"
    by blast
qed


section \<open>Witnesses\<close>

theorem tasks_are_safe_witness:
  "\<exists>sh. tasks_reachable generics_ref rev (sh, [GetDone (lit ''a'') 0]) \<and> names sh 0 (lit ''a'')"
proof -
  let ?turn = "sio_turn generics_ref () (lit ''i'') 0"
  have a: "tasks_reachable generics_ref rev (sio_ref, [GetCall (lit ''a'')])"
    using more_tasks [OF no_tasks [OF sio_ref_new] starting_call] by simp
  have "tasks_reachable generics_ref rev (?turn (?turn (sio_ref, [GetCall (lit ''a'')])))"
    by (rule more_tasks [OF more_tasks [OF a taking_turn] taking_turn])
  moreover have "?turn (?turn (sio_ref, [GetCall (lit ''a'')])) = (sio_ref_a, [GetDone (lit ''a'') 0])"
    by (simp add: sio_turn_def take_turn_def look_up_namespace_def insert_namespace_def sio_section_def simple_new_def
      generics_ref_def storage_ref_def Let_def namespace_key_def lit_def)
  ultimately have r: "tasks_reachable generics_ref rev (sio_ref_a, [GetDone (lit ''a'') 0])" by simp
  with tasks_are_safe [OF r] show ?thesis by auto
qed

abbreviation dynamic_ref :: "(unit, (rstring \<times> rstring) list, nat default_decoder, unit, unit, nat) sio_shared" where
  "dynamic_ref \<equiv> sio_ref\<lparr>sh_dynamic := [(DescText (lit ''/a''), 0)], sh_dynamic_heap := [dynamic_new]\<rparr>"

theorem namespace_race_witness:
  "\<exists>order sh' i j. sio_interleaved generics_ref () (lit ''i'') order (dynamic_ref, [GetCall (lit ''/a''), GetCall (lit ''/a'')]) =
     (sh', [GetDone (lit ''/a'') i, GetDone (lit ''/a'') j]) \<and> i \<noteq> j \<and> sh_namespaces sh' (lit ''/a'') = Some j"
  using namespace_race [of "lit ''/a''" dynamic_ref generics_ref "namespace_ref (lit ''/a'') []" VNull
      "DescText (lit ''/a'')" 0 "\<lparr>sp_type = TConnect, sp_id = None, sp_nsp = lit ''/a'', sp_data = VNull\<rparr>",
      THEN conjunct1]
  by (simp add: simple_new_def generics_ref_def storage_ref_def match_fn_def lit_def namespace_key_def)

end
