(* ===== verification/Sio_Macros.thy ===== *)
theory Sio_Macros
  imports Sio_Ser
begin

text \<open>
  \<open>socket_io_parser/src/macros.rs\<close>: the macro \<open>packet_data!\<close>, which writes packet data as a JSON literal. A
  macro is a function on token trees: \<open>expand\<close> is the code it expands to, or \<open>None\<close> if no rule fits, which
  is a compile error. A Rust expression in the place of a value is one token here, whatever it looks like,
  and its value is what it serializes as. \<open>packet_data_unexpected!\<close> and
  \<open>packet_data_expect_expr_comma!\<close> never fit what they are given, so they are compile errors too.

  What depends on the place where the macro is called, and on the compiler, is the record \<open>site\<close>. \<open>key_of\<close>
  tells which tokens make a key (an expression with an \<open>Into<String>\<close>), and which string it is.
  \<open>object_names\<close> tells whether \<open>indexmap::IndexMap\<close> and \<open>PacketDataValue\<close> are in scope there, with their usual
  meaning: the rule for an object with entries writes these two names without \<open>$crate\<close>, so they are looked
  up where the macro is called. \<open>within_limit\<close> tells whether the compiler's limit for the nesting of macro
  expansions is high enough for the tokens; every element of an array and every token of a key takes
  one or more expansions.
\<close>

section \<open>Expansion\<close>

datatype 'v tok = TkNull | TkTrue | TkFalse | TkComma | TkColon | TkExpr 'v
  | TkBracket "'v tok list" | TkBrace "'v tok list"

datatype 'v code = CNull | CBool bool | CExpr 'v
  | CArray "'v code list" | CObject "(rstring \<times> 'v code) list"

record 'v site =
  key_of :: "'v tok list \<Rightarrow> rstring option"
  object_names :: bool
  within_limit :: "'v tok list \<Rightarrow> bool"

text \<open>
  \<open>expand_one\<close> is \<open>packet_data_internal!\<close> on one token tree. In \<open>munch_array\<close> the elements so far are given
  with whether each of them is followed by a comma; without elements both patterns fit. \<open>munch_object\<close>
  munches the tokens of a key, and \<open>munch_entry\<close> has the key and the value of the current entry.
\<close>

fun expand_one :: "'v site \<Rightarrow> 'v tok \<Rightarrow> 'v code option"
  and munch_array :: "'v site \<Rightarrow> 'v code list \<Rightarrow> bool \<Rightarrow> 'v tok list \<Rightarrow> 'v code list option"
  and munch_object :: "'v site \<Rightarrow> (rstring \<times> 'v code) list \<Rightarrow> 'v tok list \<Rightarrow>
    'v tok list \<Rightarrow> (rstring \<times> 'v code) list option"
  and munch_entry :: "'v site \<Rightarrow> (rstring \<times> 'v code) list \<Rightarrow> 'v tok list \<Rightarrow>
    'v code option \<Rightarrow> 'v tok list \<Rightarrow> (rstring \<times> 'v code) list option"
where
  "expand_one K TkNull = Some CNull"
| "expand_one K TkTrue = Some (CBool True)"
| "expand_one K TkFalse = Some (CBool False)"
| "expand_one K (TkBracket []) = Some (CArray [])"
| "expand_one K (TkBracket (t # ts)) = map_option CArray (munch_array K [] True (t # ts))"
| "expand_one K (TkBrace []) = Some (CObject [])"
| "expand_one K (TkBrace (t # ts)) = 
     (if object_names K then map_option CObject (munch_object K [] [] (t # ts)) else None)"
| "expand_one K (TkExpr v) = Some (CExpr v)"
| "expand_one K _ = None"
| "munch_array K elems comma [] = Some elems"
| "munch_array K elems comma (TkComma # rest) =
     (if \<not> comma \<or> elems = [] then munch_array K elems True rest else None)"
| "munch_array K elems comma (TkExpr v # rest) =
     (if \<not> comma then None
      else case rest of
             [] \<Rightarrow> munch_array K (elems @ [CExpr v]) False []
           | t # rest' \<Rightarrow>
               if t = TkComma then munch_array K (elems @ [CExpr v]) True rest' else None)"
| "munch_array K elems comma (t # rest) =
     (if \<not> comma then None
      else case expand_one K t of
             Some c \<Rightarrow> munch_array K (elems @ [c]) False rest
           | None \<Rightarrow> None)"
| "munch_object K obj [] [] = Some obj"
| "munch_object K obj (k # key) [] = None"
| "munch_object K obj key (TkComma # rest) = None"
| "munch_object K obj [] (TkColon # rest) = None"
| "munch_object K obj (k # key) (TkColon # rest) =
     (case rest of
        [] \<Rightarrow> None
      | TkExpr v # rest' \<Rightarrow>
          if rest' = [] \<or> hd rest' = TkComma then munch_entry K obj (k # key) (Some (CExpr v)) rest' else None
      | TkComma # rest' \<Rightarrow> None
      | TkColon # rest' \<Rightarrow> None
      | t # rest' \<Rightarrow> munch_entry K obj (k # key) (expand_one K t) rest')"
| "munch_object K obj key (t # rest) = munch_object K obj (key @ [t]) rest"
| "munch_entry K obj key value rest =
     (case (key_of K key, value) of
        (Some k, Some c) \<Rightarrow>
          (case rest of
             [] \<Rightarrow> Some (obj @ [(k, c)])
           | t # rest' \<Rightarrow> if t = TkComma then munch_object K (obj @ [(k, c)]) [] rest' else None)
      | _ \<Rightarrow> None)"

definition packet_data_expand :: "'v site \<Rightarrow> 'v tok list \<Rightarrow> 'v code option" where
  "packet_data_expand K tts =
     (if within_limit K tts then (case tts of [t] \<Rightarrow> expand_one K t | _ \<Rightarrow> None) else None)"

section \<open>The code\<close>

text \<open>\<open>to_value(&e).unwrap()\<close> for the expressions; the entries of an object are inserted into a new map.\<close>

fun run_code :: "('n, 'f, 'g) number_conv \<Rightarrow> ('f, 'g) sdata code \<Rightarrow> 'n ser_result"
  and run_codes :: "('n, 'f, 'g) number_conv \<Rightarrow> ('f, 'g) sdata code list \<Rightarrow> (unit, 'n pvalue list) outcome"
  and run_entries :: "('n, 'f, 'g) number_conv \<Rightarrow> (rstring \<times> 'n pvalue) list \<Rightarrow>
    (rstring \<times> ('f, 'g) sdata code) list \<Rightarrow> (unit, (rstring \<times> 'n pvalue) list) outcome"
where
  "run_code E CNull = Ok VNull"
| "run_code E (CBool b) = Ok (VBool b)"
| "run_code E (CExpr v) = (case to_value E v of Ok x \<Rightarrow> Ok x | _ \<Rightarrow> Panic)"
| "run_code E (CArray cs) = obind (run_codes E cs) (\<lambda>xs. Ok (VArray xs))"
| "run_code E (CObject es) = obind (run_entries E [] es) (\<lambda>obj. Ok (VObject obj))"
| "run_codes E [] = Ok []"
| "run_codes E (c # cs) = obind (run_code E c) (\<lambda>x. obind (run_codes E cs) (\<lambda>xs. Ok (x # xs)))"
| "run_entries E obj [] = Ok obj"
| "run_entries E obj ((k, c) # es) =
     obind (run_code E c) (\<lambda>x. run_entries E (imap_insert k x obj) es)"


section \<open>Literals\<close>

text \<open>
  JSON literals as the macro's documentation describes them: \<open>null\<close>, booleans, expressions, arrays and
  objects, whose keys are token sequences, each with or without a trailing comma. \<open>lit_tok\<close> writes a
  literal, \<open>lit_code\<close> is the code it should expand to and \<open>lit_data\<close> the data it stands for.
\<close>

datatype 'v literal = LNull | LBool bool | LExpr 'v
  | LArray "'v literal list" bool | LObject "('v tok list \<times> 'v literal) list" bool

fun commas :: "bool \<Rightarrow> 'v tok list list \<Rightarrow> 'v tok list" where
  "commas trailing [] = []"
| "commas trailing [item] = item @ (if trailing then [TkComma] else [])"
| "commas trailing (item # items) = item @ TkComma # commas trailing items"

fun lit_tok :: "'v literal \<Rightarrow> 'v tok" where
  "lit_tok LNull = TkNull"
| "lit_tok (LBool b) = (if b then TkTrue else TkFalse)"
| "lit_tok (LExpr v) = TkExpr v"
| "lit_tok (LArray ls trailing) = TkBracket (commas trailing (map (\<lambda>l. [lit_tok l]) ls))"
| "lit_tok (LObject es trailing) =
     TkBrace (commas trailing (map (\<lambda>kl. fst kl @ [TkColon, lit_tok (snd kl)]) es))"

fun lit_code :: "'v site \<Rightarrow> 'v literal \<Rightarrow> 'v code" where
  "lit_code K LNull = CNull"
| "lit_code K (LBool b) = CBool b"
| "lit_code K (LExpr v) = CExpr v"
| "lit_code K (LArray ls trailing) = CArray (map (lit_code K) ls)"
| "lit_code K (LObject es trailing) = CObject (map (\<lambda>kl. (the (key_of K (fst kl)), lit_code K (snd kl))) es)"

fun lit_data :: "('f, 'g) sdata site \<Rightarrow> ('f, 'g) sdata literal \<Rightarrow> ('f, 'g) sdata" where
  "lit_data K LNull = SUnit"
| "lit_data K (LBool b) = SBool b"
| "lit_data K (LExpr v) = v"
| "lit_data K (LArray ls trailing) = SSeq None (map (lit_data K) ls)"
| "lit_data K (LObject es trailing) =
     SMap None (entry_calls (map (\<lambda>kl. (the (key_of K (fst kl)), lit_data K (snd kl))) es))"

text \<open>A key is an expression of at least one token, without a comma or a colon at its top level.\<close>

definition key_ok :: "'v site \<Rightarrow> 'v tok list \<Rightarrow> bool" where
  "key_ok K key \<longleftrightarrow> key \<noteq> [] \<and> TkComma \<notin> set key \<and> TkColon \<notin> set key \<and> key_of K key \<noteq> None"

fun keys_ok :: "'v site \<Rightarrow> 'v literal \<Rightarrow> bool" where
  "keys_ok K (LArray ls trailing) = list_all (keys_ok K) ls"
| "keys_ok K (LObject es trailing) = list_all (\<lambda>kl. key_ok K (fst kl) \<and> keys_ok K (snd kl)) es"
| "keys_ok K l = True"

text \<open>An object with entries, anywhere in the literal: what the macro needs its two names for.\<close>

fun has_object :: "'v literal \<Rightarrow> bool" where
  "has_object (LArray ls trailing) = list_ex has_object ls"
| "has_object (LObject es trailing) = (es \<noteq> [])"
| "has_object l = False"

lemma munch_key:
  "TkComma \<notin> set ks \<Longrightarrow> TkColon \<notin> set ks \<Longrightarrow>
    munch_object K obj key (ks @ TkColon # rest) = munch_object K obj (key @ ks) (TkColon # rest)"
proof (induction ks arbitrary: key)
  case (Cons t ks)
  then show ?case by (cases t; cases key) simp_all
qed simp

lemma lit_tok_not_separator: "lit_tok l \<noteq> TkComma" "lit_tok l \<noteq> TkColon"
  by (cases l; simp)+

lemma munch_array_literal:
  assumes "expand_one K (lit_tok l) = Some c"
  shows "munch_array K elems True [lit_tok l] = Some (elems @ [c])"
    and "munch_array K elems True (lit_tok l # TkComma # rest) = munch_array K (elems @ [c]) True rest"
  using assms by (cases l; auto)+

lemma munch_entry_literal:
  assumes "expand_one K (lit_tok l) = Some c" and "key_ok K key"
  shows "munch_object K obj [] (key @ [TkColon, lit_tok l]) = Some (obj @ [(the (key_of K key), c)])"
    and "munch_object K obj [] (key @ TkColon # lit_tok l # TkComma # rest) =
      munch_object K (obj @ [(the (key_of K key), c)]) [] rest"
proof -
  from assms(2) obtain k ks where key: "key = k # ks"
    by (cases key) (auto simp: key_ok_def)
  from assms(2) obtain s where K: "key_of K (k # ks) = Some s"
    by (auto simp: key_ok_def key)
  have munch: "munch_object K obj [] (key @ TkColon # toks) = munch_object K obj key (TkColon # toks)" for toks
    using munch_key [of key K obj "[]" toks] assms(2) by (simp add: key_ok_def)
  show "munch_object K obj [] (key @ [TkColon, lit_tok l]) = Some (obj @ [(the (key_of K key), c)])"
    using assms(1) K unfolding munch by (cases l) (auto simp: key)
  show "munch_object K obj [] (key @ TkColon # lit_tok l # TkComma # rest) =
      munch_object K (obj @ [(the (key_of K key), c)]) [] rest"
    using assms(1) K unfolding munch by (cases l) (auto simp: key)
qed

lemma munch_array_literals:
  assumes "\<And>l. l \<in> set ls \<Longrightarrow> expand_one K (lit_tok l) = Some (code l)"
  shows "munch_array K elems True (commas trailing (map (\<lambda>l. [lit_tok l]) ls)) = Some (elems @ map code ls)"
  using assms
proof (induction ls arbitrary: elems rule: induct_list012)
  case (2 l)
  then show ?case using munch_array_literal [of K l "code l"] by simp
next
  case (3 l l' ls)
  then show ?case using munch_array_literal [of K l "code l"] by simp
qed simp

lemma munch_object_literals:
  assumes "\<And>kl. kl \<in> set es \<Longrightarrow> key_ok K (fst kl) \<and> expand_one K (lit_tok (snd kl)) = Some (code (snd kl))"
  shows "munch_object K obj [] (commas trailing (map (\<lambda>kl. fst kl @ [TkColon, lit_tok (snd kl)]) es)) =
    Some (obj @ map (\<lambda>kl. (the (key_of K (fst kl)), code (snd kl))) es)"
  using assms
proof (induction es arbitrary: obj rule: induct_list012)
  case (2 kl)
  then show ?case using munch_entry_literal [of K "snd kl" "code (snd kl)" "fst kl"] by simp
next
  case (3 kl kl' es)
  then show ?case using munch_entry_literal [of K "snd kl" "code (snd kl)" "fst kl"] by simp
qed simp

lemma commas_Nil: "commas trailing items = [] \<longleftrightarrow> items = [] \<or> (items = [[]] \<and> \<not> trailing)"
  by (cases "(trailing, items)" rule: commas.cases) auto

lemma expand_literal:
  "keys_ok K l \<Longrightarrow> object_names K \<or> \<not> has_object l \<Longrightarrow> expand_one K (lit_tok l) = Some (lit_code K l)"
proof (induction l)
  case (LArray ls trailing)
  then have munch: "munch_array K [] True (commas trailing (map (\<lambda>l. [lit_tok l]) ls)) = Some (map (lit_code K) ls)"
    using munch_array_literals [of ls K "lit_code K" "[]"] by (auto simp: list_all_iff list_ex_iff)
  show ?case
    by (cases ls; cases "commas trailing (map (\<lambda>l. [lit_tok l]) ls)")
      (use munch in \<open>auto simp: commas_Nil\<close>)
next
  case (LObject es trailing)
  have names: "object_names K" if "es \<noteq> []" using LObject.prems(2) that by simp
  have "key_ok K (fst kl) \<and> expand_one K (lit_tok (snd kl)) = Some (lit_code K (snd kl))" if "kl \<in> set es" for kl
    using LObject.IH [OF that, of "snd kl"] LObject.prems that by (cases kl) (auto simp: list_all_iff prod_set_simps)
  then have munch: "munch_object K [] [] (commas trailing (map (\<lambda>kl. fst kl @ [TkColon, lit_tok (snd kl)]) es)) =
      Some (map (\<lambda>kl. (the (key_of K (fst kl)), lit_code K (snd kl))) es)"
    using munch_object_literals [of es K "lit_code K" "[]"] by simp
  show ?case
    by (cases es; cases "commas trailing (map (\<lambda>kl. fst kl @ [TkColon, lit_tok (snd kl)]) es)")
      (use munch names in \<open>auto simp: commas_Nil\<close>)
qed simp_all

text \<open>Without the two names no literal with entries of an object anywhere in it expands.\<close>

lemma munch_array_stuck:
  assumes "expand_one K (lit_tok l) = None"
  shows "munch_array K elems True (lit_tok l # rest) = None"
  using assms by (cases l; cases "lit_tok l") (auto split: if_splits)

lemma munch_array_names:
  assumes "\<And>l. l \<in> set ls \<Longrightarrow> has_object l \<Longrightarrow> expand_one K (lit_tok l) = None"
    and "\<And>l. l \<in> set ls \<Longrightarrow> \<not> has_object l \<Longrightarrow> expand_one K (lit_tok l) = Some (lit_code K l)"
    and "list_ex has_object ls"
  shows "munch_array K elems True (commas trailing (map (\<lambda>l. [lit_tok l]) ls)) = None"
  using assms
proof (induction ls arbitrary: elems rule: induct_list012)
  case (2 l)
  then show ?case using munch_array_stuck [of K l] by simp
next
  case (3 l l' ls)
  show ?case
  proof (cases "has_object l")
    case True
    with 3(3) have "expand_one K (lit_tok l) = None" by simp
    from munch_array_stuck [OF this] show ?thesis by simp
  next
    case False
    with 3(4) have "expand_one K (lit_tok l) = Some (lit_code K l)" by simp
    from munch_array_literal(2) [OF this] 3(2) [of "elems @ [lit_code K l]"] 3(3-5) False show ?thesis by simp
  qed
qed simp

lemma expand_names:
  "keys_ok K l \<Longrightarrow> \<not> object_names K \<Longrightarrow> has_object l \<Longrightarrow> expand_one K (lit_tok l) = None"
proof (induction l)
  case (LArray ls trailing)
  then have "munch_array K [] True (commas trailing (map (\<lambda>l. [lit_tok l]) ls)) = None"
    by (intro munch_array_names) (auto simp: list_all_iff intro: expand_literal)
  with LArray.prems show ?case
    by (cases ls; cases "commas trailing (map (\<lambda>l. [lit_tok l]) ls)") (auto simp: commas_Nil)
next
  case (LObject es trailing)
  then show ?case
    by (cases es; cases "commas trailing (map (\<lambda>kl. fst kl @ [TkColon, lit_tok (snd kl)]) es)")
      (auto simp: commas_Nil)
qed simp_all

section \<open>What the code does\<close>

definition unwrapped :: "('e, 'a) outcome \<Rightarrow> ('e, 'a) outcome" where
  "unwrapped r = (case r of Ok x \<Rightarrow> Ok x | _ \<Rightarrow> Panic)"

lemma unwrapped_simps [simp]: "unwrapped (Ok x) = Ok x" "unwrapped (Err e) = Panic" "unwrapped Panic = Panic"
  by (simp_all add: unwrapped_def)

lemma run_codes_ser_vec:
  assumes "\<And>l. l \<in> set ls \<Longrightarrow> run_code E (code l) = unwrapped (to_value E (data l))"
  shows "unwrapped (ser_vec E vec (map data ls)) = obind (run_codes E (map code ls)) (\<lambda>xs. Ok (vec @ xs))"
  using assms
proof (induction ls arbitrary: vec)
  case (Cons l ls)
  have ih: "unwrapped (ser_vec E (vec @ [x]) (map data ls)) =
      obind (run_codes E (map code ls)) (\<lambda>xs. Ok (vec @ x # xs))" for x
    using Cons.IH [of "vec @ [x]"] Cons.prems by simp
  have "run_code E (code l) = unwrapped (to_value E (data l))"
    using Cons.prems by simp
  then show ?case
    by (cases "to_value E (data l)"; cases "run_codes E (map code ls)") (simp_all add: ih)
qed simp

lemma run_entries_ser_calls:
  assumes "\<And>kl. kl \<in> set es \<Longrightarrow> run_code E (code (snd kl)) = unwrapped (to_value E (data (snd kl)))"
    and "sm_next_key sm = None"
  shows "unwrapped (obind (ser_calls E sm (entry_calls (map (\<lambda>kl. (key (fst kl), data (snd kl))) es)))
      (\<lambda>sm. Ok (sm_map sm))) = run_entries E (sm_map sm) (map (\<lambda>kl. (key (fst kl), code (snd kl))) es)"
  using assms
proof (induction es arbitrary: sm)
  case (Cons kl es)
  then show ?case
    by (cases "to_value E (data (snd kl))") (simp_all add: map_serialize_key_def map_serialize_value_def)
qed simp

lemma run_literal: "run_code E (lit_code K l) = unwrapped (to_value E (lit_data K l))"
proof (induction l)
  case (LExpr v)
  show ?case by (simp add: unwrapped_def)
next
  case (LArray ls trailing)
  then have elements: "unwrapped (ser_vec E [] (map (lit_data K) ls)) = run_codes E (map (lit_code K) ls)"
    using run_codes_ser_vec [of ls E "lit_code K" "lit_data K" "[]"]
    by (cases "run_codes E (map (lit_code K) ls)") simp_all
  show ?case
    by (cases "ser_vec E [] (map (lit_data K) ls)") (simp_all flip: elements)
next
  case (LObject es trailing)
  have "run_code E (lit_code K (snd kl)) = unwrapped (to_value E (lit_data K (snd kl)))" if "kl \<in> set es" for kl
    using LObject.IH [OF that, of "snd kl"] by (cases kl) (auto simp: prod_set_simps)
  then have entries: "unwrapped (obind (ser_calls E \<lparr>sm_map = [], sm_next_key = None\<rparr>
        (entry_calls (map (\<lambda>kl. (the (key_of K (fst kl)), lit_data K (snd kl))) es))) (\<lambda>sm. Ok (sm_map sm))) =
      run_entries E [] (map (\<lambda>kl. (the (key_of K (fst kl)), lit_code K (snd kl))) es)"
    using run_entries_ser_calls [of es E "lit_code K" "lit_data K" "\<lparr>sm_map = [], sm_next_key = None\<rparr>"
        "\<lambda>k. the (key_of K k)"] by simp
  show ?case
    by (cases "ser_calls E \<lparr>sm_map = [], sm_next_key = None\<rparr>
        (entry_calls (map (\<lambda>kl. (the (key_of K (fst kl)), lit_data K (snd kl))) es))") (simp_all flip: entries)
qed simp_all

section \<open>Properties\<close>

text \<open>
  C27: Take a JSON literal as the macro's documentation describes them, nested at any depth and with or
  without a trailing comma in any array or object, whose keys are expressions that convert to strings
  and which is within the compiler's recursion limit. Where \<open>indexmap::IndexMap\<close> and \<open>PacketDataValue\<close> are
  in scope, or the literal has no object with entries, the macro accepts it, and the value its code makes
  is what \<open>to_value\<close> makes of the data the literal stands for: the elements and entries in the order
  written, of equal keys the last value; if one of the values does not serialize the code panics.
  Elsewhere the literal does not compile.
\<close>

theorem macro_is_to_value:
  assumes "keys_ok K l" and "within_limit K [lit_tok l]"
  shows "if object_names K \<or> \<not> has_object l
    then \<exists>c. packet_data_expand K [lit_tok l] = Some c \<and>
      run_code E c = (case to_value E (lit_data K l) of Ok v \<Rightarrow> Ok v | _ \<Rightarrow> Panic)
    else packet_data_expand K [lit_tok l] = None"
  using expand_literal [OF assms(1)] expand_names [OF assms(1)] run_literal [of E K l] assms(2)
  by (simp add: packet_data_expand_def unwrapped_def)

text \<open>A place with the names in scope, and one as in the macro's own examples, which import only the macro.\<close>

definition site_ref :: "bool \<Rightarrow> ('f, 'g) sdata site" where
  "site_ref names =
     \<lparr>key_of = (\<lambda>key. case key of [TkExpr (SStr s)] \<Rightarrow> Some s | _ \<Rightarrow> None), object_names = names,
      within_limit = (\<lambda>tts. length tts < 128)\<rparr>"

abbreviation example_literal :: "('f, 'g) sdata literal" where
  "example_literal \<equiv>
     LObject [([TkExpr (SStr (lit ''k''))], LArray [LNull, LBool True, LExpr (SStr (lit ''x''))] True)] True"

lemma example_literal_ok: "keys_ok (site_ref names) example_literal" "within_limit (site_ref names) [t]"
  by (simp_all add: key_ok_def site_ref_def)

theorem macro_is_to_value_witness:
  "(\<exists>c. packet_data_expand (site_ref True) [lit_tok example_literal] = Some c \<and>
    run_code numbers_ref c =
      (case to_value numbers_ref (lit_data (site_ref True) example_literal) of Ok v \<Rightarrow> Ok v | _ \<Rightarrow> Panic)) \<and>
   packet_data_expand (site_ref False :: (unit, unit) sdata site) [lit_tok example_literal] = None"
  using macro_is_to_value [OF example_literal_ok, of True numbers_ref]
    macro_is_to_value [OF example_literal_ok, of False numbers_ref]
  by (simp only: has_object.simps) (simp add: site_ref_def)

text \<open>
  What the macro refuses is a compile error: nothing, two values, a missing comma in an array or an
  object, two commas after an element, a key without a colon or a value, a colon without a key; but an
  array, unlike an object, may begin with a comma.
\<close>

theorem macro_compile_errors:
  assumes "keys_ok K l" "keys_ok K l'" "key_ok K key" and names: "object_names K"
  shows "packet_data_expand K [] = None \<and> packet_data_expand K [lit_tok l, lit_tok l'] = None \<and>
    expand_one K (TkBracket [lit_tok l, lit_tok l']) = None \<and>
    expand_one K (TkBracket [lit_tok l, TkComma, TkComma]) = None \<and>
    expand_one K (TkBrace (key @ [TkColon, lit_tok l, lit_tok l'])) = None \<and>
    expand_one K (TkBrace (key @ [TkColon])) = None \<and> expand_one K (TkBrace key) = None \<and>
    expand_one K (TkBrace [TkColon, lit_tok l]) = None \<and> expand_one K (TkBrace [TkComma]) = None \<and>
    expand_one K (TkBracket [TkComma, lit_tok l]) = Some (CArray [lit_code K l])"
proof -
  obtain k ks where key: "key = k # ks"
    using assms(3) by (cases key) (auto simp: key_ok_def)
  have munch: "munch_object K [] [] (key @ TkColon # toks) = munch_object K [] key (TkColon # toks)" for toks
    using munch_key [of key K "[]" "[]" toks] assms(3) by (simp add: key_ok_def)
  have ends: "munch_object K obj ks' ts = None"
    if "ks' @ ts \<noteq> []" "TkComma \<notin> set ts" "TkColon \<notin> set ts" for obj ks' ts
    using that
  proof (induction ts arbitrary: ks')
    case Nil
    then show ?case by (cases ks') simp_all
  next
    case (Cons t ts)
    then show ?case by (cases t; cases ks') simp_all
  qed
  have "expand_one K (TkBrace key) = None"
    using ends [of "[]" key] assms(3) by (simp add: key key_ok_def)
  moreover have "expand_one K (TkBrace (key @ TkColon # toks)) =
      map_option CObject (munch_object K [] key (TkColon # toks))" for toks
    using munch [of toks] by (simp add: key names)
  moreover have "munch_object K [] key [TkColon, lit_tok l, lit_tok l'] = None"
    using lit_tok_not_separator [of l'] by (cases l) (auto simp: key split: option.splits)
  moreover have "munch_array K [] True [lit_tok l, lit_tok l'] = None"
    using expand_literal [OF assms(1) disjI1 [OF names]] lit_tok_not_separator [of l'] by (cases l; cases "lit_tok l'") auto
  ultimately show ?thesis
    using expand_literal [OF assms(1) disjI1 [OF names]] munch_array_literal [of K l "lit_code K l" "[]"]
      lit_tok_not_separator [of l]
    by (simp add: key packet_data_expand_def)
qed

theorem macro_compile_errors_witness:
  "expand_one (site_ref True) (TkBracket [lit_tok example_literal, lit_tok (LNull :: (unit, unit) sdata literal)]) = None"
  by (rule macro_compile_errors [where key = "[TkExpr (SStr (lit ''k''))]", THEN conjunct2, THEN conjunct2,
      THEN conjunct1]) (simp_all add: key_ok_def site_ref_def)

end
