(* ===== verification/Stack.thy ===== *)
theory Stack
  imports Sio_Server Warp_Server
begin

text \<open>
  The whole program: the Socket.IO server over the Engine.IO server of the warp adapter. The adapter is
  the state \<open>sh_adapter\<close> of the one and holds the other, the events of the one are read by the loop of the
  other (\<open>subscribe_to_engine_events\<close> in \<open>socket_io_server/src/server.rs\<close>), and clients act on the Engine.IO
  server only. The request channel between the two is a list here, and \<open>emit\<close> is what sending an event
  on it does: it adds the event or drops it.
\<close>

section \<open>The two servers together\<close>

definition warp_sio_adapter :: "(server_event list standalone_adapter, warp_adapter_options) sio_adapter" where
  "warp_sio_adapter =
     \<lparr>ad_new = (\<lambda>server_options options. standalone_new server_options options []),
      ad_subscribe = standalone_subscribe, ad_close_socket = standalone_close_socket\<rparr>"

type_synonym ('s, 'd, 'x, 't, 'n) stack = "(server_event list standalone_adapter, 's, 'd, 'x, 't, 'n) sio_shared"

definition engine :: "('s, 'd, 'x, 't, 'n) stack \<Rightarrow> (websocket_transport, polling_transport, server_event list) server" where
  "engine sh = sa_server (sh_adapter sh)"

definition set_engine :: "(websocket_transport, polling_transport, server_event list) server \<Rightarrow>
    ('s, 'd, 'x, 't, 'n) stack \<Rightarrow> ('s, 'd, 'x, 't, 'n) stack" where
  "set_engine sv sh = sh\<lparr>sh_adapter := (sh_adapter sh)\<lparr>sa_server := sv\<rparr>\<rparr>"

text \<open>One turn of the loop over the events: the next event is taken, and its task runs.\<close>

definition next_event :: "(server_event list standalone_adapter, 'o, 's, 'd, 'e, 'x, 't, 'n) generics \<Rightarrow> 't \<Rightarrow> rstring \<Rightarrow>
    (server_event list standalone_adapter, 's, 'd, 'x, 't, 'n, packet list option) ioprog" where
  "next_event G now new_id = (\<lambda>sh.
     case sv_owner (engine sh) of
       [] \<Rightarrow> (Ok None, sh)
     | message # messages \<Rightarrow>
         if sh_listening sh
         then on_engine_event G now new_id message (set_engine ((engine sh)\<lparr>sv_owner := messages\<rparr>) sh)
         else (Ok None, sh))"

inductive stack_step :: "(websocket_transport, polling_transport, 'h, 'b, 'r) adapter \<Rightarrow>
    (rstring \<Rightarrow> rstring list \<Rightarrow> 32 word \<Rightarrow> 32 word \<Rightarrow> rstring) \<Rightarrow>
    (server_event \<Rightarrow> server_event list \<Rightarrow> server_event list) \<Rightarrow>
    (server_event list standalone_adapter, warp_adapter_options, 's, 'd, 'e, 'x, 't, 'n) generics \<Rightarrow>
    (rstring list \<Rightarrow> rstring list) \<Rightarrow> ('s, 'd, 'x, 't, 'n) stack \<Rightarrow> ('s, 'd, 'x, 't, 'n) stack \<Rightarrow> bool"
  for A open_json emit G order where
  client: "server_step A open_json emit (engine sh) sv \<Longrightarrow> stack_step A open_json emit G order sh (set_engine sv sh)"
| owner: "owner_step G order sh sh' \<Longrightarrow> stack_step A open_json emit G order sh sh'"
| engine_event: "stack_step A open_json emit G order sh (snd (next_event G now new_id sh))"

inductive stack_reachable :: "(websocket_transport, polling_transport, 'h, 'b, 'r) adapter \<Rightarrow>
    (rstring \<Rightarrow> rstring list \<Rightarrow> 32 word \<Rightarrow> 32 word \<Rightarrow> rstring) \<Rightarrow>
    (server_event \<Rightarrow> server_event list \<Rightarrow> server_event list) \<Rightarrow>
    (server_event list standalone_adapter, warp_adapter_options, 's, 'd, 'e, 'x, 't, 'n) generics \<Rightarrow>
    (rstring list \<Rightarrow> rstring list) \<Rightarrow> ('s, 'd, 'x, 't, 'n) stack \<Rightarrow> bool"
  for A open_json emit G order where
  stack_start: "sio_server_new oc G options = Ok sh \<Longrightarrow> stack_reachable A open_json emit G order sh"
| stack_more: "stack_reachable A open_json emit G order sh \<Longrightarrow> stack_step A open_json emit G order sh sh' \<Longrightarrow>
    stack_reachable A open_json emit G order sh'"

section \<open>What the Engine.IO server says\<close>

fun quiet_message :: "server_event \<Rightarrow> bool" where
  "quiet_message (VFlush i) = True"
| "quiet_message (VDrain i) = True"
| "quiet_message (VClose i reason) = True"
| "quiet_message _ = False"

definition emit_laws :: "(server_event \<Rightarrow> server_event list \<Rightarrow> server_event list) \<Rightarrow> bool" where
  "emit_laws emit \<longleftrightarrow> (\<forall>message messages. set (emit message messages) \<subseteq> insert message (set messages))"

definition same_owner :: "('w, 'p, 'q) server \<Rightarrow> ('w, 'p, 'q) server \<Rightarrow> bool" where
  "same_owner sv sv' \<longleftrightarrow> sv_owner sv' = sv_owner sv"

interpretation owners: step_relation same_owner
  by unfold_locales (simp_all add: same_owner_def)

lemma run_client_owner: "keeps same_owner (run_client i m)"
  by (simp add: keeps_def same_owner_def run_client_def split: option.split prod.split)

lemma handshake_owner: "keeps same_owner (handshake A open_json emit sid rc hs)"
proof -
  have "same_owner sv (snd (handshake A open_json emit sid rc hs sv))" for sv
    using handshake_fails [of A open_json emit sid rc hs sv] by (auto simp: same_owner_def)
  then show ?thesis by (simp add: keeps_def)
qed

lemma request_owner: "keeps same_owner (handle_request A open_json emit new_sid rc body)"
  unfolding handle_request_def verify_request_def get_client_or_error_def Let_def
  by (auto intro!: owners.keeps_rules run_client_owner handshake_owner split: option.splits)

lemma handshake_owner_eq: "handshake A open_json emit sid rc hs sv = (r, sv') \<Longrightarrow> sv_owner sv' = sv_owner sv"
  using keepsD [OF handshake_owner, of sv A open_json emit sid rc hs] by (simp add: same_owner_def)

lemma upgrade_owner: "keeps same_owner (handle_upgrade A open_json emit new_sid rc socket)"
  by (auto simp: keeps_def same_owner_def handle_upgrade_def expect_ok_def ignore_err_def get_client_or_error_def
      andthen_def dest: handshake_owner_eq split: option.splits prod.splits outcome.splits)

lemma send_owner: "keeps same_owner (server_send_packet_with_ack A i p cb)"
  unfolding server_send_packet_with_ack_def
  by (auto intro!: owners.keeps_rules prog_err_keeps run_client_owner split: option.splits)

definition engine_quiet :: "('w, 'p, server_event list) server \<Rightarrow> bool" where
  "engine_quiet sv \<longleftrightarrow> server_inv sv \<and> list_all quiet_message (sv_owner sv)"

lemma forwarded_quiet: "quiet_event e \<Longrightarrow> forwarded e = Some message \<Longrightarrow> quiet_message message"
  by (cases e) auto

lemma on_socket_event_owner:
  "sv_owner (on_socket_event emit e sv) =
    (case forwarded e of Some message \<Rightarrow> emit message (sv_owner sv) | None \<Rightarrow> sv_owner sv)"
  by (cases e) (simp_all add: on_socket_event_def)

lemma listen_quiet:
  assumes "emit_laws emit" and "engine_quiet sv"
  shows "list_all quiet_message (sv_owner (listen_step emit sv))"
proof -
  have emit: "list_all quiet_message (emit m (sv_owner sv))" if "quiet_message m" for m
    using assms that by (auto simp: emit_laws_def engine_quiet_def list_all_iff)
  then show ?thesis
    using assms(2) by (auto simp: listen_step_def engine_quiet_def server_inv_def on_socket_event_owner
        intro!: emit intro: forwarded_quiet split: list.split option.split)
qed

lemmas owner_kept = keepsD [OF request_owner, unfolded same_owner_def] keepsD [OF upgrade_owner, unfolded same_owner_def]
  keepsD [OF send_owner, unfolded same_owner_def] keepsD [OF run_client_owner, unfolded same_owner_def]

lemma engine_step_quiet:
  assumes "emit_laws emit" and "server_step A open_json emit sv sv'" and "engine_quiet sv"
  shows "engine_quiet sv'"
proof -
  have "server_inv sv'" using server_step_inv [OF assms(2)] assms(3) by (simp add: inv_step_def engine_quiet_def)
  moreover have "list_all quiet_message (sv_owner sv')"
    using assms(2)
  proof cases
    case (closing i)
    with assms(3) show ?thesis by (simp add: close_socket_panics engine_quiet_def)
  next
    case subscribing
    with assms(3) show ?thesis
      by (auto simp: try_subscribe_def subscribe_to_socket_events_def engine_quiet_def split: server_state.split)
  next
    case listening
    with listen_quiet [OF assms(1,3)] show ?thesis by simp
  qed (use assms(3) in \<open>simp_all add: owner_kept engine_quiet_def\<close>)
  ultimately show ?thesis by (simp add: engine_quiet_def)
qed

section \<open>What the Socket.IO server hears\<close>

definition stack_inv :: "('s, 'd, 'x, 't, 'n) stack \<Rightarrow> bool" where
  "stack_inv sh \<longleftrightarrow> sio_inv sh \<and> engine_quiet (engine sh)"

lemma engine_simps [simp]:
  "engine (set_engine sv sh) = sv" "sio_inv (set_engine sv sh) = sio_inv sh"
  "engine (sh\<lparr>sh_heap := h\<rparr>) = engine sh" "engine (sh\<lparr>sh_namespaces := ns\<rparr>) = engine sh"
  "engine (sh\<lparr>sh_dynamic := dyn\<rparr>) = engine sh" "engine (sh\<lparr>sh_dynamic_heap := dh\<rparr>) = engine sh"
  "engine (sh\<lparr>sh_temp := tmp\<rparr>) = engine sh" "engine (sh\<lparr>sh_events := es\<rparr>) = engine sh"
  "engine (sh\<lparr>sh_listening := l\<rparr>) = engine sh"
  by (simp_all add: engine_def set_engine_def sio_inv_def namespaces_ok_def)

lemma get_or_create_engine: "engine (snd (get_or_create_namespace G name sh)) = engine sh"
  by (cases "get_or_create_namespace G name sh") (auto elim: get_or_create_cases)

lemma get_namespace_engine: "engine (snd (get_namespace G name sh)) = engine sh"
  using get_or_create_engine [of G name sh]
  by (auto simp: get_namespace_def andthen_def split: prod.splits outcome.splits)

lemma make_dynamic_engine: "engine (snd (make_dynamic_namespace descriptor sh)) = engine sh"
  by (simp add: make_dynamic_namespace_def)

lemma server_of_engine: "engine (snd (server_of G descriptor sh)) = engine sh"
  using get_namespace_engine [of G _ sh] make_dynamic_engine [of descriptor sh]
  by (auto simp: server_of_def andthen_def split: namespace_descriptor.splits prod.splits outcome.splits)
     (metis snd_conv)+

lemma subscribe_quiet:
  assumes "engine_quiet (engine sh)" and "g_adapter G = warp_sio_adapter"
  shows "engine_quiet (engine (snd (sio_subscribe G sh)))"
  using assms
  by (auto simp: sio_subscribe_def subscribe_to_engine_events_def warp_sio_adapter_def on_adapter_def
      standalone_subscribe_def on_server_def subscribe_def expect_ok_def try_subscribe_def
      subscribe_to_socket_events_def engine_def engine_quiet_def server_inv_def andthen_def
      split: option.splits prod.splits outcome.splits server_state.splits)

lemma owner_step_quiet:
  assumes "owner_step G order sh sh'" and "engine_quiet (engine sh)" and "g_adapter G = warp_sio_adapter"
  shows "engine_quiet (engine sh')"
  using assms
  by (induction rule: owner_step.induct)
    (simp_all add: get_namespace_engine server_of_engine make_dynamic_engine subscribe_quiet)

lemma quiet_message_ignored:
  "sio_inv sh \<Longrightarrow> quiet_message message \<Longrightarrow> on_engine_event G now new_id message sh = (Ok None, sh)"
  by (cases message) (simp_all add: on_engine_event_def handle_engine_socket_close_def remove_connection_none
      andthen_def)

lemma next_event_eq:
  assumes "stack_inv sh"
  shows "next_event G now new_id sh =
    (Ok None, if sh_listening sh then set_engine ((engine sh)\<lparr>sv_owner := tl (sv_owner (engine sh))\<rparr>) sh else sh)"
proof (cases "sv_owner (engine sh)")
  case Nil
  have "set_engine ((engine sh)\<lparr>sv_owner := []\<rparr>) sh = sh" if "sv_owner (engine sh) = []"
    using that by (cases sh; cases "sh_adapter sh"; cases "sa_server (sh_adapter sh)") (simp add: engine_def set_engine_def)
  with Nil show ?thesis by (simp add: next_event_def)
next
  case (Cons message messages)
  with assms have "quiet_message message" "sio_inv sh" by (simp_all add: stack_inv_def engine_quiet_def)
  with Cons show ?thesis by (simp add: next_event_def quiet_message_ignored)
qed

lemma stack_step_inv:
  assumes "stack_step A open_json emit G order sh sh'" and "stack_inv sh"
    and "emit_laws emit" and "g_adapter G = warp_sio_adapter"
  shows "stack_inv sh'"
  using assms(1)
proof cases
  case (client sv)
  with assms(2) engine_step_quiet [OF assms(3) client(2)] show ?thesis by (simp add: stack_inv_def)
next
  case owner
  with assms(2) show ?thesis
    using owner_step_quiet [OF owner _ assms(4)] owner_step_inv [OF owner] by (simp add: stack_inv_def)
next
  case (engine_event now new_id)
  have "list_all quiet_message (tl ms)" if "list_all quiet_message ms" for ms
    using that by (cases ms) simp_all
  with engine_event assms(2) show ?thesis
    by (simp add: next_event_eq stack_inv_def engine_quiet_def server_inv_def)
qed

lemma stack_reachable_inv:
  assumes "stack_reachable A open_json emit G order sh" and "emit_laws emit" and "g_adapter G = warp_sio_adapter"
  shows "stack_inv sh"
  using assms
proof (induction rule: stack_reachable.induct)
  case (stack_start oc options sh)
  then have "engine sh = server_new (sop_engine options) []"
    by (auto simp: sio_server_new_def engine_def warp_sio_adapter_def standalone_new_def Let_def split: if_splits)
  with stack_start show ?case
    by (simp add: stack_inv_def engine_quiet_def server_inv_def server_new_def sio_server_new_inv)
next
  case (stack_more sh sh')
  then show ?case by (auto intro: stack_step_inv)
qed

text \<open>
  C6: No client is ever heard. Whatever the clients do to the Engine.IO server, with requests, upgrades and
  packets in any order, and whatever the owner does meanwhile, the Socket.IO server is told of flushes,
  drains and closes only: reading the next event never panics, gives no answer and changes nothing but
  the queue of the events.
\<close>

theorem clients_are_not_heard:
  assumes "stack_reachable A open_json emit G order sh" and "emit_laws emit" and "g_adapter G = warp_sio_adapter"
  shows "list_all quiet_message (sv_owner (engine sh)) \<and> sh_connections sh = Map.empty \<and>
    next_event G now new_id sh =
      (Ok None, if sh_listening sh then set_engine ((engine sh)\<lparr>sv_owner := tl (sv_owner (engine sh))\<rparr>) sh else sh)"
proof -
  note inv = stack_reachable_inv [OF assms]
  then show ?thesis
    using next_event_eq [OF inv, of G now new_id] by (simp add: stack_inv_def engine_quiet_def sio_invD)
qed

section \<open>Witnesses\<close>

definition stack_generics_ref :: "(server_event list standalone_adapter, warp_adapter_options,
    (rstring \<times> rstring) list, nat default_decoder, handle_error, unit, unit, nat) generics" where
  "stack_generics_ref =
     \<lparr>g_adapter = warp_sio_adapter, g_storage = storage_ref,
      g_parser = default_parser True (nom_ref is_digit :: (uchar, packet) nom) serde_ref,
      g_regex = (\<lambda>_ _. True), g_function = (\<lambda>_ _ _. True), g_timestamp = (\<lambda>_. 0)\<rparr>"

lemma stack_ref_new:
  "\<exists>sh. sio_server_new True stack_generics_ref (sio_options_default warp_adapter_options_default) = Ok sh \<and>
    engine sh = server_new server_options_default [] \<and> \<not> sh_listening sh"
  by (simp add: sio_server_new_def sio_options_default_def sio_server_options_default_def chk_up_eq
      stack_generics_ref_def warp_sio_adapter_def standalone_new_def engine_def)

theorem clients_are_not_heard_witness:
  "\<exists>sh sh'. stack_reachable warp_ref json_ref emit_ref stack_generics_ref rev sh' \<and>
    sh' = set_engine (snd (handle_request warp_ref json_ref emit_ref (lit ''s'') context_ref None (engine sh))) sh \<and>
    next_event stack_generics_ref () (lit ''i'') sh' = (Ok None, sh')"
proof -
  obtain sh where sh: "sio_server_new True stack_generics_ref (sio_options_default warp_adapter_options_default) = Ok sh"
    "\<not> sh_listening sh"
    using stack_ref_new by blast
  let ?sh' = "set_engine (snd (handle_request warp_ref json_ref emit_ref (lit ''s'') context_ref None (engine sh))) sh"
  have r: "stack_reachable warp_ref json_ref emit_ref stack_generics_ref rev ?sh'"
    by (rule stack_more [OF stack_start [OF sh(1)] stack_step.client]) (rule server_step.request)
  have "emit_laws emit_ref" by (auto simp: emit_laws_def)
  moreover have "g_adapter stack_generics_ref = warp_sio_adapter" by (simp add: stack_generics_ref_def)
  moreover have "\<not> sh_listening ?sh'" using sh(2) by (simp add: set_engine_def)
  ultimately have "next_event stack_generics_ref () (lit ''i'') ?sh' = (Ok None, ?sh')"
    using clients_are_not_heard [OF r, of "()" "lit ''i''"] by simp
  with r show ?thesis by blast
qed

end
